(* ===== verification/Raft_Prelude.thy ===== *)
theory Raft_Prelude
  imports Main "HOL-Library.Word" "HOL-Library.Monad_Syntax" "HOL-Library.Sublist"
begin

text \<open>
  Shared vocabulary of the development: the fixed-width integers of Go, errors and run-time
  panics as values, slices with Go's bounds checks, the byte/string conversions, and the
  generic list and word lemmas every component uses.

  \<^item> A Go \<open>error\<close> result is the left summand of \<open>error + 'a\<close>.
  \<^item> A run-time panic (index out of range, nil dereference) is \<open>None\<close> of \<open>'a option\<close>;
    an operation that cannot panic has no \<open>option\<close> in its type.
\<close>

section \<open>Types of the language\<close>

type_synonym byte = "8 word"
type_synonym u32 = "32 word"
type_synonym u64 = "64 word"
type_synonym error = string
type_synonym 'a result = "error + 'a"
type_synonym duration = int

named_theorems raft_simps \<open>rewrite rules of the node operations under their usual guards\<close>
named_theorems wf_intros \<open>preservation rules of the well-formedness invariants\<close>

section \<open>Bounds-checked slices and indexing\<close>

text \<open>Go's \<open>xs[i]\<close> and \<open>xs[lo:hi]\<close> on a slice whose capacity is its length.\<close>

definition go_index :: "'a list \<Rightarrow> nat \<Rightarrow> 'a option" where
  "go_index xs i = (if i < length xs then Some (xs ! i) else None)"

definition go_slice :: "'a list \<Rightarrow> nat \<Rightarrow> nat \<Rightarrow> 'a list option" where
  "go_slice xs lo hi = (if lo \<le> hi \<and> hi \<le> length xs then Some (take (hi - lo) (drop lo xs)) else None)"

text \<open>Signed 64-bit arithmetic (\<open>int64\<close>, \<open>time.Duration\<close>) wraps around.\<close>

definition wrap64 :: "int \<Rightarrow> int" where
  "wrap64 x = (x + 2 ^ 63) mod 2 ^ 64 - 2 ^ 63"

lemma go_index_append [simp]: "i < length xs \<Longrightarrow> go_index (xs @ ys) i = go_index xs i"
  by (simp add: go_index_def nth_append)

lemma go_index_Cons_0 [simp]: "go_index (x # xs) 0 = Some x"
  by (simp add: go_index_def)

lemma go_slice_app_mid:
  assumes "length xs = lo" and "length ys = n"
  shows "go_slice (xs @ ys @ zs) lo (lo + n) = Some ys"
  using assms by (auto simp: go_slice_def)

lemma go_slice_Cons: "0 < lo \<Longrightarrow> lo \<le> hi \<Longrightarrow> go_slice (x # xs) lo hi = go_slice xs (lo - 1) (hi - 1)"
  by (cases lo; cases hi) (auto simp: go_slice_def)

lemma go_slice_skip:
  "length xs \<le> lo \<Longrightarrow> lo \<le> hi \<Longrightarrow> go_slice (xs @ ys) lo hi = go_slice ys (lo - length xs) (hi - length xs)"
  by (auto simp: go_slice_def)

lemma go_slice_prefix: "length xs = hi \<Longrightarrow> go_slice (xs @ ys) 0 hi = Some xs"
  by (auto simp: go_slice_def)

lemma go_slice_all: "length xs = hi \<Longrightarrow> go_slice xs 0 hi = Some xs"
  by (auto simp: go_slice_def)

lemma go_index_skip: "length xs \<le> i \<Longrightarrow> go_index (xs @ ys) i = go_index ys (i - length xs)"
  by (auto simp: go_index_def nth_append)

lemma go_index_Cons: "0 < i \<Longrightarrow> go_index (x # xs) i = go_index xs (i - 1)"
  by (auto simp: go_index_def nth_Cons')

lemmas go_slice_simps = go_slice_Cons go_slice_skip go_slice_prefix go_slice_all go_index_skip go_index_Cons

lemma wrap64_id: "- (2 ^ 63) \<le> x \<Longrightarrow> x < 2 ^ 63 \<Longrightarrow> wrap64 x = x"
  by (simp add: wrap64_def)

section \<open>Strings and bytes\<close>

text \<open>A Go string is a sequence of bytes: \<open>[]byte(s)\<close> and \<open>string(bs)\<close>.\<close>

definition byte_of_char :: "char \<Rightarrow> byte" where
  "byte_of_char c = word_of_nat (of_char c)"

definition char_of_byte :: "byte \<Rightarrow> char" where
  "char_of_byte b = char_of (unat b)"

definition bytes_of_string :: "string \<Rightarrow> byte list" where
  "bytes_of_string s = map byte_of_char s"

definition string_of_bytes :: "byte list \<Rightarrow> string" where
  "string_of_bytes bs = map char_of_byte bs"

lemma char_of_byte_of_char [simp]: "char_of_byte (byte_of_char c) = c"
proof -
  have "(of_char c :: nat) < 256"
    using of_char_mod_256 [where 'a = nat, of c] by (metis mod_less_divisor zero_less_numeral)
  then have "unat (word_of_nat (of_char c) :: byte) = of_char c"
    by (simp add: unat_of_nat)
  then show ?thesis
    by (simp add: char_of_byte_def byte_of_char_def)
qed

lemma string_of_bytes_of_string [simp]: "string_of_bytes (bytes_of_string s) = s"
  by (simp add: string_of_bytes_def bytes_of_string_def comp_def)

lemma length_bytes_of_string [simp]: "length (bytes_of_string s) = length s"
  by (simp add: bytes_of_string_def)

section \<open>Words as list positions\<close>

lemma unat_word_of_nat_u64 [simp]: "n < 2 ^ 64 \<Longrightarrow> unat (word_of_nat n :: u64) = n"
  by (simp add: unat_of_nat)

lemma unat_word_of_nat_u32 [simp]: "n < 2 ^ 32 \<Longrightarrow> unat (word_of_nat n :: u32) = n"
  by (simp add: unat_of_nat)

lemma word_of_nat_Suc: "word_of_nat (Suc n) = (word_of_nat n :: 'a::len word) + 1"
  by simp

lemma u64_eq_iff: "(a :: u64) = b \<longleftrightarrow> unat a = unat b"
  by (simp add: word_unat_eq_iff)

lemma u64_le_iff: "(a :: u64) \<le> b \<longleftrightarrow> unat a \<le> unat b"
  by (simp add: word_le_nat_alt)

lemma u64_less_iff: "(a :: u64) < b \<longleftrightarrow> unat a < unat b"
  by (simp add: word_less_nat_alt)

lemma unat_u64_less [simp]: "unat (a :: u64) < 18446744073709551616"
  using unsigned_less [of a] by simp

lemma unat_u64_Suc: "(a :: u64) \<noteq> - 1 \<Longrightarrow> unat (a + 1) = Suc (unat a)"
  using unatSuc [of a] by (auto simp: add.commute add_eq_0_iff)

lemma u64_less_Suc: "(a :: u64) \<noteq> - 1 \<Longrightarrow> a < a + 1"
  by (simp add: u64_less_iff unat_u64_Suc)

lemma unat_u64_pred: "(a :: u64) \<noteq> 0 \<Longrightarrow> unat (a - 1) = unat a - 1"
  by (metis unat_minus_one)

lemma unat_u64_pred_less: "1 \<le> unat (a :: u64) \<Longrightarrow> unat (a - 1) < unat a"
  by (cases "a = 0") (auto simp: unat_u64_pred)

lemma unat_u64_pred_pos: "0 < unat (a :: u64) \<Longrightarrow> unat (a - 1) = unat a - 1"
  by (cases "a = 0") (auto simp: unat_u64_pred)

end
