(* ===== verification/Go_Encoding.thy ===== *)
theory Go_Encoding
  imports Raft_Prelude
begin

text \<open>
  The parts of Go's standard library that the write-ahead log calls: \<open>binary.BigEndian\<close>
  for 32- and 64-bit integers, \<open>crc32.ChecksumIEEE\<close> and \<open>io.ReadFull\<close>. The theorems
  give the round trips of the integer codecs and that the checksum separates two byte
  strings that differ in one byte.
\<close>

unbundle bit_operations_syntax

section \<open>Big-endian integers\<close>

definition PutUint32 :: "u32 \<Rightarrow> byte list" where
  "PutUint32 v = [ucast (drop_bit 24 v), ucast (drop_bit 16 v), ucast (drop_bit 8 v), ucast v]"

definition PutUint64 :: "u64 \<Rightarrow> byte list" where
  "PutUint64 v =
     [ucast (drop_bit 56 v), ucast (drop_bit 48 v), ucast (drop_bit 40 v), ucast (drop_bit 32 v),
      ucast (drop_bit 24 v), ucast (drop_bit 16 v), ucast (drop_bit 8 v), ucast v]"

text \<open>\<open>BigEndian.Uint32(bs)\<close> panics when \<open>bs\<close> is too short; bytes past the fourth are ignored.\<close>

fun Uint32 :: "byte list \<Rightarrow> u32 option" where
  "Uint32 (a # b # c # d # _) =
     Some (push_bit 24 (ucast a) OR push_bit 16 (ucast b) OR push_bit 8 (ucast c) OR ucast d)"
| "Uint32 _ = None"

fun Uint64 :: "byte list \<Rightarrow> u64 option" where
  "Uint64 (a # b # c # d # e # f # g # h # _) =
     Some (push_bit 56 (ucast a) OR push_bit 48 (ucast b) OR push_bit 40 (ucast c)
        OR push_bit 32 (ucast d) OR push_bit 24 (ucast e) OR push_bit 16 (ucast f)
        OR push_bit 8 (ucast g) OR ucast h)"
| "Uint64 _ = None"

lemma length_PutUint32 [simp]: "length (PutUint32 v) = 4"
  by (simp add: PutUint32_def)

lemma length_PutUint64 [simp]: "length (PutUint64 v) = 8"
  by (simp add: PutUint64_def)

lemma take_bit_join_byte:
  fixes v :: "'a::len word"
  shows "push_bit k (ucast (ucast (drop_bit k v) :: byte)) OR take_bit k v = take_bit (k + 8) v"
proof (rule bit_word_eqI)
  fix n assume "n < LENGTH('a)"
  show "bit (push_bit k (ucast (ucast (drop_bit k v) :: byte)) OR take_bit k v) n = bit (take_bit (k + 8) v) n"
    using \<open>n < LENGTH('a)\<close> by (cases "n < k") (auto simp: bit_simps not_less)
qed

lemma ucast_byte_take_bit: "ucast (ucast v :: byte) = take_bit 8 (v :: 'a::len word)"
  by (rule bit_word_eqI) (auto simp: bit_simps)

lemma Uint32_PutUint32 [simp]: "Uint32 (PutUint32 v @ rest) = Some v"
  using take_bit_join_byte [of 8 v] take_bit_join_byte [of 16 v] take_bit_join_byte [of 24 v]
  by (simp add: PutUint32_def ucast_byte_take_bit take_bit_word_eq_self)

lemma Uint64_PutUint64 [simp]: "Uint64 (PutUint64 v @ rest) = Some v"
  using take_bit_join_byte [of 8 v] take_bit_join_byte [of 16 v] take_bit_join_byte [of 24 v]
    take_bit_join_byte [of 32 v] take_bit_join_byte [of 40 v] take_bit_join_byte [of 48 v]
    take_bit_join_byte [of 56 v]
  by (simp add: PutUint64_def ucast_byte_take_bit take_bit_word_eq_self)

lemmas Uint32_PutUint32_only [simp] = Uint32_PutUint32 [of _ "[]", simplified]
lemmas Uint64_PutUint64_only [simp] = Uint64_PutUint64 [of _ "[]", simplified]

section \<open>CRC-32 (IEEE)\<close>

text \<open>
  The reflected CRC with polynomial \<open>0xEDB88320\<close>, all-ones start value and final
  complement, one bit at a time; the library's tables compute the same function.
\<close>

definition crc_bit :: "u32 \<Rightarrow> u32" where
  "crc_bit s = (if bit s 0 then drop_bit 1 s XOR 0xEDB88320 else drop_bit 1 s)"

definition crc_byte :: "u32 \<Rightarrow> byte \<Rightarrow> u32" where
  "crc_byte s b = (crc_bit ^^ 8) (s XOR ucast b)"

definition ChecksumIEEE :: "byte list \<Rightarrow> u32" where
  "ChecksumIEEE bs = NOT (foldl crc_byte 0xFFFFFFFF bs)"

text \<open>An unrolled equation, with which the simplifier computes checksums of literals.\<close>

lemma crc_byte_unroll:
  "crc_byte s b =
     crc_bit (crc_bit (crc_bit (crc_bit (crc_bit (crc_bit (crc_bit (crc_bit (s XOR ucast b))))))))"
  by (simp add: crc_byte_def numeral_eq_Suc)

lemmas crc_eval = ChecksumIEEE_def crc_byte_unroll crc_bit_def

text \<open>The check value every CRC-32 catalogue lists for this polynomial.\<close>

lemma ChecksumIEEE_check_value:
  "ChecksumIEEE [0x31, 0x32, 0x33, 0x34, 0x35, 0x36, 0x37, 0x38, 0x39] = 0xCBF43926"
  by (simp add: crc_eval)

lemma ChecksumIEEE_Nil [simp]: "ChecksumIEEE [] = 0"
  by (simp add: ChecksumIEEE_def)

lemma word_xor_left_cancel: "(a :: 'a::len word) XOR b = a XOR c \<longleftrightarrow> b = c"
  by (metis xor.left_commute xor.right_neutral xor_self_eq)

lemma word_xor_right_cancel: "(b :: 'a::len word) XOR a = c XOR a \<longleftrightarrow> b = c"
  by (simp add: word_xor_left_cancel xor.commute [of _ a])

lemma bit_crc_bit_31: "bit (crc_bit s) 31 \<longleftrightarrow> bit s 0"
  by (auto simp: crc_bit_def bit_simps dest: bit_imp_le_length)

lemma inj_crc_bit: "inj crc_bit"
proof (rule injI)
  fix s t assume eq: "crc_bit s = crc_bit t"
  then have b0: "bit s 0 = bit t 0"
    by (metis bit_crc_bit_31)
  have d: "drop_bit 1 s = drop_bit 1 t"
    using eq b0 by (auto simp: crc_bit_def word_xor_right_cancel split: if_splits)
  show "s = t"
  proof (rule bit_word_eqI)
    fix n assume "n < LENGTH(32)"
    show "bit s n = bit t n"
    proof (cases n)
      case 0
      with b0 show ?thesis by simp
    next
      case (Suc m)
      with d show ?thesis by (metis bit_drop_bit_eq comp_apply plus_1_eq_Suc)
    qed
  qed
qed

lemma inj_crc_bit_pow: "inj (crc_bit ^^ n)"
  by (induction n) (auto intro: inj_compose [OF inj_crc_bit, unfolded comp_def] simp: comp_def)

lemma crc_byte_inj_state: "crc_byte s b = crc_byte t b \<longleftrightarrow> s = t"
  using inj_crc_bit_pow [of 8]
  by (auto simp: crc_byte_def inj_eq word_xor_right_cancel)

lemma ucast_byte_u32_inj: "(ucast (a :: byte) :: u32) = ucast b \<longleftrightarrow> a = b"
proof
  assume eq: "(ucast a :: u32) = ucast b"
  show "a = b"
  proof (rule bit_word_eqI)
    fix n assume "n < LENGTH(8)"
    then show "bit a n = bit b n"
      using arg_cong [OF eq, of "\<lambda>w. bit w n"] by (simp add: bit_simps)
  qed
qed simp

lemma crc_byte_inj_byte: "crc_byte s a = crc_byte s b \<longleftrightarrow> a = b"
  using inj_crc_bit_pow [of 8]
  by (simp add: crc_byte_def inj_eq word_xor_left_cancel ucast_byte_u32_inj)

lemma foldl_crc_byte_inj: "foldl crc_byte s bs = foldl crc_byte t bs \<longleftrightarrow> s = t"
  by (induction bs arbitrary: s t) (auto simp: crc_byte_inj_state)

lemma ChecksumIEEE_one_byte:
  "ChecksumIEEE (xs @ a # ys) = ChecksumIEEE (xs @ b # ys) \<longleftrightarrow> a = b"
  by (simp add: ChecksumIEEE_def foldl_crc_byte_inj crc_byte_inj_byte)

section \<open>Reading from a stream\<close>

text \<open>
  The bytes still to be read, and what a read meets after them: the end of the file or an
  error of the device. \<open>io.ReadFull\<close> distinguishes an empty read from a short one.
\<close>

datatype read_end = AtEOF | AtIOError

datatype read_error = EOF | ErrUnexpectedEOF | IOError

record stream =
  rest :: "byte list"
  at_end :: read_end

definition ReadFull :: "nat \<Rightarrow> stream \<Rightarrow> read_error + (byte list \<times> stream)" where
  "ReadFull n s =
     (if n \<le> length (rest s) then Inr (take n (rest s), s\<lparr>rest := drop n (rest s)\<rparr>)
      else if at_end s = AtIOError then Inl IOError
      else if rest s = [] then Inl EOF
      else Inl ErrUnexpectedEOF)"

lemma ReadFull_append [simp]:
  "length xs = n \<Longrightarrow> ReadFull n \<lparr>rest = xs @ ys, at_end = e\<rparr> = Inr (xs, \<lparr>rest = ys, at_end = e\<rparr>)"
  by (simp add: ReadFull_def)

lemma ReadFull_short: "length (rest s) < n \<Longrightarrow> \<exists>e. ReadFull n s = Inl e"
  by (auto simp: ReadFull_def)

lemma ReadFull_Inr:
  "ReadFull n s = Inr (xs, s') \<longleftrightarrow> n \<le> length (rest s) \<and> xs = take n (rest s) \<and> s' = s\<lparr>rest := drop n (rest s)\<rparr>"
  by (auto simp: ReadFull_def)

end
