(* ===== verification/Raft_Log.thy ===== *)
theory Raft_Log
  imports Raft_Prelude
begin

text \<open>
  The in-memory log, \<open>src/raft/log.go\<close>. Position 0 of the slice is the sentinel, so the
  slice position of an entry is its index. The invariant \<open>log_ok\<close> says so, and bounds
  \<open>commitIndex\<close> and \<open>lastApplied\<close>; every operation keeps it. The mutex of \<open>RaftLog\<close>
  makes each method atomic, so a method is a function of the log.

  The interface other components rely on is the locale \<open>commit_log\<close>: whatever sequence of
  operations runs, the entries up to the commit index stay where they are.
\<close>

section \<open>Data\<close>

type_synonym EntryType = int

definition EntryNormal :: EntryType where
  "EntryNormal = 0"

definition EntryConfig :: EntryType where
  "EntryConfig = 1"

record LogEntry =
  le_Index :: u64
  le_Term :: u64
  le_Type :: EntryType
  le_Data :: "byte list"

record RaftLog =
  entries :: "LogEntry list"
  commitIndex :: u64
  lastApplied :: u64

section \<open>Operations\<close>

definition sentinel :: LogEntry where
  "sentinel = \<lparr>le_Index = 0, le_Term = 0, le_Type = EntryNormal, le_Data = []\<rparr>"

definition NewRaftLog :: RaftLog where
  "NewRaftLog = \<lparr>entries = [sentinel], commitIndex = 0, lastApplied = 0\<rparr>"

text \<open>\<open>l.entries[len(l.entries) - 1]\<close>; the sentinel is never removed, so the slice is not empty.\<close>

definition LastIndex :: "RaftLog \<Rightarrow> u64" where
  "LastIndex l = le_Index (last (entries l))"

definition LastTerm :: "RaftLog \<Rightarrow> u64" where
  "LastTerm l = le_Term (last (entries l))"

definition GetEntry :: "u64 \<Rightarrow> RaftLog \<Rightarrow> LogEntry result" where
  "GetEntry index l =
     (if unat index \<ge> length (entries l) then Inl ''index out of range''
      else Inr (entries l ! unat index))"

definition GetEntries :: "u64 \<Rightarrow> u64 \<Rightarrow> RaftLog \<Rightarrow> LogEntry list result" where
  "GetEntries from to l =
     (let end = length (entries l) in
      if unat from \<ge> end \<or> unat to > end \<or> from > to then Inl ''invalid range''
      else Inr (take (unat to - unat from) (drop (unat from) (entries l))))"

definition Append :: "LogEntry list \<Rightarrow> RaftLog \<Rightarrow> RaftLog result" where
  "Append es l = Inr (l\<lparr>entries := entries l @ es\<rparr>)"

definition CommitTo :: "u64 \<Rightarrow> RaftLog \<Rightarrow> RaftLog result" where
  "CommitTo index l =
     (if unat index > length (entries l) - 1 then Inl ''cannot commit beyond last log index''
      else Inr (if index > commitIndex l then l\<lparr>commitIndex := index\<rparr> else l))"

text \<open>
  \<open>l.entries[:index]\<close> with \<open>index\<close> beyond the length re-exposes stale slots of the backing
  array or panics, depending on its capacity; the model counts both as a panic.
\<close>

definition RaftLog_TruncateFrom :: "u64 \<Rightarrow> RaftLog \<Rightarrow> RaftLog result option" where
  "RaftLog_TruncateFrom index l =
     (if index \<le> commitIndex l then Some (Inl ''cannot truncate committed entries'')
      else if unat index \<le> length (entries l)
      then Some (Inr (l\<lparr>entries := take (unat index) (entries l)\<rparr>))
      else None)"

definition CommitIndex :: "RaftLog \<Rightarrow> u64" where
  "CommitIndex l = commitIndex l"

definition LastApplied :: "RaftLog \<Rightarrow> u64" where
  "LastApplied l = lastApplied l"

definition SetLastApplied :: "u64 \<Rightarrow> RaftLog \<Rightarrow> RaftLog" where
  "SetLastApplied index l = l\<lparr>lastApplied := index\<rparr>"

section \<open>Well-formed logs\<close>

text \<open>Entries carry consecutive indexes from \<open>i\<close> on.\<close>

fun contig :: "u64 \<Rightarrow> LogEntry list \<Rightarrow> bool" where
  "contig i [] = True"
| "contig i (e # es) = (le_Index e = i \<and> contig (i + 1) es)"

definition log_ok :: "RaftLog \<Rightarrow> bool" where
  "log_ok l \<longleftrightarrow>
     entries l \<noteq> [] \<and> contig 0 (entries l) \<and> length (entries l) \<le> 2 ^ 63 \<and>
     unat (commitIndex l) < length (entries l) \<and> lastApplied l \<le> commitIndex l"

lemma contig_append: "contig i (xs @ ys) \<longleftrightarrow> contig i xs \<and> contig (i + word_of_nat (length xs)) ys"
  by (induction xs arbitrary: i) (auto simp: ac_simps)

lemma contig_take: "contig i xs \<Longrightarrow> contig i (take n xs)"
  by (metis append_take_drop_id contig_append)

lemma contig_drop: "contig i xs \<Longrightarrow> n \<le> length xs \<Longrightarrow> contig (i + word_of_nat n) (drop n xs)"
  using contig_append [of i "take n xs" "drop n xs"] by (auto simp: min_def split: if_splits)

lemma contig_nth: "contig i xs \<Longrightarrow> n < length xs \<Longrightarrow> le_Index (xs ! n) = i + word_of_nat n"
  by (induction xs arbitrary: i n) (auto simp: nth_Cons ac_simps split: nat.splits)

lemma contig_last: "contig i xs \<Longrightarrow> xs \<noteq> [] \<Longrightarrow> le_Index (last xs) = i + word_of_nat (length xs - 1)"
  by (simp add: last_conv_nth contig_nth)

lemma log_ok_NewRaftLog [simp, wf_intros]: "log_ok NewRaftLog"
  by (simp add: log_ok_def NewRaftLog_def sentinel_def)

lemma log_ok_nonempty: "log_ok l \<Longrightarrow> entries l \<noteq> []"
  by (simp add: log_ok_def)

lemma log_ok_length: "log_ok l \<Longrightarrow> 0 < length (entries l) \<and> length (entries l) \<le> 2 ^ 63"
  by (simp add: log_ok_def)

lemma LastIndex_Suc: "log_ok l \<Longrightarrow> LastIndex l + 1 = word_of_nat (length (entries l))"
  using contig_last [of 0 "entries l"] by (auto simp: LastIndex_def log_ok_def Suc_le_eq)

lemma unat_LastIndex_Suc: "log_ok l \<Longrightarrow> unat (LastIndex l + 1) = length (entries l)"
  using log_ok_length [of l] by (simp add: LastIndex_Suc)

lemma unat_LastIndex: "log_ok l \<Longrightarrow> unat (LastIndex l) = length (entries l) - 1"
  using unat_LastIndex_Suc [of l] unat_u64_Suc [of "LastIndex l"] log_ok_length [of l]
  by (cases "LastIndex l = - 1") auto

lemma LastIndex_not_max: "log_ok l \<Longrightarrow> LastIndex l \<noteq> - 1"
  using unat_LastIndex_Suc [of l] log_ok_length [of l] by auto

lemma entry_Index: "log_ok l \<Longrightarrow> n < length (entries l) \<Longrightarrow> le_Index (entries l ! n) = word_of_nat n"
  using contig_nth [of 0 "entries l" n] by (auto simp: log_ok_def)

lemma unat_entry_Index: "log_ok l \<Longrightarrow> n < length (entries l) \<Longrightarrow> unat (le_Index (entries l ! n)) = n"
  using log_ok_length [of l] by (simp add: entry_Index)

lemma le_LastIndex_iff: "log_ok l \<Longrightarrow> i \<le> LastIndex l \<longleftrightarrow> unat i < length (entries l)"
  using log_ok_nonempty [of l] by (cases "entries l") (auto simp: u64_le_iff unat_LastIndex)

section \<open>Functional behaviour\<close>

lemma GetEntry_Inr: "GetEntry i l = Inr e \<longleftrightarrow> unat i < length (entries l) \<and> e = entries l ! unat i"
  by (auto simp: GetEntry_def)

lemma GetEntry_Inl: "(\<exists>e. GetEntry i l = Inl e) \<longleftrightarrow> length (entries l) \<le> unat i"
  by (auto simp: GetEntry_def)

lemma GetEntry_LastIndex_iff: "log_ok l \<Longrightarrow> (\<exists>e. GetEntry i l = Inr e) \<longleftrightarrow> i \<le> LastIndex l"
  by (simp add: GetEntry_Inr le_LastIndex_iff)

lemma GetEntries_Inr:
  "GetEntries a b l = Inr es \<longleftrightarrow>
     unat a < length (entries l) \<and> unat b \<le> length (entries l) \<and> a \<le> b \<and>
     es = take (unat b - unat a) (drop (unat a) (entries l))"
  by (auto simp: GetEntries_def Let_def not_le not_less)

lemma log_ok_Append:
  assumes "log_ok l" and "contig (LastIndex l + 1) es" and "length (entries l) + length es \<le> 2 ^ 63"
  shows "log_ok (l\<lparr>entries := entries l @ es\<rparr>)"
  using assms LastIndex_Suc [OF assms(1)] by (auto simp: log_ok_def contig_append)

lemma log_ok_CommitTo: "log_ok l \<Longrightarrow> CommitTo i l = Inr l' \<Longrightarrow> log_ok l'"
  by (auto simp: log_ok_def CommitTo_def split: if_splits)

lemma CommitTo_Inr_iff: "log_ok l \<Longrightarrow> (\<exists>l'. CommitTo i l = Inr l') \<longleftrightarrow> i \<le> LastIndex l"
  using log_ok_nonempty [of l] by (cases "entries l") (auto simp: CommitTo_def le_LastIndex_iff)

lemma CommitTo_commitIndex: "CommitTo i l = Inr l' \<Longrightarrow> commitIndex l' = max (commitIndex l) i \<and> entries l' = entries l \<and> lastApplied l' = lastApplied l"
  by (auto simp: CommitTo_def max_def split: if_splits)

lemma log_ok_TruncateFrom: "log_ok l \<Longrightarrow> RaftLog_TruncateFrom i l = Some (Inr l') \<Longrightarrow> log_ok l'"
  by (auto simp: log_ok_def RaftLog_TruncateFrom_def u64_le_iff not_le contig_take split: if_splits)

lemma TruncateFrom_keeps_committed:
  "RaftLog_TruncateFrom i l = Some (Inr l') \<Longrightarrow>
     take (Suc (unat (commitIndex l))) (entries l') = take (Suc (unat (commitIndex l))) (entries l)"
  by (auto simp: RaftLog_TruncateFrom_def u64_le_iff not_le min_def split: if_splits)

lemma log_ok_SetLastApplied: "log_ok l \<Longrightarrow> i \<le> commitIndex l \<Longrightarrow> log_ok (SetLastApplied i l)"
  by (simp add: log_ok_def SetLastApplied_def)

lemma Append_then_TruncateFrom:
  assumes "log_ok l" and "Append es l = Inr l'"
  shows "RaftLog_TruncateFrom (LastIndex l + 1) l' = Some (Inr l)"
proof -
  have "unat (commitIndex l) < unat (LastIndex l + 1)"
    using assms(1) by (simp add: unat_LastIndex_Suc log_ok_def)
  moreover have "l' = l\<lparr>entries := entries l @ es\<rparr>"
    using assms(2) by (simp add: Append_def)
  ultimately show ?thesis
    by (simp add: RaftLog_TruncateFrom_def u64_le_iff not_le unat_LastIndex_Suc [OF assms(1)])
qed

section \<open>The contract of a log with a commit index\<close>

text \<open>
  What a client of a replicated log relies on: a transition never lowers the commit point
  and never touches an entry below it.
\<close>

locale commit_log =
  fixes trans :: "'l \<Rightarrow> 'l \<Rightarrow> bool"
    and ents :: "'l \<Rightarrow> 'e list"
    and committed :: "'l \<Rightarrow> nat"
  assumes committed_mono: "trans l l' \<Longrightarrow> committed l \<le> committed l'"
    and committed_kept: "trans l l' \<Longrightarrow> take (committed l) (ents l') = take (committed l) (ents l)"
begin

lemma run_committed_mono: "trans\<^sup>*\<^sup>* l l' \<Longrightarrow> committed l \<le> committed l'"
  by (induction rule: rtranclp_induct) (auto intro: le_trans dest: committed_mono)

lemma run_committed_kept: "trans\<^sup>*\<^sup>* l l' \<Longrightarrow> take (committed l) (ents l') = take (committed l) (ents l)"
proof (induction rule: rtranclp_induct)
  case (step m l')
  have "committed l \<le> committed m"
    using step.hyps(1) by (rule run_committed_mono)
  moreover have "take (committed m) (ents l') = take (committed m) (ents m)"
    using step.hyps(2) by (rule committed_kept)
  ultimately have "take (committed l) (ents l') = take (committed l) (ents m)"
    by (metis min.absorb1 take_take)
  with step.IH show ?case by simp
qed simp

lemma run_committed_nth:
  assumes "trans\<^sup>*\<^sup>* l l'" and "i < committed l"
  shows "go_index (ents l') i = go_index (ents l) i"
proof -
  have "go_index (take (committed l) xs) i = go_index xs i" for xs :: "'e list"
    using assms(2) by (simp add: go_index_def)
  then show ?thesis
    by (metis run_committed_kept [OF assms(1)])
qed

end

text \<open>One call of a mutating method; a method that returns an error leaves the log alone.\<close>

inductive log_trans :: "RaftLog \<Rightarrow> RaftLog \<Rightarrow> bool" where
  append: "Append es l = Inr l' \<Longrightarrow> log_trans l l'"
| commit: "CommitTo i l = Inr l' \<Longrightarrow> log_trans l l'"
| truncate: "RaftLog_TruncateFrom i l = Some (Inr l') \<Longrightarrow> log_trans l l'"
| applied: "log_trans l (SetLastApplied i l)"

definition committed_len :: "RaftLog \<Rightarrow> nat" where
  "committed_len l = min (Suc (unat (commitIndex l))) (length (entries l))"

lemma take_committed_len: "take (committed_len l) (entries l) = take (Suc (unat (commitIndex l))) (entries l)"
  by (simp add: committed_len_def min_def)

interpretation raft_log: commit_log log_trans entries committed_len
proof
  fix l l' assume "log_trans l l'"
  then show "committed_len l \<le> committed_len l'"
    by cases (auto simp: committed_len_def Append_def CommitTo_def RaftLog_TruncateFrom_def
        SetLastApplied_def u64_le_iff u64_less_iff not_le split: if_splits)
  show "take (committed_len l) (entries l') = take (committed_len l) (entries l)"
    using \<open>log_trans l l'\<close>
    by cases (auto simp: committed_len_def Append_def CommitTo_def RaftLog_TruncateFrom_def
        SetLastApplied_def u64_le_iff not_le split: if_splits)
qed

section \<open>Properties of the log\<close>

text \<open>
  Whatever methods run on the log, in any order and with any arguments, an entry at or
  below the commit index is never changed or removed afterwards.
\<close>

theorem log_committed_immutable:
  assumes "log_trans\<^sup>*\<^sup>* l l'" and "i < committed_len l"
  shows "go_index (entries l') i = go_index (entries l) i"
  using assms by (rule raft_log.run_committed_nth)

definition sample_log :: RaftLog where
  "sample_log = \<lparr>entries = [sentinel, \<lparr>le_Index = 1, le_Term = 1, le_Type = EntryNormal, le_Data = [5]\<rparr>,
     \<lparr>le_Index = 2, le_Term = 1, le_Type = EntryNormal, le_Data = [6]\<rparr>], commitIndex = 1, lastApplied = 0\<rparr>"

theorem log_committed_immutable_witness:
  "RaftLog_TruncateFrom 2 sample_log = Some (Inr (sample_log\<lparr>entries := take 2 (entries sample_log)\<rparr>)) \<and>
   go_index (take 2 (entries sample_log)) 1 = go_index (entries sample_log) 1"
proof -
  have run: "RaftLog_TruncateFrom 2 sample_log = Some (Inr (sample_log\<lparr>entries := take 2 (entries sample_log)\<rparr>))"
    by (simp add: RaftLog_TruncateFrom_def sample_log_def u64_le_iff)
  then have "log_trans\<^sup>*\<^sup>* sample_log (sample_log\<lparr>entries := take 2 (entries sample_log)\<rparr>)"
    by (blast intro: log_trans.truncate)
  from log_committed_immutable [OF this, of 1] run show ?thesis
    by (simp add: committed_len_def sample_log_def)
qed

text \<open>
  \<open>TruncateFrom\<close> undoes \<open>Append\<close>: after appending, truncating from the old last index
  plus one succeeds and gives back the log as it was.
\<close>

theorem log_append_truncate:
  assumes "log_ok l" and "Append es l = Inr l'"
  shows "RaftLog_TruncateFrom (LastIndex l + 1) l' = Some (Inr l)"
  using assms by (rule Append_then_TruncateFrom)

theorem log_append_truncate_witness:
  "log_ok NewRaftLog \<and> Append (tl (entries sample_log)) NewRaftLog = Inr (NewRaftLog\<lparr>entries := entries sample_log\<rparr>) \<and>
   RaftLog_TruncateFrom (LastIndex NewRaftLog + 1) (NewRaftLog\<lparr>entries := entries sample_log\<rparr>) = Some (Inr NewRaftLog)"
proof -
  have "Append (tl (entries sample_log)) NewRaftLog = Inr (NewRaftLog\<lparr>entries := entries sample_log\<rparr>)"
    by (simp add: Append_def sample_log_def NewRaftLog_def)
  with log_append_truncate [OF log_ok_NewRaftLog this] show ?thesis
    by simp
qed

text \<open>
  On a well-formed log \<open>GetEntry\<close> succeeds exactly for the indexes up to \<open>LastIndex\<close>, and the
  entry it returns carries that index; \<open>CommitTo\<close> succeeds exactly for those indexes and
  never lowers the commit index.
\<close>

theorem log_access:
  assumes "log_ok l"
  shows "((\<exists>e. GetEntry i l = Inr e \<and> le_Index e = i) \<longleftrightarrow> i \<le> LastIndex l) \<and>
    ((\<exists>l'. CommitTo i l = Inr l' \<and> log_ok l' \<and> commitIndex l' = max (commitIndex l) i) \<longleftrightarrow> i \<le> LastIndex l)"
  using entry_Index [OF assms, of "unat i"] GetEntry_LastIndex_iff [OF assms] CommitTo_Inr_iff [OF assms, of i]
    log_ok_CommitTo [OF assms, of i] CommitTo_commitIndex [of i l]
  by (auto simp: GetEntry_Inr le_LastIndex_iff [OF assms])

theorem log_access_witness:
  "log_ok sample_log \<and> ((\<exists>e. GetEntry 2 sample_log = Inr e \<and> le_Index e = 2) \<longleftrightarrow> 2 \<le> LastIndex sample_log)"
proof -
  have "log_ok sample_log"
    by (simp add: sample_log_def log_ok_def sentinel_def)
  with log_access [OF this, of 2] show ?thesis by blast
qed

end
