(* ===== verification/Raft_WAL.thy ===== *)
theory Raft_WAL
  imports Go_Encoding Raft_Log
begin

text \<open>
  The write-ahead log, \<open>src/raft/persistence.go\<close>, at the level of bytes: the file, the part
  of it that an fsync has forced to disk, and the \<open>bufio.Writer\<close> in front of it. The
  environment (a failing device, an unreadable sector) is part of the state, so every error
  branch of the code is a branch of the model.

  \<^item> Refinement: on a healthy device the file is the concatenation of the frames of a list of
    abstract records, and \<open>ReadAll\<close> returns the replay of that list.
  \<^item> Crash: whatever prefix of the file survives, as long as it contains what was synced,
    \<open>ReadAll\<close> returns the replay of a prefix of the records that contains the synced ones.
  \<^item> The locale \<open>durable_store\<close> states what the node relies on.
\<close>

section \<open>State\<close>

record WAL =
  w_file :: "byte list"
  w_synced :: nat
  w_offset :: nat
  w_append :: bool
  w_closed :: bool
  w_buf :: "byte list"
  w_err :: bool
  w_ok :: bool
  w_rdlimit :: "nat option"

text \<open>
  \<open>w_file\<close> is the content of \<open>raft.wal\<close> and \<open>w_synced\<close> the length of the prefix on disk;
  \<open>w_offset\<close>, \<open>w_append\<close> (\<open>O_APPEND\<close>) and \<open>w_closed\<close> belong to the open file;
  \<open>w_buf\<close> and \<open>w_err\<close> are the buffered bytes and the sticky error of the \<open>bufio.Writer\<close>.
  \<open>w_ok\<close> (writes, fsync and open succeed) and \<open>w_rdlimit\<close> (position from which reads fail)
  are set by the environment. The path is not part of the state: the record stands for one
  file.
\<close>

section \<open>The file and its buffered writer\<close>

definition overwrite :: "nat \<Rightarrow> byte list \<Rightarrow> byte list \<Rightarrow> byte list" where
  "overwrite pos p f = take pos f @ replicate (pos - length f) 0 @ p @ drop (pos + length p) f"

definition os_write :: "byte list \<Rightarrow> WAL \<Rightarrow> error option \<times> WAL" where
  "os_write p w =
     (if w_closed w then (Some ''file already closed'', w)
      else if \<not> w_ok w then (Some ''write error'', w)
      else let pos = (if w_append w then length (w_file w) else w_offset w) in
        (None, w\<lparr>w_file := overwrite pos p (w_file w), w_offset := pos + length p,
                 w_synced := min (w_synced w) pos\<rparr>))"

definition fsync :: "WAL \<Rightarrow> error option \<times> WAL" where
  "fsync w =
     (if w_closed w then (Some ''file already closed'', w)
      else if \<not> w_ok w then (Some ''fsync error'', w)
      else (None, w\<lparr>w_synced := length (w_file w)\<rparr>))"

definition bufio_size :: nat where
  "bufio_size = 4096"

definition Flush :: "WAL \<Rightarrow> error option \<times> WAL" where
  "Flush w =
     (if w_err w then (Some ''sticky write error'', w)
      else if w_buf w = [] then (None, w)
      else (case os_write (w_buf w) w of
              (Some e, w') \<Rightarrow> (Some e, w'\<lparr>w_err := True\<rparr>)
            | (None, w') \<Rightarrow> (None, w'\<lparr>w_buf := []\<rparr>)))"

text \<open>
  \<open>bufio.Writer.Write\<close>: bytes that fit are buffered; otherwise the buffer is filled and
  flushed, and a rest longer than the buffer goes to the file directly.
\<close>

definition write_empty :: "byte list \<Rightarrow> WAL \<Rightarrow> error option \<times> WAL" where
  "write_empty p w =
     (if length p \<le> bufio_size then (None, w\<lparr>w_buf := p\<rparr>)
      else (case os_write p w of
              (Some e, w') \<Rightarrow> (Some e, w'\<lparr>w_err := True\<rparr>)
            | (None, w') \<Rightarrow> (None, w')))"

definition bufio_Write :: "byte list \<Rightarrow> WAL \<Rightarrow> error option \<times> WAL" where
  "bufio_Write p w =
     (let avail = bufio_size - length (w_buf w) in
      if w_err w then (Some ''sticky write error'', w)
      else if length p \<le> avail then (None, w\<lparr>w_buf := w_buf w @ p\<rparr>)
      else if w_buf w = [] then write_empty p w
      else (case Flush (w\<lparr>w_buf := w_buf w @ take avail p\<rparr>) of
              (Some e, w') \<Rightarrow> (Some e, w')
            | (None, w') \<Rightarrow> write_empty (drop avail p) w'))"

section \<open>Records\<close>

definition walRecordState :: byte where
  "walRecordState = 1"

definition walRecordEntry :: byte where
  "walRecordEntry = 2"

definition state_record :: "u64 \<Rightarrow> string \<Rightarrow> byte list" where
  "state_record term votedFor =
     walRecordState # PutUint64 term @ PutUint32 (word_of_nat (length votedFor)) @ bytes_of_string votedFor"

definition entry_record :: "LogEntry \<Rightarrow> byte list" where
  "entry_record e =
     walRecordEntry # PutUint64 (le_Index e) @ PutUint64 (le_Term e) @ [word_of_int (le_Type e)]
       @ PutUint32 (word_of_nat (length (le_Data e))) @ le_Data e"

definition writeRecord :: "byte list \<Rightarrow> WAL \<Rightarrow> error option \<times> WAL" where
  "writeRecord data w =
     (case bufio_Write (PutUint32 (word_of_nat (length data))) w of
        (Some e, w1) \<Rightarrow> (Some e, w1)
      | (None, w1) \<Rightarrow>
          (case bufio_Write data w1 of
             (Some e, w2) \<Rightarrow> (Some e, w2)
           | (None, w2) \<Rightarrow> bufio_Write (PutUint32 (ChecksumIEEE data)) w2))"

definition SaveState :: "u64 \<Rightarrow> string \<Rightarrow> WAL \<Rightarrow> error option \<times> WAL" where
  "SaveState term votedFor w = writeRecord (state_record term votedFor) w"

fun SaveEntries :: "LogEntry list \<Rightarrow> WAL \<Rightarrow> error option \<times> WAL" where
  "SaveEntries [] w = (None, w)"
| "SaveEntries (e # es) w =
     (case writeRecord (entry_record e) w of
        (Some err, w') \<Rightarrow> (Some err, w')
      | (None, w') \<Rightarrow> SaveEntries es w')"

definition SaveEntry :: "LogEntry \<Rightarrow> WAL \<Rightarrow> error option \<times> WAL" where
  "SaveEntry e w = SaveEntries [e] w"

definition Sync :: "WAL \<Rightarrow> error option \<times> WAL" where
  "Sync w = (case Flush w of (Some e, w') \<Rightarrow> (Some e, w') | (None, w') \<Rightarrow> fsync w')"

section \<open>Recovery\<close>

type_synonym durable = "u64 \<times> string \<times> LogEntry list"

definition decode_state :: "byte list \<Rightarrow> (u64 \<times> string) option" where
  "decode_state data = do {
     tb \<leftarrow> go_slice data 1 9;
     term \<leftarrow> Uint64 tb;
     lb \<leftarrow> go_slice data 9 13;
     strLen \<leftarrow> Uint32 lb;
     vb \<leftarrow> go_slice data 13 (unat (13 + strLen));
     Some (term, string_of_bytes vb) }"

definition decode_entry :: "byte list \<Rightarrow> LogEntry option" where
  "decode_entry data = do {
     ib \<leftarrow> go_slice data 1 9;
     index \<leftarrow> Uint64 ib;
     tb \<leftarrow> go_slice data 9 17;
     term \<leftarrow> Uint64 tb;
     ty \<leftarrow> go_index data 17;
     lb \<leftarrow> go_slice data 18 22;
     dataLen \<leftarrow> Uint32 lb;
     d \<leftarrow> go_slice data 22 (unat (22 + dataLen));
     Some \<lparr>le_Index = index, le_Term = term, le_Type = uint ty, le_Data = d\<rparr> }"

text \<open>The \<open>switch\<close> on the type byte; an unknown type is skipped, an empty record panics.\<close>

definition decode_record :: "byte list \<Rightarrow> durable \<Rightarrow> durable option" where
  "decode_record data acc =
     (case acc of (term, votedFor, es) \<Rightarrow> do {
        ty \<leftarrow> go_index data 0;
        if ty = walRecordState then do { (t, v) \<leftarrow> decode_state data; Some (t, v, es) }
        else if ty = walRecordEntry then do { e \<leftarrow> decode_entry data; Some (term, votedFor, es @ [e]) }
        else Some acc })"

function read_records :: "stream \<Rightarrow> durable \<Rightarrow> (durable \<times> error option) option" where
  "read_records s acc =
     (case ReadFull 4 s of
        Inl IOError \<Rightarrow> Some (acc, Some ''read error'')
      | Inl _ \<Rightarrow> Some (acc, None)
      | Inr (lenBuf, s1) \<Rightarrow>
          (case Uint32 lenBuf of None \<Rightarrow> None | Some dataLen \<Rightarrow>
          (case ReadFull (unat dataLen) s1 of Inl _ \<Rightarrow> Some (acc, None) | Inr (data, s2) \<Rightarrow>
          (case ReadFull 4 s2 of Inl _ \<Rightarrow> Some (acc, None) | Inr (crcBuf, s3) \<Rightarrow>
          (case Uint32 crcBuf of None \<Rightarrow> None | Some expected \<Rightarrow>
             if expected \<noteq> ChecksumIEEE data then Some (acc, None)
             else (case decode_record data acc of
                     None \<Rightarrow> None
                   | Some acc' \<Rightarrow> read_records s3 acc'))))))"
  by pat_completeness auto
termination
  by (relation "measure (\<lambda>(s, acc). length (rest s))") (auto simp: ReadFull_Inr)

declare read_records.simps [simp del]

definition file_stream :: "WAL \<Rightarrow> stream" where
  "file_stream w =
     (case w_rdlimit w of
        None \<Rightarrow> \<lparr>rest = w_file w, at_end = AtEOF\<rparr>
      | Some k \<Rightarrow> if k < length (w_file w) then \<lparr>rest = take k (w_file w), at_end = AtIOError\<rparr>
                  else \<lparr>rest = w_file w, at_end = AtEOF\<rparr>)"

text \<open>
  Reading moves the file offset. Where the offset matters afterwards (a read error on a file
  opened without \<open>O_APPEND\<close>) the reader has consumed all bytes before the failing position.
\<close>

definition ReadAll :: "WAL \<Rightarrow> ((durable \<times> error option) \<times> WAL) option" where
  "ReadAll w =
     (if w_closed w then Some (((0, '''', []), Some ''seek: file already closed''), w)
      else map_option (\<lambda>r. (r, w\<lparr>w_offset := length (rest (file_stream w))\<rparr>))
             (read_records (file_stream w) (0, '''', [])))"

section \<open>Truncation, opening, closing\<close>

text \<open>\<open>w.file.Close()\<close>, then open with \<open>O_TRUNC\<close> and without \<open>O_APPEND\<close>.\<close>

definition reopen_trunc :: "WAL \<Rightarrow> error option \<times> WAL" where
  "reopen_trunc w =
     (if \<not> w_ok w then (Some ''open error'', w\<lparr>w_closed := True\<rparr>)
      else (None, w\<lparr>w_file := [], w_synced := 0, w_offset := 0, w_append := False,
                    w_closed := False, w_buf := [], w_err := False\<rparr>))"

fun save_below :: "u64 \<Rightarrow> LogEntry list \<Rightarrow> WAL \<Rightarrow> error option \<times> WAL" where
  "save_below index [] w = (None, w)"
| "save_below index (e # es) w =
     (if le_Index e < index then
        (case SaveEntry e w of
           (Some err, w') \<Rightarrow> (Some err, w')
         | (None, w') \<Rightarrow> save_below index es w')
      else save_below index es w)"

definition WAL_TruncateFrom :: "u64 \<Rightarrow> WAL \<Rightarrow> (error option \<times> WAL) option" where
  "WAL_TruncateFrom index w = do {
     (((term, votedFor, es), err), w1) \<leftarrow> ReadAll w;
     case err of
       Some e \<Rightarrow> Some (Some e, w1)
     | None \<Rightarrow>
         (case reopen_trunc w1 of
            (Some e, w2) \<Rightarrow> Some (Some e, w2)
          | (None, w2) \<Rightarrow>
              (case SaveState term votedFor w2 of
                 (Some e, w3) \<Rightarrow> Some (Some e, w3)
               | (None, w3) \<Rightarrow>
                   (case save_below index es w3 of
                      (Some e, w4) \<Rightarrow> Some (Some e, w4)
                    | (None, w4) \<Rightarrow> Some (Sync w4)))) }"

text \<open>Opening the file whose content the disk holds; \<open>ok\<close> is whether the calls succeed.\<close>

definition Open :: "bool \<Rightarrow> byte list \<Rightarrow> WAL result" where
  "Open ok contents =
     (if \<not> ok then Inl ''open error''
      else Inr \<lparr>w_file = contents, w_synced = length contents, w_offset = 0, w_append = True,
                w_closed = False, w_buf = [], w_err = False, w_ok = True, w_rdlimit = None\<rparr>)"

definition Close :: "WAL \<Rightarrow> error option \<times> WAL" where
  "Close w =
     (case Flush w of
        (Some e, w') \<Rightarrow> (Some e, w')
      | (None, w') \<Rightarrow> if w_closed w' then (Some ''file already closed'', w')
                     else (None, w'\<lparr>w_closed := True\<rparr>))"

section \<open>Abstract records\<close>

datatype wal_rec = RState u64 string | REntry LogEntry

fun encode_rec :: "wal_rec \<Rightarrow> byte list" where
  "encode_rec (RState t v) = state_record t v"
| "encode_rec (REntry e) = entry_record e"

text \<open>What the 32-bit length fields and the one-byte entry type can represent.\<close>

fun rec_ok :: "wal_rec \<Rightarrow> bool" where
  "rec_ok (RState t v) = (length v < 2 ^ 32 - 13)"
| "rec_ok (REntry e) = (length (le_Data e) < 2 ^ 32 - 22 \<and> 0 \<le> le_Type e \<and> le_Type e < 256)"

definition frame :: "byte list \<Rightarrow> byte list" where
  "frame d = PutUint32 (word_of_nat (length d)) @ d @ PutUint32 (ChecksumIEEE d)"

definition frames :: "wal_rec list \<Rightarrow> byte list" where
  "frames rs = concat (map (frame \<circ> encode_rec) rs)"

fun replay :: "durable \<Rightarrow> wal_rec \<Rightarrow> durable" where
  "replay (t, v, es) (RState t' v') = (t', v', es)"
| "replay (t, v, es) (REntry e) = (t, v, es @ [e])"

definition replay_all :: "wal_rec list \<Rightarrow> durable" where
  "replay_all rs = foldl replay (0, '''', []) rs"

lemma unat_plus_len: "n + k < 2 ^ 32 \<Longrightarrow> unat (word_of_nat k + word_of_nat n :: u32) = k + n"
  by (simp flip: of_nat_add)

lemma decode_state_record:
  assumes "length v < 2 ^ 32 - 13"
  shows "decode_state (state_record t v) = Some (t, v)"
proof -
  have "unat (13 + word_of_nat (length v) :: u32) = 13 + length v"
    using unat_plus_len [of "length v" 13] assms by simp
  then show ?thesis
    by (simp add: decode_state_def state_record_def go_slice_simps)
qed

lemma decode_entry_record:
  assumes "length (le_Data e) < 2 ^ 32 - 22" and "0 \<le> le_Type e" and "le_Type e < 256"
  shows "decode_entry (entry_record e) = Some e"
proof -
  have "unat (22 + word_of_nat (length (le_Data e)) :: u32) = 22 + length (le_Data e)"
    using unat_plus_len [of "length (le_Data e)" 22] assms by simp
  moreover have "uint (word_of_int (le_Type e) :: byte) = le_Type e"
    using assms by (simp add: uint_word_of_int)
  ultimately show ?thesis
    by (simp add: decode_entry_def entry_record_def go_slice_simps)
qed

lemma go_index_record [simp]:
  "go_index (state_record t v) 0 = Some walRecordState"
  "go_index (entry_record e) 0 = Some walRecordEntry"
  by (simp_all add: state_record_def entry_record_def)

lemma decode_encode: "rec_ok r \<Longrightarrow> decode_record (encode_rec r) acc = Some (replay acc r)"
  by (cases r; cases acc)
    (auto simp: decode_record_def decode_state_record decode_entry_record walRecordState_def walRecordEntry_def)

lemma length_encode_rec: "rec_ok r \<Longrightarrow> length (encode_rec r) < 2 ^ 32"
  by (cases r) (auto simp: state_record_def entry_record_def)

lemma read_frame:
  assumes "rec_ok r"
  shows "read_records \<lparr>rest = frame (encode_rec r) @ tail, at_end = e\<rparr> acc
       = read_records \<lparr>rest = tail, at_end = e\<rparr> (replay acc r)"
  using length_encode_rec [OF assms]
  by (subst read_records.simps) (simp add: frame_def decode_encode [OF assms])

lemma read_frames:
  "list_all rec_ok rs \<Longrightarrow>
   read_records \<lparr>rest = frames rs @ tail, at_end = e\<rparr> acc
     = read_records \<lparr>rest = tail, at_end = e\<rparr> (foldl replay acc rs)"
  by (induction rs arbitrary: acc) (auto simp: frames_def read_frame)

lemma read_records_short:
  assumes ok: "rec_ok r" and pre: "strict_prefix p (frame (encode_rec r))"
  shows "read_records \<lparr>rest = p, at_end = AtEOF\<rparr> acc = Some (acc, None)"
proof -
  let ?d = "encode_rec r"
  obtain z where z: "frame ?d = p @ z" and "z \<noteq> []"
    using pre by (auto elim!: strict_prefixE' simp: strict_prefix_def prefix_def)
  then have "length (frame ?d) = length p + length z" and "0 < length z"
    by simp_all
  then have len: "length p < length ?d + 8"
    by (simp add: frame_def del: length_greater_0_conv)
  show ?thesis
  proof (cases "length p < 4")
    case True
    then show ?thesis
      by (subst read_records.simps) (auto simp: ReadFull_def)
  next
    case False
    then have "take 4 p = PutUint32 (word_of_nat (length ?d))"
      using arg_cong [OF z, of "take 4"] by (simp add: frame_def)
    then show ?thesis
      using False len length_encode_rec [OF ok]
      by (subst read_records.simps) (auto simp: ReadFull_def)
  qed
qed

text \<open>
  Any prefix of a well-formed file is read as the records it contains completely; the
  incomplete last one is dropped.
\<close>

lemma read_prefix:
  assumes "list_all rec_ok rs" and "prefix p (frames rs)"
  shows "\<exists>k \<le> length rs. read_records \<lparr>rest = p, at_end = AtEOF\<rparr> acc = Some (foldl replay acc (take k rs), None)
           \<and> prefix (frames (take k rs)) p \<and> (k < length rs \<longrightarrow> length p < length (frames (take (Suc k) rs)))"
  using assms
proof (induction rs arbitrary: p acc)
  case Nil
  then have "p = []" by (simp add: frames_def)
  then show ?case
    by (subst read_records.simps) (simp add: ReadFull_def frames_def)
next
  case (Cons r rs)
  have fr: "frames (r # rs) = frame (encode_rec r) @ frames rs"
    by (simp add: frames_def)
  show ?case
  proof (cases "length (frame (encode_rec r)) \<le> length p")
    case True
    then obtain q where q: "p = frame (encode_rec r) @ q"
      using Cons.prems(2) fr by (metis prefixE prefix_length_prefix prefix_append prefixI)
    then have "prefix q (frames rs)" and ok: "rec_ok r" and "list_all rec_ok rs"
      using Cons.prems fr by auto
    then obtain k where k: "k \<le> length rs"
      "read_records \<lparr>rest = q, at_end = AtEOF\<rparr> (replay acc r) = Some (foldl replay (replay acc r) (take k rs), None)"
      "prefix (frames (take k rs)) q" "k < length rs \<longrightarrow> length q < length (frames (take (Suc k) rs))"
      using Cons.IH by blast
    then show ?thesis
      using q ok by (intro exI [of _ "Suc k"]) (auto simp: read_frame frames_def)
  next
    case False
    then have "prefix p (frame (encode_rec r))"
      using Cons.prems(2) fr by (metis nle_le prefixI prefix_length_prefix)
    with False have "strict_prefix p (frame (encode_rec r))"
      by (auto simp: strict_prefix_def)
    then show ?thesis
      using False Cons.prems(1)
      by (intro exI [of _ 0]) (auto simp: read_records_short frames_def)
  qed
qed


section \<open>Writing on a healthy device\<close>

definition pending :: "WAL \<Rightarrow> byte list" where
  "pending w = w_file w @ w_buf w"

definition wal_good :: "WAL \<Rightarrow> bool" where
  "wal_good w \<longleftrightarrow> w_ok w \<and> \<not> w_closed w \<and> \<not> w_err w \<and> w_rdlimit w = None \<and>
     (w_append w \<or> w_offset w = length (w_file w)) \<and>
     length (w_buf w) \<le> bufio_size \<and> w_synced w \<le> length (w_file w)"

text \<open>\<open>w'\<close> is \<open>w\<close> after writing the bytes \<open>p\<close>, some of which may still be buffered.\<close>

definition grows :: "byte list \<Rightarrow> WAL \<Rightarrow> WAL \<Rightarrow> bool" where
  "grows p w w' \<longleftrightarrow> wal_good w' \<and> pending w' = pending w @ p \<and> w_synced w' = w_synced w
     \<and> prefix (w_file w) (w_file w')"

lemma grows_trans: "grows p w w' \<Longrightarrow> grows q w' w'' \<Longrightarrow> grows (p @ q) w w''"
  by (auto simp: grows_def)

lemma os_write_good:
  "wal_good w \<Longrightarrow> os_write p w =
     (None, w\<lparr>w_file := w_file w @ p, w_offset := length (w_file w) + length p\<rparr>)"
  by (auto simp: wal_good_def os_write_def overwrite_def Let_def min_def)

lemma Flush_good:
  "wal_good w \<Longrightarrow> \<exists>w'. Flush w = (None, w') \<and> grows [] w w' \<and> w_buf w' = []"
  using os_write_good [of w "w_buf w"]
  by (auto simp: Flush_def grows_def pending_def wal_good_def)

lemma write_empty_good:
  "wal_good w \<Longrightarrow> w_buf w = [] \<Longrightarrow> \<exists>w'. write_empty p w = (None, w') \<and> grows p w w'"
  using os_write_good [of w p]
  by (auto simp: write_empty_def grows_def pending_def wal_good_def)

lemma bufio_Write_good:
  assumes good: "wal_good w"
  shows "\<exists>w'. bufio_Write p w = (None, w') \<and> grows p w w'"
proof -
  define avail where "avail = bufio_size - length (w_buf w)"
  define w1 where "w1 = w\<lparr>w_buf := w_buf w @ take avail p\<rparr>"
  have w1: "wal_good w1" "grows (take avail p) w w1"
    using good by (auto simp: w1_def wal_good_def grows_def pending_def avail_def min_def)
  consider "length p \<le> avail" | "avail < length p" "w_buf w = []" | "avail < length p" "w_buf w \<noteq> []"
    by linarith
  then show ?thesis
  proof cases
    case 1
    then show ?thesis
      using w1 good by (auto simp: bufio_Write_def avail_def [symmetric] w1_def wal_good_def)
  next
    case 2
    then have "bufio_size < length p"
      by (simp add: avail_def)
    with 2 show ?thesis
      using write_empty_good [OF good, of p] good
      by (auto simp: bufio_Write_def avail_def [symmetric] wal_good_def)
  next
    case 3
    obtain w2 where w2: "Flush w1 = (None, w2)" "grows [] w1 w2" "w_buf w2 = []"
      using Flush_good [OF w1(1)] by blast
    then obtain w3 where w3: "write_empty (drop avail p) w2 = (None, w3)" "grows (drop avail p) w2 w3"
      using write_empty_good [of w2] by (auto simp: grows_def)
    have "grows p w w3"
      using grows_trans [OF grows_trans [OF w1(2) w2(2)] w3(2)] by simp
    then show ?thesis
      using 3 w2 w3 good
      by (auto simp: bufio_Write_def avail_def [symmetric] w1_def [symmetric] wal_good_def)
  qed
qed

lemma writeRecord_good:
  assumes "wal_good w"
  shows "\<exists>w'. writeRecord d w = (None, w') \<and> grows (frame d) w w'"
proof -
  obtain w1 where w1: "bufio_Write (PutUint32 (word_of_nat (length d))) w = (None, w1)"
      "grows (PutUint32 (word_of_nat (length d))) w w1"
    using bufio_Write_good [OF assms] by blast
  then obtain w2 where w2: "bufio_Write d w1 = (None, w2)" "grows d w1 w2"
    using bufio_Write_good [of w1] by (auto simp: grows_def)
  then obtain w3 where w3: "bufio_Write (PutUint32 (ChecksumIEEE d)) w2 = (None, w3)"
      "grows (PutUint32 (ChecksumIEEE d)) w2 w3"
    using bufio_Write_good [of w2] by (auto simp: grows_def)
  show ?thesis
    using w1 w2 w3 grows_trans [OF grows_trans [OF w1(2) w2(2)] w3(2)]
    by (simp add: writeRecord_def frame_def)
qed

lemma frames_append [simp]: "frames (rs @ rs') = frames rs @ frames rs'"
  by (simp add: frames_def)

lemma frames_Nil [simp]: "frames [] = []"
  by (simp add: frames_def)

lemma frames_Cons: "frames (r # rs) = frame (encode_rec r) @ frames rs"
  by (simp add: frames_def)

lemma SaveState_good: "wal_good w \<Longrightarrow> \<exists>w'. SaveState t v w = (None, w') \<and> grows (frames [RState t v]) w w'"
  using writeRecord_good by (auto simp: SaveState_def frames_Cons)

lemma grows_refl: "wal_good w \<Longrightarrow> grows [] w w"
  by (simp add: grows_def)

lemma grows_good: "grows p w w' \<Longrightarrow> wal_good w'"
  by (simp add: grows_def)

lemma SaveEntries_good:
  "wal_good w \<Longrightarrow> \<exists>w'. SaveEntries es w = (None, w') \<and> grows (frames (map REntry es)) w w'"
proof (induction es arbitrary: w)
  case (Cons e es)
  obtain w1 where w1: "writeRecord (entry_record e) w = (None, w1)" "grows (frame (entry_record e)) w w1"
    using writeRecord_good [OF Cons.prems] by blast
  obtain w2 where w2: "SaveEntries es w1 = (None, w2)" "grows (frames (map REntry es)) w1 w2"
    using Cons.IH [OF grows_good [OF w1(2)]] by blast
  show ?case
    using w1 w2 grows_trans [OF w1(2) w2(2)] by (simp add: frames_Cons)
qed (simp add: grows_refl)

lemma save_below_good:
  "wal_good w \<Longrightarrow> \<exists>w'. save_below i es w = (None, w') \<and>
     grows (frames (map REntry (filter (\<lambda>e. le_Index e < i) es))) w w'"
proof (induction es arbitrary: w)
  case (Cons e es)
  show ?case
  proof (cases "le_Index e < i")
    case True
    obtain w1 where w1: "SaveEntry e w = (None, w1)" "grows (frames [REntry e]) w w1"
      using SaveEntries_good [OF Cons.prems, of "[e]"] by (auto simp: SaveEntry_def)
    obtain w2 where w2: "save_below i es w1 = (None, w2)"
        "grows (frames (map REntry (filter (\<lambda>e. le_Index e < i) es))) w1 w2"
      using Cons.IH [OF grows_good [OF w1(2)]] by blast
    show ?thesis
      using True w1 w2 grows_trans [OF w1(2) w2(2)] by (simp add: frames_Cons)
  next
    case False
    then show ?thesis using Cons by simp
  qed
qed (simp add: grows_refl)

text \<open>The file holds exactly the records \<open>rs\<close>, all of them on disk.\<close>

definition wal_holds :: "WAL \<Rightarrow> wal_rec list \<Rightarrow> bool" where
  "wal_holds w rs \<longleftrightarrow> wal_good w \<and> w_buf w = [] \<and> w_file w = frames rs \<and>
     w_synced w = length (w_file w) \<and> list_all rec_ok rs"

lemma Sync_good:
  assumes "wal_good w"
  shows "\<exists>w'. Sync w = (None, w') \<and> wal_good w' \<and> w_buf w' = [] \<and> w_file w' = pending w
      \<and> w_synced w' = length (w_file w')"
proof -
  obtain w1 where "Flush w = (None, w1)" "grows [] w w1" "w_buf w1 = []"
    using Flush_good [OF assms] by blast
  then show ?thesis
    by (auto simp: Sync_def fsync_def grows_def wal_good_def pending_def)
qed

lemma grows_Sync:
  assumes "wal_holds w rs" and "grows (frames rs') w w'" and "list_all rec_ok rs'"
  shows "\<exists>w''. Sync w' = (None, w'') \<and> wal_holds w'' (rs @ rs')"
  using assms Sync_good [OF grows_good [OF assms(2)]]
  by (auto simp: wal_holds_def grows_def pending_def)

lemma ReadAll_frames:
  assumes "wal_good w" and "w_file w = frames rs" and "list_all rec_ok rs"
  shows "ReadAll w = Some ((replay_all rs, None), w\<lparr>w_offset := length (w_file w)\<rparr>)"
proof -
  have "read_records \<lparr>rest = frames rs, at_end = AtEOF\<rparr> (0, '''', []) = Some (replay_all rs, None)"
    using read_frames [OF assms(3), of "[]"]
    by (simp add: replay_all_def) (simp add: read_records.simps ReadFull_def)
  with assms show ?thesis
    by (simp add: ReadAll_def file_stream_def wal_good_def)
qed

lemma replay_all_append: "replay_all (rs @ rs') = foldl replay (replay_all rs) rs'"
  by (simp add: replay_all_def)

lemma foldl_replay_entries: "foldl replay (t, v, es) (map REntry es') = (t, v, es @ es')"
  by (induction es' arbitrary: es) auto

definition durable_fits :: "durable \<Rightarrow> bool" where
  "durable_fits s \<longleftrightarrow> (case s of (t, v, es) \<Rightarrow> rec_ok (RState t v) \<and> list_all (rec_ok \<circ> REntry) es)"

lemma foldl_replay_fits: "list_all rec_ok rs \<Longrightarrow> durable_fits s \<Longrightarrow> durable_fits (foldl replay s rs)"
proof (induction rs arbitrary: s)
  case (Cons r rs)
  have "durable_fits (replay s r)"
    using Cons.prems by (cases r; cases s) (auto simp: durable_fits_def)
  then show ?case using Cons by simp
qed simp

lemma replay_all_fits: "list_all rec_ok rs \<Longrightarrow> durable_fits (replay_all rs)"
  unfolding replay_all_def by (rule foldl_replay_fits) (simp_all add: durable_fits_def)

lemma WAL_TruncateFrom_good:
  assumes holds: "wal_holds w rs" and rep: "replay_all rs = (t, v, es)"
  shows "\<exists>w'. WAL_TruncateFrom i w = Some (None, w') \<and>
           wal_holds w' (RState t v # map REntry (filter (\<lambda>e. le_Index e < i) es))"
proof -
  let ?es = "filter (\<lambda>e. le_Index e < i) es"
  have read: "ReadAll w = Some (((t, v, es), None), w\<lparr>w_offset := length (w_file w)\<rparr>)"
    using ReadAll_frames [of w rs] holds rep by (simp add: wal_holds_def)
  define w2 where "w2 = snd (reopen_trunc (w\<lparr>w_offset := length (w_file w)\<rparr>))"
  have w2: "reopen_trunc (w\<lparr>w_offset := length (w_file w)\<rparr>) = (None, w2)" "wal_holds w2 []"
    using holds by (auto simp: w2_def reopen_trunc_def wal_holds_def wal_good_def)
  obtain w3 where w3: "SaveState t v w2 = (None, w3)" "grows (frames [RState t v]) w2 w3"
    using SaveState_good [of w2 t v] w2(2) by (auto simp: wal_holds_def)
  obtain w4 where w4: "save_below i es w3 = (None, w4)" "grows (frames (map REntry ?es)) w3 w4"
    using save_below_good [OF grows_good [OF w3(2)]] by blast
  have "grows (frames (RState t v # map REntry ?es)) w2 w4"
    using grows_trans [OF w3(2) w4(2)] by (simp add: frames_Cons)
  moreover have "list_all rec_ok (RState t v # map REntry ?es)"
    using replay_all_fits [of rs] holds rep by (auto simp: wal_holds_def durable_fits_def list_all_iff)
  ultimately obtain w5 where "Sync w4 = (None, w5)" "wal_holds w5 (RState t v # map REntry ?es)"
    using grows_Sync [OF w2(2)] by force
  then show ?thesis
    using read w2 w3 w4 by (simp add: WAL_TruncateFrom_def)
qed

section \<open>Crashes\<close>

text \<open>
  After a crash the file is some prefix of what was written to it that contains everything
  forced to disk; buffered bytes are gone.
\<close>

definition crash_image :: "WAL \<Rightarrow> byte list \<Rightarrow> bool" where
  "crash_image w f \<longleftrightarrow> prefix f (w_file w) \<and> w_synced w \<le> length f"

text \<open>Records written one after the other with no fsync in between.\<close>

fun save_all :: "wal_rec list \<Rightarrow> WAL \<Rightarrow> error option \<times> WAL" where
  "save_all [] w = (None, w)"
| "save_all (RState t v # rs) w =
     (case SaveState t v w of (Some e, w') \<Rightarrow> (Some e, w') | (None, w') \<Rightarrow> save_all rs w')"
| "save_all (REntry e # rs) w =
     (case SaveEntry e w of (Some e, w') \<Rightarrow> (Some e, w') | (None, w') \<Rightarrow> save_all rs w')"

lemma save_all_good: "wal_good w \<Longrightarrow> \<exists>w'. save_all rs w = (None, w') \<and> grows (frames rs) w w'"
proof (induction rs arbitrary: w)
  case (Cons r rs)
  obtain w1 where w1: "save_all [r] w = (None, w1)" "grows (frames [r]) w w1"
  proof (cases r)
    case (RState t v)
    then show ?thesis using SaveState_good [OF Cons.prems, of t v] that by fastforce
  next
    case (REntry e)
    then show ?thesis
      using SaveEntries_good [OF Cons.prems, of "[e]"] that by (fastforce simp: SaveEntry_def)
  qed
  obtain w2 where w2: "save_all rs w1 = (None, w2)" "grows (frames rs) w1 w2"
    using Cons.IH [OF grows_good [OF w1(2)]] by blast
  have "save_all (r # rs) w = (None, w2)"
    using w1(1) w2(1) by (cases r) (auto split: prod.splits option.splits)
  then show ?case
    using grows_trans [OF w1(2) w2(2)] by (simp add: frames_Cons)
qed (simp add: grows_refl)

lemma length_frames_mono: "m \<le> k \<Longrightarrow> length (frames (take m rs)) \<le> length (frames (take k rs))"
  by (metis frames_append le_add1 length_append min.absorb1 take_take append_take_drop_id)

lemma crash_read:
  assumes holds: "wal_holds w rs" and grow: "grows (frames rs') w w'" and ok: "list_all rec_ok rs'"
    and crash: "crash_image w' f"
  shows "\<exists>k \<le> length rs'. read_records \<lparr>rest = f, at_end = AtEOF\<rparr> (0, '''', [])
           = Some (replay_all (rs @ take k rs'), None)"
proof -
  have "prefix f (frames (rs @ rs'))"
    using grow crash holds
    by (auto simp: crash_image_def grows_def pending_def wal_holds_def)
      (metis prefix_order.trans prefixI)
  moreover have "list_all rec_ok (rs @ rs')"
    using ok holds by (simp add: wal_holds_def)
  ultimately obtain k where k: "k \<le> length (rs @ rs')"
      "read_records \<lparr>rest = f, at_end = AtEOF\<rparr> (0, '''', []) = Some (foldl replay (0, '''', []) (take k (rs @ rs')), None)"
      "k < length (rs @ rs') \<longrightarrow> length f < length (frames (take (Suc k) (rs @ rs')))"
    using read_prefix [of "rs @ rs'" f "(0, '''', [])"] by blast
  have "length rs \<le> k"
  proof (rule ccontr)
    assume "\<not> length rs \<le> k"
    then have "length f < length (frames (take (length rs) (rs @ rs')))"
      using k(3) length_frames_mono [of "Suc k" "length rs" "rs @ rs'"] by simp
    then show False
      using crash grow holds by (simp add: crash_image_def grows_def wal_holds_def)
  qed
  then have "take k (rs @ rs') = rs @ take (k - length rs) rs'"
    by simp
  then show ?thesis
    using k(1,2) by (intro exI [of _ "k - length rs"]) (auto simp: replay_all_def)
qed

section \<open>What the node relies on\<close>

text \<open>
  A store that durably holds a term, a vote and a list of entries: writing a state or
  entries and forcing them to disk, cutting the entries from an index on, and recovery.
\<close>

locale durable_store =
  fixes holds :: "'w \<Rightarrow> durable \<Rightarrow> bool"
    and put_state :: "u64 \<Rightarrow> string \<Rightarrow> 'w \<Rightarrow> 'w"
    and put_entries :: "LogEntry list \<Rightarrow> 'w \<Rightarrow> 'w"
    and cut :: "u64 \<Rightarrow> 'w \<Rightarrow> 'w"
    and recover :: "'w \<Rightarrow> durable"
    and fits :: "wal_rec \<Rightarrow> bool"
  assumes put_state_holds: "holds w (t, v, es) \<Longrightarrow> fits (RState t' v') \<Longrightarrow> holds (put_state t' v' w) (t', v', es)"
    and put_entries_holds: "holds w (t, v, es) \<Longrightarrow> list_all (fits \<circ> REntry) es' \<Longrightarrow> holds (put_entries es' w) (t, v, es @ es')"
    and cut_holds: "holds w (t, v, es) \<Longrightarrow> holds (cut i w) (t, v, filter (\<lambda>e. le_Index e < i) es)"
    and recover_holds: "holds w s \<Longrightarrow> recover w = s"
begin

lemma holds_unique: "holds w s \<Longrightarrow> holds w s' \<Longrightarrow> s = s'"
  using recover_holds by blast

lemma cut_then_put:
  assumes "holds w (t, v, es)" and "list_all (fits \<circ> REntry) es'"
  shows "recover (put_entries es' (cut i w)) = (t, v, filter (\<lambda>e. le_Index e < i) es @ es')"
  using put_entries_holds [OF cut_holds [OF assms(1)] assms(2)] by (rule recover_holds)

lemma last_state_wins:
  assumes "holds w s" and "fits (RState t v)" and "fits (RState t' v')"
  shows "recover (put_state t' v' (put_state t v w)) = (t', v', snd (snd s))"
  using assms by (cases s) (auto intro!: recover_holds put_state_holds)

end

definition persist_state :: "u64 \<Rightarrow> string \<Rightarrow> WAL \<Rightarrow> WAL" where
  "persist_state t v w = snd (Sync (snd (SaveState t v w)))"

definition persist_entries :: "LogEntry list \<Rightarrow> WAL \<Rightarrow> WAL" where
  "persist_entries es w = snd (Sync (snd (SaveEntries es w)))"

definition persist_cut :: "u64 \<Rightarrow> WAL \<Rightarrow> WAL" where
  "persist_cut i w = snd (the (WAL_TruncateFrom i w))"

definition recover_file :: "WAL \<Rightarrow> durable" where
  "recover_file w = fst (fst (the (ReadAll w)))"

definition wal_durable :: "WAL \<Rightarrow> durable \<Rightarrow> bool" where
  "wal_durable w s \<longleftrightarrow> (\<exists>rs. wal_holds w rs \<and> replay_all rs = s)"

lemma SaveState_Sync:
  assumes "wal_holds w rs" and "rec_ok (RState t v)"
  shows "\<exists>w1 w2. SaveState t v w = (None, w1) \<and> Sync w1 = (None, w2) \<and> wal_holds w2 (rs @ [RState t v])"
  using SaveState_good [of w t v] grows_Sync [OF assms(1), of "[RState t v]"] assms
  by (fastforce simp: wal_holds_def)

lemma SaveEntries_Sync:
  assumes "wal_holds w rs" and "list_all (rec_ok \<circ> REntry) es"
  shows "\<exists>w1 w2. SaveEntries es w = (None, w1) \<and> Sync w1 = (None, w2) \<and> wal_holds w2 (rs @ map REntry es)"
proof -
  have "list_all rec_ok (map REntry es)"
    using assms(2) by (simp add: list.pred_map comp_def)
  then show ?thesis
    using SaveEntries_good [of w es] grows_Sync [OF assms(1), of "map REntry es"] assms
    by (fastforce simp: wal_holds_def)
qed

interpretation wal: durable_store wal_durable persist_state persist_entries persist_cut recover_file rec_ok
proof
  fix w t v es t' v' assume "wal_durable w (t, v, es)" and "rec_ok (RState t' v')"
  then show "wal_durable (persist_state t' v' w) (t', v', es)"
    using SaveState_Sync [of w _ t' v'] by (fastforce simp: wal_durable_def persist_state_def replay_all_append)
next
  fix w t v es es' assume "wal_durable w (t, v, es)" and "list_all (rec_ok \<circ> REntry) es'"
  then show "wal_durable (persist_entries es' w) (t, v, es @ es')"
    using SaveEntries_Sync [of w _ es']
    by (fastforce simp: wal_durable_def persist_entries_def replay_all_append foldl_replay_entries)
next
  fix w t v es i assume "wal_durable w (t, v, es)"
  then obtain rs where "wal_holds w rs" and rep: "replay_all rs = (t, v, es)"
    by (auto simp: wal_durable_def)
  then obtain w' where "WAL_TruncateFrom i w = Some (None, w')"
      and "wal_holds w' (RState t v # map REntry (filter (\<lambda>e. le_Index e < i) es))"
    using WAL_TruncateFrom_good by blast
  then show "wal_durable (persist_cut i w) (t, v, filter (\<lambda>e. le_Index e < i) es)"
    by (auto simp: wal_durable_def persist_cut_def replay_all_def foldl_replay_entries
        intro!: exI [of _ "RState t v # map REntry (filter (\<lambda>e. le_Index e < i) es)"])
next
  fix w s assume "wal_durable w s"
  then show "recover_file w = s"
    using ReadAll_frames [of w] by (auto simp: wal_durable_def wal_holds_def recover_file_def)
qed

section \<open>Properties of the write-ahead log\<close>

lemma Open_holds: "list_all rec_ok rs \<Longrightarrow> \<exists>w. Open True (frames rs) = Inr w \<and> wal_holds w rs"
  by (simp add: Open_def wal_holds_def wal_good_def)

lemma ReadAll_Open: "Open True f = Inr w \<Longrightarrow>
   ReadAll w = map_option (\<lambda>r. (r, w\<lparr>w_offset := length f\<rparr>)) (read_records \<lparr>rest = f, at_end = AtEOF\<rparr> (0, '''', []))"
  by (auto simp: Open_def ReadAll_def file_stream_def)

text \<open>
  C9. Round trip. Whatever term, vote and entry records are saved to a file that already holds
  well-formed records, after a sync \<open>ReadAll\<close> returns the replay of the old records followed
  by the new ones, without an error.
\<close>

theorem wal_roundtrip:
  assumes "list_all rec_ok (rs @ rs')"
  shows "\<exists>w w1 w2 w3. Open True (frames rs) = Inr w \<and> save_all rs' w = (None, w1) \<and> Sync w1 = (None, w2) \<and>
     ReadAll w2 = Some ((replay_all (rs @ rs'), None), w3)"
proof -
  obtain w where w: "Open True (frames rs) = Inr w" "wal_holds w rs"
    using assms Open_holds by auto
  then obtain w1 where w1: "save_all rs' w = (None, w1)" "grows (frames rs') w w1"
    using save_all_good [of w rs'] by (auto simp: wal_holds_def)
  then obtain w2 where "Sync w1 = (None, w2)" "wal_holds w2 (rs @ rs')"
    using grows_Sync [OF w(2) w1(2)] assms by auto
  then show ?thesis
    using w w1 ReadAll_frames [of w2 "rs @ rs'"] by (auto simp: wal_holds_def)
qed

text \<open>
  C8. Crash recovery. Records are saved to a synced file and the machine dies at any moment
  before the next sync. Whatever prefix of the file survives, as long as it has what was
  synced, a new process recovers the replay of the synced records and of some prefix of the
  later ones: nothing synced is lost, and nothing is invented.
\<close>

theorem wal_crash_recovery:
  assumes "list_all rec_ok (rs @ rs')" and "Open True (frames rs) = Inr w" and "save_all rs' w = (None, w1)"
    and "crash_image w1 f"
  shows "\<exists>k \<le> length rs'. \<exists>w2 w3. Open True f = Inr w2 \<and> ReadAll w2 = Some ((replay_all (rs @ take k rs'), None), w3)"
proof -
  have w: "wal_holds w rs"
    using assms(1,2) Open_holds [of rs] by auto
  then have grows: "grows (frames rs') w w1"
    using save_all_good [of w rs'] assms(3) by (auto simp: wal_holds_def)
  then obtain k where "k \<le> length rs'"
      "read_records \<lparr>rest = f, at_end = AtEOF\<rparr> (0, '''', []) = Some (replay_all (rs @ take k rs'), None)"
    using crash_read [OF w grows _ assms(4)] assms(1) by auto
  then show ?thesis
    using ReadAll_Open [of f] by (auto simp: Open_def)
qed

text \<open>
  \<open>TruncateFrom\<close> rewrites the file so that recovery afterwards returns the same term and
  vote and exactly the entries below the given index.
\<close>

theorem wal_truncate:
  assumes "wal_durable w (t, v, es)"
  shows "\<exists>w' w''. WAL_TruncateFrom i w = Some (None, w') \<and>
     ReadAll w' = Some (((t, v, filter (\<lambda>e. le_Index e < i) es), None), w'')"
proof -
  obtain rs where rs: "wal_holds w rs" "replay_all rs = (t, v, es)"
    using assms by (auto simp: wal_durable_def)
  let ?rs = "RState t v # map REntry (filter (\<lambda>e. le_Index e < i) es)"
  obtain w' where w': "WAL_TruncateFrom i w = Some (None, w')" "wal_holds w' ?rs"
    using WAL_TruncateFrom_good [OF rs] by blast
  have "replay_all ?rs = (t, v, filter (\<lambda>e. le_Index e < i) es)"
    by (simp add: replay_all_def foldl_replay_entries)
  then show ?thesis
    using w' ReadAll_frames [of w' ?rs] by (auto simp: wal_holds_def)
qed

text \<open>
  C26. A record one byte of whose payload was damaged on disk ends recovery: \<open>ReadAll\<close> reports
  no error and returns exactly the records before it.
\<close>

theorem wal_corruption_detected:
  assumes "list_all rec_ok rs" and "length (xs @ b # ys) < 2 ^ 32" and "b' \<noteq> b"
    and "Open True (frames rs @ PutUint32 (word_of_nat (length (xs @ b # ys))) @ (xs @ b' # ys)
           @ PutUint32 (ChecksumIEEE (xs @ b # ys)) @ tail) = Inr w"
  shows "\<exists>w'. ReadAll w = Some ((replay_all rs, None), w')"
proof -
  let ?rest = "PutUint32 (word_of_nat (length (xs @ b # ys))) @ (xs @ b' # ys) @ PutUint32 (ChecksumIEEE (xs @ b # ys)) @ tail"
  have "ChecksumIEEE (xs @ b # ys) \<noteq> ChecksumIEEE (xs @ b' # ys)"
    using assms(3) by (simp add: ChecksumIEEE_one_byte)
  moreover have "length (xs @ b' # ys) = length (xs @ b # ys)"
    by simp
  ultimately have "read_records \<lparr>rest = ?rest, at_end = AtEOF\<rparr> acc = Some (acc, None)" for acc
    using assms(2) by (subst read_records.simps) (simp del: length_append append_assoc)
  then show ?thesis
    using read_frames [OF assms(1), of ?rest AtEOF "(0, '''', [])"] ReadAll_Open [OF assms(4)]
    by (simp add: replay_all_def)
qed

definition sample_entry :: LogEntry where
  "sample_entry = \<lparr>le_Index = 1, le_Term = 1, le_Type = EntryNormal, le_Data = [7, 8]\<rparr>"

lemma rec_ok_sample: "list_all rec_ok ([RState 1 ''n1''] @ [REntry sample_entry])"
  by (simp add: sample_entry_def EntryNormal_def)

theorem wal_roundtrip_witness:
  "\<exists>w w1 w2 w3. Open True (frames [RState 1 ''n1'']) = Inr w \<and> save_all [REntry sample_entry] w = (None, w1) \<and>
     Sync w1 = (None, w2) \<and> ReadAll w2 = Some ((replay_all ([RState 1 ''n1''] @ [REntry sample_entry]), None), w3)"
  by (rule wal_roundtrip [OF rec_ok_sample])

text \<open>The entry is still in the buffer when the machine dies; the synced vote is recovered.\<close>

theorem wal_crash_recovery_witness:
  "\<exists>w w1. Open True (frames [RState 1 ''n1'']) = Inr w \<and> save_all [REntry sample_entry] w = (None, w1) \<and>
     crash_image w1 (frames [RState 1 ''n1'']) \<and>
     (\<exists>k \<le> length [REntry sample_entry]. \<exists>w2 w3. Open True (frames [RState 1 ''n1'']) = Inr w2 \<and>
        ReadAll w2 = Some ((replay_all ([RState 1 ''n1''] @ take k [REntry sample_entry]), None), w3))"
proof -
  obtain w where w: "Open True (frames [RState 1 ''n1'']) = Inr w" "wal_holds w [RState 1 ''n1'']"
    using Open_holds [of "[RState 1 ''n1'']"] by auto
  then obtain w1 where w1: "save_all [REntry sample_entry] w = (None, w1)" "grows (frames [REntry sample_entry]) w w1"
    using save_all_good [of w "[REntry sample_entry]"] by (auto simp: wal_holds_def)
  have crash: "crash_image w1 (frames [RState 1 ''n1''])"
    using w(2) w1(2) by (simp add: crash_image_def grows_def wal_holds_def)
  show ?thesis
    using w(1) w1(1) crash wal_crash_recovery [OF rec_ok_sample w(1) w1(1) crash] by blast
qed

lemma wal_durable_sample:
  "\<exists>w. Open True (frames [RState 1 ''n1'', REntry sample_entry]) = Inr w \<and> wal_durable w (1, ''n1'', [sample_entry])"
  using Open_holds [of "[RState 1 ''n1'', REntry sample_entry]"] rec_ok_sample
  by (auto simp: wal_durable_def replay_all_def intro!: exI [of _ "[RState 1 ''n1'', REntry sample_entry]"])

theorem wal_truncate_witness:
  "\<exists>w w' w''. wal_durable w (1, ''n1'', [sample_entry]) \<and> WAL_TruncateFrom 1 w = Some (None, w') \<and>
     ReadAll w' = Some (((1, ''n1'', filter (\<lambda>e. le_Index e < 1) [sample_entry]), None), w'')"
  using wal_durable_sample wal_truncate [where t = 1 and v = "''n1''" and es = "[sample_entry]" and i = 1] by metis

theorem wal_corruption_detected_witness:
  "\<exists>w w'. Open True (frames [RState 1 ''n1''] @ PutUint32 (word_of_nat (length ([2 :: byte] @ 5 # [6]))) @ ([2] @ 4 # [6])
        @ PutUint32 (ChecksumIEEE ([2] @ 5 # [6])) @ []) = Inr w \<and>
     ReadAll w = Some ((replay_all [RState 1 ''n1''], None), w')"
proof -
  obtain w where w: "Open True (frames [RState 1 ''n1''] @ PutUint32 (word_of_nat (length ([2 :: byte] @ 5 # [6]))) @ ([2] @ 4 # [6])
        @ PutUint32 (ChecksumIEEE ([2] @ 5 # [6])) @ []) = Inr w"
    by (simp add: Open_def)
  have "\<exists>w'. ReadAll w = Some ((replay_all [RState 1 ''n1''], None), w')"
    by (rule wal_corruption_detected [OF _ _ _ w]) simp_all
  with w show ?thesis by blast
qed

section \<open>What recovery does not do\<close>

definition torn_tail :: "byte list" where
  "torn_tail = [0, 0, 0, 16, 0xDE, 0xAD, 0xBE, 0xEF, 0xCA, 0xFE]"

text \<open>
  C27. \<open>ReadAll\<close> stops at a torn tail but leaves it in the file, and the file is opened for
  appending. A vote that is saved and synced afterwards, without any error, lies behind the
  garbage and is gone at the next recovery.
\<close>

theorem wal_torn_tail_swallows:
  "\<exists>w w1 w2 w3 w4. Open True torn_tail = Inr w \<and> ReadAll w = Some (((0, '''', []), None), w1) \<and>
     SaveState 1 ''n1'' w1 = (None, w2) \<and> Sync w2 = (None, w3) \<and> w_synced w3 = length (w_file w3) \<and>
     ReadAll w3 = Some (((0, '''', []), None), w4)"
proof -
  define w where "w = projr (Open True torn_tail)"
  define w1 where "w1 = w\<lparr>w_offset := length torn_tail\<rparr>"
  have w: "Open True torn_tail = Inr w" "wal_good w1" "pending w1 = torn_tail"
    by (auto simp: w_def w1_def Open_def wal_good_def pending_def)
  have r1: "ReadAll w = Some (((0, '''', []), None), w1)"
    using ReadAll_Open [OF w(1)] by (subst (asm) read_records.simps) (simp add: w1_def torn_tail_def ReadFull_def)
  obtain w2 where w2: "SaveState 1 ''n1'' w1 = (None, w2)" "grows (frames [RState 1 ''n1'']) w1 w2"
    using SaveState_good [OF w(2)] by blast
  obtain w3 where w3: "Sync w2 = (None, w3)" "wal_good w3" "w_file w3 = torn_tail @ frames [RState 1 ''n1'']"
      "w_synced w3 = length (w_file w3)"
    using Sync_good [OF grows_good [OF w2(2)]] w2(2) w(3) by (auto simp: grows_def)
  have "read_records \<lparr>rest = w_file w3, at_end = AtEOF\<rparr> (0, '''', []) = Some ((0, '''', []), None)"
    unfolding w3(3)
    by (subst read_records.simps)
      (simp add: torn_tail_def frames_def frame_def state_record_def PutUint32_def PutUint64_def ReadFull_def
        walRecordState_def bytes_of_string_def byte_of_char_def crc_eval)
  then have "ReadAll w3 = Some (((0, '''', []), None), w3\<lparr>w_offset := length (w_file w3)\<rparr>)"
    using w3(2) by (simp add: ReadAll_def file_stream_def wal_good_def)
  then show ?thesis
    using w(1) r1 w2(1) w3(1,4) by blast
qed

text \<open>
  Eight zero bytes are a record of length zero with a valid checksum; recovery indexes its
  empty payload and panics instead of returning.
\<close>

theorem wal_zero_record_panics:
  assumes "list_all rec_ok rs" and "Open True (frames rs @ replicate 8 0 @ tail) = Inr w"
  shows "ReadAll w = None"
proof -
  have "replicate 8 (0 :: byte) = [0, 0, 0, 0, 0, 0, 0, 0]"
    by (simp add: eval_nat_numeral)
  then have "read_records \<lparr>rest = replicate 8 0 @ tail, at_end = AtEOF\<rparr> acc = None" for acc
    by (subst read_records.simps) (auto simp: ReadFull_def decode_record_def go_index_def split: prod.split)
  then show ?thesis
    using read_frames [OF assms(1), of "replicate 8 0 @ tail" AtEOF "(0, '''', [])"] ReadAll_Open [OF assms(2)] by simp
qed

theorem wal_zero_record_panics_witness:
  "\<exists>w. Open True (frames [RState 1 ''n1''] @ replicate 8 0 @ []) = Inr w \<and> ReadAll w = None"
proof -
  obtain w where w: "Open True (frames [RState 1 ''n1''] @ replicate 8 0 @ []) = Inr w"
    by (simp add: Open_def)
  have "ReadAll w = None"
    by (rule wal_zero_record_panics [OF _ w]) simp
  with w show ?thesis by blast
qed

text \<open>
  \<open>TruncateFrom\<close> empties the file before it writes the kept records back. A crash right
  after the reopening leaves an empty file: term, vote and every entry are gone.
\<close>

theorem wal_truncate_window:
  assumes "wal_holds w rs" and "crash_image (snd (reopen_trunc w)) f"
  shows "\<exists>w1 w2. Open True f = Inr w1 \<and> ReadAll w1 = Some (((0, '''', []), None), w2)"
proof -
  have "f = []"
    using assms by (simp add: crash_image_def reopen_trunc_def wal_holds_def wal_good_def)
  then show ?thesis
    using ReadAll_Open [of f] by (simp add: Open_def) (simp add: read_records.simps ReadFull_def)
qed

theorem wal_truncate_window_witness:
  "\<exists>w. wal_holds w [RState 1 ''n1''] \<and> crash_image (snd (reopen_trunc w)) [] \<and>
     (\<exists>w1 w2. Open True [] = Inr w1 \<and> ReadAll w1 = Some (((0, '''', []), None), w2))"
proof -
  obtain w where w: "wal_holds w [RState 1 ''n1'']"
    using Open_holds [of "[RState 1 ''n1'']"] by auto
  then have crash: "crash_image (snd (reopen_trunc w)) []"
    by (simp add: crash_image_def reopen_trunc_def wal_holds_def wal_good_def)
  show ?thesis
    using w crash wal_truncate_window [OF w crash] by blast
qed

section \<open>Recovery of arbitrary files\<close>

text \<open>A record as the reader takes it from the file, with a length and a checksum that are right.\<close>

definition framed :: "byte list \<Rightarrow> byte list \<Rightarrow> byte list \<Rightarrow> bool" where
  "framed lenBuf data crcBuf \<longleftrightarrow> length lenBuf = 4 \<and> length crcBuf = 4 \<and>
     map_option unat (Uint32 lenBuf) = Some (length data) \<and> Uint32 crcBuf = Some (ChecksumIEEE data)"

lemma decode_entry_length: "decode_entry data = Some e \<Longrightarrow> 22 \<le> length data"
  by (auto simp: decode_entry_def go_slice_def bind_eq_Some_conv split: if_splits)

lemma decode_record_panic: "decode_record data acc = None \<longleftrightarrow> decode_record data (0, '''', []) = None"
  by (cases acc) (auto simp: decode_record_def bind_eq_None_conv split: prod.splits)

lemma decode_record_entries:
  "decode_record data acc = Some acc' \<Longrightarrow> 30 * length (snd (snd acc')) \<le> 30 * length (snd (snd acc)) + (length data + 8)"
  by (cases acc) (auto simp: decode_record_def bind_eq_Some_conv dest!: decode_entry_length split: if_splits)

lemma Uint32_total: "length b = 4 \<Longrightarrow> \<exists>v. Uint32 b = Some v"
  by (auto simp: length_Suc_conv eval_nat_numeral)

lemma ReadFull_split: "ReadFull n s = Inr (xs, s') \<Longrightarrow> rest s = xs @ rest s' \<and> length xs = n \<and> at_end s' = at_end s"
  by (auto simp: ReadFull_Inr)

text \<open>One turn of the reader at the end of whose stream is the end of the file.\<close>

lemma read_records_turn:
  assumes "at_end s = AtEOF"
  obtains "read_records s acc = Some (acc, None)"
  | lenBuf data crcBuf s3 where "rest s = lenBuf @ data @ crcBuf @ rest s3" and "framed lenBuf data crcBuf" and "at_end s3 = AtEOF"
      and "read_records s acc = (case decode_record data acc of None \<Rightarrow> None | Some acc' \<Rightarrow> read_records s3 acc')"
proof (cases "read_records s acc = Some (acc, None)")
  case False
  note step = False [unfolded read_records.simps [of s acc]]
  obtain lenBuf s1 where r1: "ReadFull 4 s = Inr (lenBuf, s1)"
    using step assms by (cases "ReadFull 4 s") (auto simp: ReadFull_def split: if_splits)
  then obtain n where n: "Uint32 lenBuf = Some n" using Uint32_total ReadFull_split by blast
  obtain data s2 where r2: "ReadFull (unat n) s1 = Inr (data, s2)"
    using step r1 n by (cases "ReadFull (unat n) s1") auto
  obtain crcBuf s3 where r3: "ReadFull 4 s2 = Inr (crcBuf, s3)"
    using step r1 n r2 by (cases "ReadFull 4 s2") auto
  then obtain c where c: "Uint32 crcBuf = Some c" using Uint32_total ReadFull_split by blast
  have crc: "c = ChecksumIEEE data"
    using step r1 n r2 r3 c by (auto split: if_splits)
  have "read_records s acc = (case decode_record data acc of None \<Rightarrow> None | Some acc' \<Rightarrow> read_records s3 acc')"
    using r1 n r2 r3 c crc by (subst read_records.simps) simp
  moreover have "rest s = lenBuf @ data @ crcBuf @ rest s3" "framed lenBuf data crcBuf" "at_end s3 = AtEOF"
    using r1 [THEN ReadFull_split] r2 [THEN ReadFull_split] r3 [THEN ReadFull_split] n c crc assms by (simp_all add: framed_def)
  ultimately show thesis by (intro that(2))
qed (rule that(1))

lemma read_records_ends:
  assumes "at_end s = AtEOF"
  shows "case read_records s acc of
     None \<Rightarrow> \<exists>pre lenBuf data crcBuf post. rest s = pre @ lenBuf @ data @ crcBuf @ post \<and> framed lenBuf data crcBuf \<and>
       decode_record data (0, '''', []) = None
   | Some (acc', err) \<Rightarrow> err = None \<and> 30 * length (snd (snd acc')) \<le> 30 * length (snd (snd acc)) + length (rest s)"
  using assms
proof (induction "length (rest s)" arbitrary: s acc rule: less_induct)
  case less
  from less.prems show ?case
  proof (cases rule: read_records_turn [where acc = acc])
    case (2 lenBuf data crcBuf s3)
    have len: "length lenBuf = 4" "length crcBuf = 4"
      using 2(2) by (simp_all add: framed_def)
    show ?thesis
    proof (cases "decode_record data acc")
      case None
      then show ?thesis
        using 2 decode_record_panic [of data acc] by simp (metis append_Nil)
    next
      case (Some acc1)
      have "length (rest s3) < length (rest s)"
        using 2(1) len by simp
      note IH = less.hyps [OF this 2(3), of acc1]
      show ?thesis
      proof (cases "read_records s3 acc1")
        case None
        then obtain pre l d c post where "rest s3 = pre @ l @ d @ c @ post" "framed l d c" "decode_record d (0, '''', []) = None"
          using IH by auto
        then have "\<exists>pre l d c post. rest s = pre @ l @ d @ c @ post \<and> framed l d c \<and> decode_record d (0, '''', []) = None"
          using 2(1) by (intro exI [of _ "lenBuf @ data @ crcBuf @ pre"] exI [of _ l] exI [of _ d] exI [of _ c] exI [of _ post]) simp
        then show ?thesis
          using 2(4) Some None by simp
      next
        case (Some r)
        then show ?thesis
          using IH 2(1,4) \<open>decode_record data acc = Some acc1\<close> decode_record_entries [of data acc acc1] len by (auto split: prod.splits)
      qed
    qed
  qed simp
qed

text \<open>
  C25. Recovery ends on every file. Reading back a file of any content returns without an error,
  with at most one entry for every thirty bytes, unless the file holds a record whose length and
  checksum are right and whose payload is too short for its type: then the code indexes beyond
  the payload and panics.
\<close>

theorem wal_recovery_terminates:
  assumes "Open True f = Inr w"
  shows "case ReadAll w of
     None \<Rightarrow> \<exists>pre lenBuf data crcBuf post. f = pre @ lenBuf @ data @ crcBuf @ post \<and> framed lenBuf data crcBuf \<and>
       decode_record data (0, '''', []) = None
   | Some (((t, v, es), err), w') \<Rightarrow> err = None \<and> 30 * length es \<le> length f"
  using read_records_ends [of "\<lparr>rest = f, at_end = AtEOF\<rparr>" "(0, '''', [])"] ReadAll_Open [OF assms]
  by (auto split: option.splits prod.splits)

theorem wal_recovery_terminates_witness:
  "\<exists>w r w'. Open True [1, 2, 3] = Inr w \<and> ReadAll w = Some (r, w') \<and> snd r = None \<and> 30 * length (snd (snd (fst r))) \<le> 3"
proof -
  obtain w where w: "Open True [1, 2, 3] = Inr w"
    by (simp add: Open_def)
  have "\<not> framed l d c" if "[1, 2, 3] = pre @ l @ d @ c @ post" for pre l d c post
    using arg_cong [OF that, of length] by (auto simp: framed_def)
  with wal_recovery_terminates [OF w] w show ?thesis
    by (cases "ReadAll w") (fastforce split: prod.splits)+
qed

end
