(* ===== verification/Raft_Node.thy ===== *)
theory Raft_Node
  imports Raft_WAL "HOL-Library.AList"
begin

text \<open>
  Configuration, messages and the node itself: \<open>src/raft/config.go\<close> and
  \<open>src/raft/node.go\<close>. A function models what one call does between taking and releasing
  \<open>n.mu\<close>; a \<open>go\<close> statement appends to \<open>tasks\<close>, the goroutines the node has spawned.
  Time and randomness are inputs (\<open>env\<close>). \<open>None\<close> is a run-time panic.

  The theory ends with the contract every locked region keeps, the relation \<open>advances\<close>:
  terms do not go down, a vote cast in the current term stays, and the committed part of
  the log does not change.
\<close>

section \<open>Configuration\<close>

datatype NodeState = Follower | Candidate | PreCandidate | Leader

fun NodeState_String :: "NodeState \<Rightarrow> string" where
  "NodeState_String Follower = ''Follower''"
| "NodeState_String Candidate = ''Candidate''"
| "NodeState_String PreCandidate = ''PreCandidate''"
| "NodeState_String Leader = ''Leader''"

record PeerConfig =
  pc_ID :: string
  pc_Address :: string

record Config =
  NodeID :: string
  Peers :: "PeerConfig list"
  ElectionTimeout :: duration
  HeartbeatInterval :: duration
  MaxLogEntries :: int
  SnapshotThreshold :: int
  DataDir :: string
  EnablePreVote :: bool

definition Millisecond :: duration where
  "Millisecond = 1000000"

definition DefaultConfig :: "string \<Rightarrow> Config" where
  "DefaultConfig nodeID =
     \<lparr>NodeID = nodeID, Peers = [], ElectionTimeout = 150 * Millisecond,
      HeartbeatInterval = 50 * Millisecond, MaxLogEntries = 1000, SnapshotThreshold = 10000,
      DataDir = ''data/'' @ nodeID, EnablePreVote = True\<rparr>"

section \<open>Messages\<close>

record VoteRequest =
  vq_Term :: u64
  vq_CandidateID :: string
  vq_LastLogIndex :: u64
  vq_LastLogTerm :: u64
  vq_PreVote :: bool

record VoteResponse =
  vr_Term :: u64
  vr_VoteGranted :: bool

record AppendEntriesRequest =
  aq_Term :: u64
  aq_LeaderID :: string
  aq_PrevLogIndex :: u64
  aq_PrevLogTerm :: u64
  aq_Entries :: "LogEntry list"
  aq_LeaderCommit :: u64

record AppendEntriesResponse =
  ar_Term :: u64
  ar_Success :: bool
  ar_ConflictTerm :: u64
  ar_ConflictIndex :: u64

section \<open>The node\<close>

record Peer =
  p_ID :: string
  NextIndex :: u64
  MatchIndex :: u64

record NodeStatus =
  ns_ID :: string
  ns_State :: NodeState
  ns_Term :: u64
  ns_LeaderID :: string
  ns_CommitIndex :: u64
  ns_LastApplied :: u64
  ns_LogIndex :: u64

text \<open>
  A \<open>time.Timer\<close>: running or not, its duration, and whether it has expired with its value
  not yet received. The module requires Go 1.26, where \<open>Stop\<close> discards such a value and
  then reports that it stopped the timer.
\<close>

record timer =
  t_armed :: bool
  t_duration :: duration
  t_pending :: bool

text \<open>What a locked region reads of its surroundings: the clock and a random 63-bit number.\<close>

record env =
  now :: int
  rnd :: int

datatype task = GoRun | GoHeartbeats | GoCampaign bool | GoReplicate string | GoApply

record RaftNode =
  node_id :: string
  config :: Config
  currentTerm :: u64
  votedFor :: string
  state :: NodeState
  leaderID :: string
  log :: RaftLog
  wal :: WAL
  peers :: "(string \<times> Peer) list"
  electionTimer :: "timer option"
  electionTimeout :: duration
  lastLeaderContactTime :: int
  commitCh :: "LogEntry list"
  stopped :: bool
  timingUpdateCh :: "duration list"
  proposals :: "(u64 \<times> nat) list"
  results :: "(nat \<times> error option) list"
  next_ch :: nat
  heartbeatTicker :: "duration option"
  tasks :: "task list"

text \<open>
  \<open>peers\<close> is the map from id to \<open>*Peer\<close>, as an association list whose order stands for
  the iteration order. \<open>proposals\<close> maps a log index to the channel its \<open>Propose\<close> waits
  on; a channel is a number, \<open>results\<close> holds what was sent on them and \<open>next_ch\<close> is the
  next unused one. \<open>stopped\<close> says that \<open>stopCh\<close> is closed, \<open>heartbeatTicker\<close> is the
  ticker of \<open>run\<close>.
\<close>

definition spawn :: "task \<Rightarrow> RaftNode \<Rightarrow> RaftNode" where
  "spawn t n = n\<lparr>tasks := tasks n @ [t]\<rparr>"

section \<open>Construction\<close>

fun build_peers :: "PeerConfig list \<Rightarrow> (string \<times> Peer) list \<Rightarrow> (string \<times> Peer) list" where
  "build_peers [] m = m"
| "build_peers (p # ps) m =
     build_peers ps (AList.update (pc_ID p) \<lparr>p_ID = pc_ID p, NextIndex = 0, MatchIndex = 0\<rparr> m)"

text \<open>
  \<open>NewRaftNode\<close> on a data directory whose WAL file has the given content; \<open>ok\<close> says
  whether the file can be opened.
\<close>

definition NewRaftNode :: "Config \<Rightarrow> bool \<Rightarrow> byte list \<Rightarrow> RaftNode result option" where
  "NewRaftNode cfg ok contents =
     (case Open ok contents of
        Inl e \<Rightarrow> Some (Inl (''open WAL: '' @ e))
      | Inr w \<Rightarrow> do {
          (((term, voted, walEntries), err), w') \<leftarrow> ReadAll w;
          (case err of
             Some e \<Rightarrow> Some (Inl (''read: WAL '' @ e))
           | None \<Rightarrow>
               (case (if walEntries = [] then Inr NewRaftLog else Append walEntries NewRaftLog) of
                  Inl e \<Rightarrow> Some (Inl (''replay WAL entries: '' @ e))
                | Inr raftLog \<Rightarrow>
                    Some (Inr \<lparr>node_id = NodeID cfg, config = cfg, currentTerm = term,
                      votedFor = voted, state = Follower, leaderID = '''', log = raftLog,
                      wal = w', peers = build_peers (Peers cfg) [], electionTimer = None,
                      electionTimeout = 0, lastLeaderContactTime = 0, commitCh = [],
                      stopped = False, timingUpdateCh = [], proposals = [], results = [],
                      next_ch = 0, heartbeatTicker = None, tasks = []\<rparr>))) })"

section \<open>Timers\<close>

text \<open>\<open>rand.Int63n\<close>: panics unless its argument is positive.\<close>

definition Int63n :: "int \<Rightarrow> int \<Rightarrow> int option" where
  "Int63n n r = (if n \<le> 0 then None else Some (r mod n))"

definition randomElectionTimeout :: "env \<Rightarrow> RaftNode \<Rightarrow> duration option" where
  "randomElectionTimeout e n = do {
     jitter \<leftarrow> Int63n (ElectionTimeout (config n)) (rnd e);
     Some (wrap64 (ElectionTimeout (config n) + jitter)) }"

definition timer_stop :: "timer \<Rightarrow> bool \<times> timer" where
  "timer_stop t = (t_armed t \<or> t_pending t, t\<lparr>t_armed := False, t_pending := False\<rparr>)"

definition resetElectionTimer :: "env \<Rightarrow> RaftNode \<Rightarrow> RaftNode option" where
  "resetElectionTimer e n = do {
     t \<leftarrow> electionTimer n;
     let (active, t1) = timer_stop t;
     let t2 = (if \<not> active then t1\<lparr>t_pending := False\<rparr> else t1);
     d \<leftarrow> randomElectionTimeout e n;
     Some (n\<lparr>electionTimeout := d, electionTimer := Some (t2\<lparr>t_armed := True, t_duration := d\<rparr>)\<rparr>) }"

section \<open>Lifecycle\<close>

definition Start :: "env \<Rightarrow> RaftNode \<Rightarrow> RaftNode option" where
  "Start e n = do {
     d \<leftarrow> randomElectionTimeout e n;
     Some (spawn GoRun (n\<lparr>electionTimeout := d,
              electionTimer := Some \<lparr>t_armed = True, t_duration = d, t_pending = False\<rparr>\<rparr>)) }"

definition Stop :: "RaftNode \<Rightarrow> RaftNode" where
  "Stop n =
     (let n1 = n\<lparr>state := Follower, electionTimer := map_option (snd \<circ> timer_stop) (electionTimer n)\<rparr>
      in n1\<lparr>stopped := True, wal := snd (Close (wal n1))\<rparr>)"

section \<open>State transitions\<close>

definition becomeFollower :: "env \<Rightarrow> u64 \<Rightarrow> string \<Rightarrow> RaftNode \<Rightarrow> RaftNode option" where
  "becomeFollower e term leader n =
     (let n1 = n\<lparr>state := Follower, leaderID := leader\<rparr>;
          n2 = (if term > currentTerm n1
                then n1\<lparr>currentTerm := term, votedFor := '''', wal := persist_state term '''' (wal n1)\<rparr>
                else n1);
          n3 = (if leader \<noteq> '''' then n2\<lparr>lastLeaderContactTime := now e\<rparr> else n2)
      in resetElectionTimer e n3)"

definition becomeCandidate :: "env \<Rightarrow> RaftNode \<Rightarrow> RaftNode option" where
  "becomeCandidate e n =
     (let n1 = n\<lparr>state := Candidate, currentTerm := currentTerm n + 1, votedFor := node_id n, leaderID := ''''\<rparr>;
          n2 = n1\<lparr>wal := persist_state (currentTerm n1) (votedFor n1) (wal n1)\<rparr>
      in resetElectionTimer e n2)"

definition reset_peer :: "u64 \<Rightarrow> Peer \<Rightarrow> Peer" where
  "reset_peer lastIndex p = p\<lparr>NextIndex := lastIndex + 1, MatchIndex := 0\<rparr>"

definition becomeLeader :: "RaftNode \<Rightarrow> RaftNode option" where
  "becomeLeader n =
     (let lastIndex = LastIndex (log n);
          noop = \<lparr>le_Index = lastIndex + 1, le_Term = currentTerm n, le_Type = EntryNormal, le_Data = []\<rparr>;
          n1 = n\<lparr>state := Leader, leaderID := node_id n,
                 peers := map (\<lambda>(k, p). (k, reset_peer lastIndex p)) (peers n),
                 wal := persist_entries [noop] (wal n),
                 log := (case Append [noop] (log n) of Inl _ \<Rightarrow> log n | Inr l \<Rightarrow> l)\<rparr>
      in do {
        t \<leftarrow> electionTimer n1;
        Some (spawn GoHeartbeats (n1\<lparr>electionTimer := Some (snd (timer_stop t))\<rparr>)) })"

section \<open>Proposals\<close>

text \<open>
  \<open>Propose\<close> up to the point where it releases the lock: an error, or the index, the term
  and the channel to wait on.
\<close>

definition Propose :: "byte list \<Rightarrow> RaftNode \<Rightarrow> RaftNode \<times> (u64 \<times> u64 \<times> nat) result" where
  "Propose data n =
     (if state n \<noteq> Leader then (n, Inl (''not leader, try: '' @ leaderID n))
      else
        let entry = \<lparr>le_Index = LastIndex (log n) + 1, le_Term = currentTerm n,
                     le_Type = EntryNormal, le_Data = data\<rparr> in
        (case SaveEntry entry (wal n) of
           (Some err, w) \<Rightarrow> (n\<lparr>wal := w\<rparr>, Inl (''WAL write: '' @ err))
         | (None, w) \<Rightarrow>
             (case Sync w of
                (Some err, w2) \<Rightarrow> (n\<lparr>wal := w2\<rparr>, Inl (''WAL sync: '' @ err))
              | (None, w2) \<Rightarrow>
                  (case Append [entry] (log n) of
                     Inl err \<Rightarrow> (n\<lparr>wal := w2\<rparr>, Inl (''log append: '' @ err))
                   | Inr l \<Rightarrow>
                       (spawn GoHeartbeats
                          (n\<lparr>wal := w2, log := l,
                             proposals := AList.update (le_Index entry) (next_ch n) (proposals n),
                             next_ch := Suc (next_ch n)\<rparr>),
                        Inr (le_Index entry, le_Term entry, next_ch n))))))"

text \<open>What the blocked caller can receive; no element means that it keeps waiting.\<close>

definition Propose_wait :: "nat \<Rightarrow> RaftNode \<Rightarrow> error option list" where
  "Propose_wait ch n =
     map snd (filter (\<lambda>(c, r). c = ch) (results n)) @ (if stopped n then [Some ''node stopped''] else [])"

definition notifyProposal :: "u64 \<Rightarrow> error option \<Rightarrow> RaftNode \<Rightarrow> RaftNode" where
  "notifyProposal index err n =
     (case map_of (proposals n) index of
        None \<Rightarrow> n
      | Some ch \<Rightarrow> n\<lparr>results := results n @ [(ch, err)], proposals := AList.delete index (proposals n)\<rparr>)"

section \<open>Accessors\<close>

definition IsLeader :: "RaftNode \<Rightarrow> bool" where
  "IsLeader n \<longleftrightarrow> state n = Leader"

definition LeaderID :: "RaftNode \<Rightarrow> string" where
  "LeaderID n = leaderID n"

definition Status :: "RaftNode \<Rightarrow> NodeStatus" where
  "Status n =
     \<lparr>ns_ID = node_id n, ns_State = state n, ns_Term = currentTerm n, ns_LeaderID = leaderID n,
      ns_CommitIndex = CommitIndex (log n), ns_LastApplied = LastApplied (log n),
      ns_LogIndex = LastIndex (log n)\<rparr>"

definition GetTimings :: "RaftNode \<Rightarrow> duration \<times> duration" where
  "GetTimings n = (ElectionTimeout (config n), HeartbeatInterval (config n))"

text \<open>\<open>limit\<close> is a Go \<open>int\<close>; the conversion \<open>uint64(limit)\<close> follows the check that it is positive.\<close>

definition LogSnapshot :: "int \<Rightarrow> RaftNode \<Rightarrow> LogEntry list" where
  "LogSnapshot limit n =
     (let end = LastIndex (log n) in
      if end = 0 \<or> limit \<le> 0 then []
      else let from = (if word_of_int limit < end then end - word_of_int limit + 1 else 1) in
        (case GetEntries from (end + 1) (log n) of Inl _ \<Rightarrow> [] | Inr es \<Rightarrow> es))"

section \<open>The main loop\<close>

text \<open>The cases of the \<open>select\<close> in \<open>run\<close>, and the expiry of the timer that feeds one of them.\<close>

definition NewTicker :: "duration \<Rightarrow> duration option" where
  "NewTicker d = (if d \<le> 0 then None else Some d)"

definition run_begin :: "RaftNode \<Rightarrow> RaftNode option" where
  "run_begin n = do {
     d \<leftarrow> NewTicker (HeartbeatInterval (config n));
     Some (n\<lparr>heartbeatTicker := Some d\<rparr>) }"

definition run_heartbeat_tick :: "RaftNode \<Rightarrow> RaftNode" where
  "run_heartbeat_tick n = (if state n = Leader then spawn GoHeartbeats n else n)"

definition timer_fire :: "RaftNode \<Rightarrow> RaftNode" where
  "timer_fire n =
     (case electionTimer n of
        Some t \<Rightarrow> if t_armed t then n\<lparr>electionTimer := Some (t\<lparr>t_armed := False, t_pending := True\<rparr>)\<rparr> else n
      | None \<Rightarrow> n)"

definition run_election_fired :: "env \<Rightarrow> RaftNode \<Rightarrow> RaftNode option" where
  "run_election_fired e n =
     (let n1 = n\<lparr>electionTimer := map_option (\<lambda>t. t\<lparr>t_pending := False\<rparr>) (electionTimer n)\<rparr> in
      if state n1 \<noteq> Leader then Some (spawn (GoCampaign (EnablePreVote (config n1))) n1)
      else resetElectionTimer e n1)"

definition run_timing_update :: "RaftNode \<Rightarrow> RaftNode option" where
  "run_timing_update n =
     (case timingUpdateCh n of
        [] \<Rightarrow> Some n
      | d # ds \<Rightarrow> do {
          d' \<leftarrow> NewTicker d;
          Some (n\<lparr>timingUpdateCh := ds, heartbeatTicker := Some d'\<rparr>) })"

text \<open>
  The channel holds one value: a send that finds it full drains it first, so afterwards it
  holds the newest interval.
\<close>

definition UpdateTimings :: "duration \<Rightarrow> duration \<Rightarrow> RaftNode \<Rightarrow> RaftNode" where
  "UpdateTimings et hb n =
     (let c1 = (if et > 0 then (config n)\<lparr>ElectionTimeout := et\<rparr> else config n);
          newHB = (if hb > 0 then hb else HeartbeatInterval c1);
          c2 = (if hb > 0 then c1\<lparr>HeartbeatInterval := hb\<rparr> else c1)
      in if timingUpdateCh n = [] then n\<lparr>config := c2, timingUpdateCh := [newHB]\<rparr>
         else n\<lparr>config := c2, timingUpdateCh := tl (timingUpdateCh n) @ [newHB]\<rparr>)"

section \<open>Transitions of a started node\<close>

lemma update_member: "q \<in> set (AList.update k v al) \<Longrightarrow> q = (k, v) \<or> q \<in> set al"
  by (induction al) (auto split: if_splits)

definition started :: "RaftNode \<Rightarrow> bool" where
  "started n \<longleftrightarrow> electionTimer n \<noteq> None \<and> 0 < ElectionTimeout (config n)"

definition next_timeout :: "env \<Rightarrow> RaftNode \<Rightarrow> duration" where
  "next_timeout e n = wrap64 (ElectionTimeout (config n) + rnd e mod ElectionTimeout (config n))"

definition rearm :: "env \<Rightarrow> RaftNode \<Rightarrow> RaftNode" where
  "rearm e n = n\<lparr>electionTimeout := next_timeout e n,
     electionTimer := Some \<lparr>t_armed = True, t_duration = next_timeout e n, t_pending = False\<rparr>\<rparr>"

lemma resetElectionTimer_eq: "resetElectionTimer e n = (if started n then Some (rearm e n) else None)"
proof (cases "electionTimer n")
  case (Some t)
  then show ?thesis
    by (cases t) (simp add: resetElectionTimer_def randomElectionTimeout_def Int63n_def timer_stop_def
        started_def rearm_def next_timeout_def)
qed (simp add: resetElectionTimer_def started_def)

lemma rearm_simps [simp]:
  "node_id (rearm e n) = node_id n" "config (rearm e n) = config n" "currentTerm (rearm e n) = currentTerm n"
  "votedFor (rearm e n) = votedFor n" "state (rearm e n) = state n" "leaderID (rearm e n) = leaderID n"
  "log (rearm e n) = log n" "wal (rearm e n) = wal n" "peers (rearm e n) = peers n"
  "proposals (rearm e n) = proposals n" "results (rearm e n) = results n" "stopped (rearm e n) = stopped n"
  "next_ch (rearm e n) = next_ch n" "commitCh (rearm e n) = commitCh n" "tasks (rearm e n) = tasks n"
  by (simp_all add: rearm_def)

lemma started_rearm [simp]: "started n \<Longrightarrow> started (rearm e n)"
  by (simp add: started_def rearm_def)

definition follow :: "env \<Rightarrow> u64 \<Rightarrow> string \<Rightarrow> RaftNode \<Rightarrow> RaftNode" where
  "follow e term leader n =
     (let n2 = n\<lparr>state := Follower, leaderID := leader\<rparr>;
          n3 = (if term > currentTerm n
                then n2\<lparr>currentTerm := term, votedFor := '''', wal := persist_state term '''' (wal n)\<rparr> else n2)
      in rearm e (if leader \<noteq> '''' then n3\<lparr>lastLeaderContactTime := now e\<rparr> else n3))"

lemma becomeFollower_eq: "becomeFollower e term leader n = (if started n then Some (follow e term leader n) else None)"
  by (auto simp: becomeFollower_def follow_def resetElectionTimer_eq Let_def started_def)

lemma follow_simps [simp]:
  "node_id (follow e term leader n) = node_id n" "config (follow e term leader n) = config n"
  "currentTerm (follow e term leader n) = max term (currentTerm n)"
  "votedFor (follow e term leader n) = (if term > currentTerm n then '''' else votedFor n)"
  "state (follow e term leader n) = Follower" "leaderID (follow e term leader n) = leader"
  "log (follow e term leader n) = log n" "peers (follow e term leader n) = peers n"
  "wal (follow e term leader n) = (if term > currentTerm n then persist_state term '''' (wal n) else wal n)"
  "proposals (follow e term leader n) = proposals n" "results (follow e term leader n) = results n"
  "stopped (follow e term leader n) = stopped n" "next_ch (follow e term leader n) = next_ch n"
  "commitCh (follow e term leader n) = commitCh n" "tasks (follow e term leader n) = tasks n"
  by (auto simp: follow_def Let_def max_def)

lemma started_follow [simp]: "started n \<Longrightarrow> started (follow e term leader n)"
  by (auto simp: follow_def Let_def started_def rearm_def)

definition stand :: "env \<Rightarrow> RaftNode \<Rightarrow> RaftNode" where
  "stand e n = rearm e (n\<lparr>state := Candidate, currentTerm := currentTerm n + 1, votedFor := node_id n,
      leaderID := '''', wal := persist_state (currentTerm n + 1) (node_id n) (wal n)\<rparr>)"

lemma becomeCandidate_eq: "becomeCandidate e n = (if started n then Some (stand e n) else None)"
  by (auto simp: becomeCandidate_def stand_def resetElectionTimer_eq Let_def started_def)

lemma stand_simps [simp]:
  "node_id (stand e n) = node_id n" "config (stand e n) = config n" "currentTerm (stand e n) = currentTerm n + 1"
  "votedFor (stand e n) = node_id n" "state (stand e n) = Candidate" "leaderID (stand e n) = ''''"
  "log (stand e n) = log n" "wal (stand e n) = persist_state (currentTerm n + 1) (node_id n) (wal n)"
  "peers (stand e n) = peers n" "proposals (stand e n) = proposals n" "results (stand e n) = results n"
  "stopped (stand e n) = stopped n" "next_ch (stand e n) = next_ch n" "commitCh (stand e n) = commitCh n"
  "tasks (stand e n) = tasks n"
  by (simp_all add: stand_def)

lemma started_stand [simp]: "started n \<Longrightarrow> started (stand e n)"
  by (simp add: stand_def started_def rearm_def)

definition noop_entry :: "RaftNode \<Rightarrow> LogEntry" where
  "noop_entry n = \<lparr>le_Index = LastIndex (log n) + 1, le_Term = currentTerm n, le_Type = EntryNormal, le_Data = []\<rparr>"

definition lead :: "RaftNode \<Rightarrow> RaftNode" where
  "lead n = spawn GoHeartbeats
     (n\<lparr>state := Leader, leaderID := node_id n,
        peers := map (\<lambda>(k, p). (k, reset_peer (LastIndex (log n)) p)) (peers n),
        wal := persist_entries [noop_entry n] (wal n),
        log := (log n)\<lparr>entries := entries (log n) @ [noop_entry n]\<rparr>,
        electionTimer := map_option (snd \<circ> timer_stop) (electionTimer n)\<rparr>)"

lemma becomeLeader_eq: "becomeLeader n = (if electionTimer n = None then None else Some (lead n))"
  by (auto simp: becomeLeader_def lead_def noop_entry_def Let_def Append_def spawn_def)

lemma lead_simps [simp]:
  "node_id (lead n) = node_id n" "config (lead n) = config n" "currentTerm (lead n) = currentTerm n"
  "votedFor (lead n) = votedFor n" "state (lead n) = Leader" "leaderID (lead n) = node_id n"
  "log (lead n) = (log n)\<lparr>entries := entries (log n) @ [noop_entry n]\<rparr>"
  "wal (lead n) = persist_entries [noop_entry n] (wal n)"
  "peers (lead n) = map (\<lambda>(k, p). (k, reset_peer (LastIndex (log n)) p)) (peers n)"
  "stopped (lead n) = stopped n"
  by (simp_all add: lead_def spawn_def)

lemma started_lead [simp]: "started n \<Longrightarrow> started (lead n)"
  by (auto simp: lead_def started_def spawn_def)

lemma spawn_simps [simp]:
  "node_id (spawn t n) = node_id n" "config (spawn t n) = config n" "currentTerm (spawn t n) = currentTerm n"
  "votedFor (spawn t n) = votedFor n" "state (spawn t n) = state n" "leaderID (spawn t n) = leaderID n"
  "log (spawn t n) = log n" "wal (spawn t n) = wal n" "peers (spawn t n) = peers n"
  "electionTimer (spawn t n) = electionTimer n" "proposals (spawn t n) = proposals n"
  "results (spawn t n) = results n" "stopped (spawn t n) = stopped n" "started (spawn t n) = started n"
  by (simp_all add: spawn_def started_def)

section \<open>The contract of a locked region\<close>

definition advances :: "RaftNode \<Rightarrow> RaftNode \<Rightarrow> bool" where
  "advances n n' \<longleftrightarrow>
     node_id n' = node_id n \<and> map fst (peers n') = map fst (peers n) \<and>
     NodeID (config n') = NodeID (config n) \<and> Peers (config n') = Peers (config n) \<and>
     (started n \<longrightarrow> started n') \<and>
     currentTerm n \<le> currentTerm n' \<and>
     (currentTerm n' = currentTerm n \<and> votedFor n \<noteq> '''' \<longrightarrow> votedFor n' = votedFor n) \<and>
     committed_len (log n) \<le> committed_len (log n') \<and>
     take (committed_len (log n)) (entries (log n')) = take (committed_len (log n)) (entries (log n))"

lemma advances_refl [simp]: "advances n n"
  by (simp add: advances_def)

lemma advances_trans:
  assumes "advances n m" and "advances m k"
  shows "advances n k"
proof -
  have len: "committed_len (log n) \<le> committed_len (log m)" "committed_len (log m) \<le> committed_len (log k)"
    and tm: "take (committed_len (log n)) (entries (log m)) = take (committed_len (log n)) (entries (log n))"
    and tk: "take (committed_len (log m)) (entries (log k)) = take (committed_len (log m)) (entries (log m))"
    using assms by (simp_all add: advances_def)
  have "take (committed_len (log n)) (entries (log k)) = take (committed_len (log n)) (take (committed_len (log m)) (entries (log k)))"
    using len by (simp add: min_absorb1)
  also have "\<dots> = take (committed_len (log n)) (entries (log n))"
    using len tm by (simp add: tk min_absorb1)
  finally show ?thesis
    using assms len by (auto simp: advances_def)
qed

lemma committed_len_append: "committed_len (l\<lparr>entries := entries l @ es\<rparr>) \<ge> committed_len l"
  by (simp add: committed_len_def)

lemma take_committed_append:
  "take (committed_len l) (entries (l\<lparr>entries := entries l @ es\<rparr>)) = take (committed_len l) (entries l)"
  by (simp add: committed_len_def)

lemma advances_follow: "advances n (follow e term leader n)"
  by (auto simp: advances_def max_def)

lemma advances_stand: "currentTerm n \<noteq> - 1 \<Longrightarrow> advances n (stand e n)"
  by (auto simp: advances_def less_imp_le [OF u64_less_Suc])

lemma advances_lead: "advances n (lead n)"
  using committed_len_append [of "log n"] take_committed_append [of "log n"]
  by (auto simp: advances_def comp_def case_prod_beta)

lemma advances_Propose: "advances n (fst (Propose data n))"
  using committed_len_append [of "log n"] take_committed_append [of "log n"]
  by (auto simp: Propose_def advances_def Append_def Let_def started_def split: prod.split option.split)

section \<open>Invariants of the node\<close>

definition node_log_ok :: "RaftNode \<Rightarrow> bool" where
  "node_log_ok n \<longleftrightarrow> log_ok (log n) \<and> hd (entries (log n)) = sentinel \<and>
     sorted (map le_Term (entries (log n))) \<and> LastTerm (log n) \<le> currentTerm n"

text \<open>What is on disk is what is in memory.\<close>

definition node_durable :: "RaftNode \<Rightarrow> bool" where
  "node_durable n \<longleftrightarrow> wal_durable (wal n) (currentTerm n, votedFor n, tl (entries (log n)))"

definition id_fits :: "string \<Rightarrow> bool" where
  "id_fits s \<longleftrightarrow> length s < 2 ^ 32 - 13"

lemma rec_ok_RState [simp]: "rec_ok (RState t v) \<longleftrightarrow> id_fits v"
  by (simp add: id_fits_def)

lemma id_fits_Nil [simp]: "id_fits ''''"
  by (simp add: id_fits_def)

declare rec_ok.simps(1) [simp del]

lemma sorted_snoc: "sorted (xs @ [x]) \<longleftrightarrow> sorted xs \<and> (xs \<noteq> [] \<longrightarrow> last xs \<le> x)"
  by (cases xs rule: rev_cases) (auto simp: sorted_append)

lemma log_ok_snoc:
  assumes "log_ok l" and "le_Index e = LastIndex l + 1" and "length (entries l) < 2 ^ 63"
  shows "log_ok (l\<lparr>entries := entries l @ [e]\<rparr>)"
  using log_ok_Append [OF assms(1), of "[e]"] assms by simp

lemma node_log_ok_snoc:
  assumes "node_log_ok n" and "le_Index e = LastIndex (log n) + 1" and "le_Term e = currentTerm n"
    and "length (entries (log n)) < 2 ^ 63" and "log n' = (log n)\<lparr>entries := entries (log n) @ [e]\<rparr>"
    and "currentTerm n' = currentTerm n"
  shows "node_log_ok n'"
  using assms log_ok_snoc [of "log n" e] log_ok_nonempty [of "log n"]
  by (auto simp: node_log_ok_def LastTerm_def sorted_snoc last_map)

lemma node_log_ok_follow [wf_intros]: "node_log_ok n \<Longrightarrow> node_log_ok (follow e term leader n)"
  by (auto simp: node_log_ok_def max_def)

lemma node_log_ok_stand [wf_intros]: "node_log_ok n \<Longrightarrow> currentTerm n \<noteq> - 1 \<Longrightarrow> node_log_ok (stand e n)"
  by (auto simp: node_log_ok_def intro: order_trans less_imp_le [OF u64_less_Suc])

lemma node_log_ok_lead [wf_intros]:
  "node_log_ok n \<Longrightarrow> length (entries (log n)) < 2 ^ 63 \<Longrightarrow> node_log_ok (lead n)"
  by (erule node_log_ok_snoc [where e = "noop_entry n"]) (simp_all add: noop_entry_def)

lemma node_log_ok_Propose [wf_intros]:
  assumes "node_log_ok n" and "length (entries (log n)) < 2 ^ 63"
  shows "node_log_ok (fst (Propose data n))"
proof -
  have same: "node_log_ok (n\<lparr>wal := w\<rparr>)" for w
    using assms(1) by (simp add: node_log_ok_def)
  show ?thesis
    using assms same node_log_ok_snoc [OF assms(1), of
        "\<lparr>le_Index = LastIndex (log n) + 1, le_Term = currentTerm n, le_Type = EntryNormal, le_Data = data\<rparr>"]
    by (auto simp: Propose_def Append_def Let_def split: prod.split option.split)
qed

lemma node_durable_follow [wf_intros]: "node_durable n \<Longrightarrow> node_durable (follow e term leader n)"
  by (auto simp: node_durable_def max_def intro: wal.put_state_holds)

lemma node_durable_stand [wf_intros]: "node_durable n \<Longrightarrow> id_fits (node_id n) \<Longrightarrow> node_durable (stand e n)"
  by (auto simp: node_durable_def intro: wal.put_state_holds)

lemma node_durable_lead [wf_intros]: "node_durable n \<Longrightarrow> entries (log n) \<noteq> [] \<Longrightarrow> node_durable (lead n)"
  using wal.put_entries_holds [of "wal n" "currentTerm n" "votedFor n" "tl (entries (log n))" "[noop_entry n]"]
  by (auto simp: node_durable_def noop_entry_def EntryNormal_def)

lemma wal_durable_SaveEntries:
  assumes "wal_durable w (t, v, es)" and "list_all (rec_ok \<circ> REntry) es'"
  obtains w1 w2 where "SaveEntries es' w = (None, w1)" and "Sync w1 = (None, w2)" and "wal_durable w2 (t, v, es @ es')"
proof -
  from assms(1) obtain rs where "wal_holds w rs" and "replay_all rs = (t, v, es)"
    by (auto simp: wal_durable_def)
  with SaveEntries_Sync [OF this(1) assms(2)] show thesis
    by (auto simp: wal_durable_def replay_all_append foldl_replay_entries
        intro!: that exI [of _ "rs @ map REntry es'"])
qed

lemma wal_durable_TruncateFrom:
  assumes "wal_durable w (t, v, es)"
  obtains w' where "WAL_TruncateFrom i w = Some (None, w')" and "wal_durable w' (t, v, filter (\<lambda>e. le_Index e < i) es)"
proof -
  from assms obtain rs where "wal_holds w rs" and "replay_all rs = (t, v, es)"
    by (auto simp: wal_durable_def)
  with WAL_TruncateFrom_good [OF this, of i] show thesis
    using wal.cut_holds [OF assms, of i] by (auto simp: persist_cut_def intro: that)
qed

lemma Propose_durable:
  assumes "node_durable n" and "node_log_ok n" and "state n = Leader" and "length data < 2 ^ 32 - 22"
  obtains n' where "Propose data n = (n', Inr (LastIndex (log n) + 1, currentTerm n, next_ch n))"
    and "node_durable n'"
    and "entries (log n') = entries (log n) @ [\<lparr>le_Index = LastIndex (log n) + 1, le_Term = currentTerm n,
           le_Type = EntryNormal, le_Data = data\<rparr>]"
    and "map_of (proposals n') (LastIndex (log n) + 1) = Some (next_ch n)"
proof -
  let ?e = "\<lparr>le_Index = LastIndex (log n) + 1, le_Term = currentTerm n, le_Type = EntryNormal, le_Data = data\<rparr>"
  have fits: "list_all (rec_ok \<circ> REntry) [?e]"
    using assms(4) by (simp add: EntryNormal_def)
  obtain w1 w2 where w: "SaveEntries [?e] (wal n) = (None, w1)" "Sync w1 = (None, w2)"
      "wal_durable w2 (currentTerm n, votedFor n, tl (entries (log n)) @ [?e])"
    using wal_durable_SaveEntries [OF assms(1) [unfolded node_durable_def] fits] by blast
  have "entries (log n) \<noteq> []"
    using assms(2) by (simp add: node_log_ok_def log_ok_nonempty)
  then show thesis
    using w assms(3) by (auto simp: Propose_def SaveEntry_def Append_def node_durable_def Let_def update_conv intro: that)
qed

section \<open>Crash and restart\<close>

lemma crash_image_synced: "wal_holds w rs \<Longrightarrow> crash_image w f \<Longrightarrow> f = frames rs"
  by (auto simp: crash_image_def wal_holds_def prefix_def)

lemma restart_durable:
  assumes "node_durable n" and "node_log_ok n" and "crash_image (wal n) f"
  obtains n' where "NewRaftNode cfg True f = Some (Inr n')" and "node_durable n'"
    and "currentTerm n' = currentTerm n" and "votedFor n' = votedFor n" and "state n' = Follower"
    and "entries (log n') = entries (log n)" and "commitIndex (log n') = 0" and "lastApplied (log n') = 0"
proof -
  obtain rs where rs: "wal_holds (wal n) rs" "replay_all rs = (currentTerm n, votedFor n, tl (entries (log n)))"
    using assms(1) by (auto simp: node_durable_def wal_durable_def)
  have f: "f = frames rs"
    using rs(1) assms(3) by (rule crash_image_synced)
  obtain w where w: "Open True f = Inr w" "wal_good w" "w_file w = frames rs" "w_buf w = []" "w_synced w = length (w_file w)"
    by (auto simp: Open_def f wal_good_def)
  have "list_all rec_ok rs"
    using rs(1) by (simp add: wal_holds_def)
  then have read: "ReadAll w = Some ((replay_all rs, None), w\<lparr>w_offset := length (w_file w)\<rparr>)"
    using ReadAll_frames w by blast
  have "wal_holds (w\<lparr>w_offset := length (w_file w)\<rparr>) rs"
    using w \<open>list_all rec_ok rs\<close> by (simp add: wal_holds_def wal_good_def)
  moreover have "entries (log n) = sentinel # tl (entries (log n))"
    using assms(2) by (metis hd_Cons_tl log_ok_nonempty node_log_ok_def)
  ultimately have "\<exists>n'. NewRaftNode cfg True f = Some (Inr n') \<and> node_durable n' \<and> currentTerm n' = currentTerm n \<and>
      votedFor n' = votedFor n \<and> state n' = Follower \<and> entries (log n') = entries (log n) \<and> commitIndex (log n') = 0 \<and>
      lastApplied (log n') = 0"
    using w(1) read rs(2)
    by (auto simp: NewRaftNode_def node_durable_def wal_durable_def NewRaftLog_def Append_def)
  with that show thesis by blast
qed

section \<open>Sample nodes\<close>

definition sample_env :: env where
  "sample_env = \<lparr>now = 0, rnd = 5\<rparr>"

definition sample_cfg :: "string \<Rightarrow> string list \<Rightarrow> Config" where
  "sample_cfg i ps = (DefaultConfig i)\<lparr>Peers := map (\<lambda>p. \<lparr>pc_ID = p, pc_Address = ''''\<rparr>) ps\<rparr>"

text \<open>A node booted on a file that holds the records \<open>rs\<close>.\<close>

definition boot :: "string \<Rightarrow> string list \<Rightarrow> wal_rec list \<Rightarrow> RaftNode option" where
  "boot i ps rs = do {
     r \<leftarrow> NewRaftNode (sample_cfg i ps) True (frames rs);
     (case r of Inl _ \<Rightarrow> None | Inr n \<Rightarrow> Start sample_env n) }"

lemma Start_eq:
  "Start e n = (if 0 < ElectionTimeout (config n) then Some (spawn GoRun (rearm e n)) else None)"
  by (simp add: Start_def randomElectionTimeout_def Int63n_def rearm_def next_timeout_def)

lemma NewRaftNode_replay:
  assumes "list_all rec_ok rs" and "replay_all rs = (t, v, es)"
  obtains m where "NewRaftNode cfg True (frames rs) = Some (Inr m)" and "node_durable m"
    and "node_id m = NodeID cfg" and "currentTerm m = t" and "votedFor m = v" and "state m = Follower" and "leaderID m = ''''"
    and "log m = NewRaftLog\<lparr>entries := sentinel # es\<rparr>" and "config m = cfg" and "peers m = build_peers (Peers cfg) []"
    and "proposals m = []" and "next_ch m = 0" and "commitCh m = []"
proof -
  obtain w where w: "Open True (frames rs) = Inr w" "wal_holds w rs"
    using Open_holds [OF assms(1)] by blast
  then have read: "ReadAll w = Some ((replay_all rs, None), w\<lparr>w_offset := length (w_file w)\<rparr>)"
    by (intro ReadAll_frames) (auto simp: wal_holds_def)
  have "wal_durable (w\<lparr>w_offset := length (w_file w)\<rparr>) (t, v, es)"
    using w(2) assms(2) by (auto simp: wal_durable_def wal_holds_def wal_good_def)
  moreover have "(if es = [] then Inr NewRaftLog else Append es NewRaftLog) = Inr (NewRaftLog\<lparr>entries := sentinel # es\<rparr>)"
    by (auto simp: Append_def NewRaftLog_def)
  ultimately obtain m where "NewRaftNode cfg True (frames rs) = Some (Inr m)" "node_durable m"
      "node_id m = NodeID cfg" "currentTerm m = t" "votedFor m = v" "state m = Follower" "leaderID m = ''''"
      "log m = NewRaftLog\<lparr>entries := sentinel # es\<rparr>" "config m = cfg"
      "peers m = build_peers (Peers cfg) []" "proposals m = []" "next_ch m = 0" "commitCh m = []"
    using w(1) read assms(2) by (simp add: NewRaftNode_def node_durable_def)
  then show thesis
    by (rule that)
qed

lemma boot_eq:
  assumes "list_all rec_ok rs" and "replay_all rs = (t, v, es)"
  obtains n where "boot i ps rs = Some n" and "started n" and "node_durable n" and "node_id n = i"
    and "currentTerm n = t" and "votedFor n = v" and "state n = Follower" and "leaderID n = ''''"
    and "log n = NewRaftLog\<lparr>entries := sentinel # es\<rparr>" and "config n = sample_cfg i ps"
    and "peers n = build_peers (Peers (sample_cfg i ps)) []" and "proposals n = []" and "next_ch n = 0"
    and "commitCh n = []"
proof -
  obtain m where m: "NewRaftNode (sample_cfg i ps) True (frames rs) = Some (Inr m)" "node_durable m"
      "node_id m = NodeID (sample_cfg i ps)" "currentTerm m = t" "votedFor m = v" "state m = Follower" "leaderID m = ''''"
      "log m = NewRaftLog\<lparr>entries := sentinel # es\<rparr>" "config m = sample_cfg i ps"
      "peers m = build_peers (Peers (sample_cfg i ps)) []" "proposals m = []" "next_ch m = 0" "commitCh m = []"
    by (rule NewRaftNode_replay [OF assms])
  have cfg: "NodeID (sample_cfg i ps) = i" "0 < ElectionTimeout (sample_cfg i ps)"
    by (simp_all add: sample_cfg_def DefaultConfig_def Millisecond_def)
  have "boot i ps rs = Some (spawn GoRun (rearm sample_env m))"
    using m(1,9) cfg(2) by (simp add: boot_def Start_eq)
  then show thesis
    using m cfg by (intro that [of "spawn GoRun (rearm sample_env m)"]) (simp_all add: node_durable_def started_def rearm_def spawn_def)
qed

lemma boot_log_ok:
  assumes "list_all rec_ok rs" and "replay_all rs = (t, v, es)" and "contig 1 es" and "length es < 2 ^ 63"
    and "sorted (map le_Term es)" and "es = [] \<or> le_Term (last es) \<le> t" and "boot i ps rs = Some n"
  shows "node_log_ok n"
proof -
  have "log n = NewRaftLog\<lparr>entries := sentinel # es\<rparr>" "currentTerm n = t"
    using boot_eq [OF assms(1,2), of i ps] assms(7) by auto
  then show ?thesis
    using assms(3-6) by (auto simp: node_log_ok_def log_ok_def LastTerm_def NewRaftLog_def sentinel_def)
qed

section \<open>Properties of the node\<close>

text \<open>
  C10. Crash and restart. A node whose file mirrors its state dies and a new process opens what
  is left of the file: it comes back as a follower with the same term, the same vote and the
  same log, and its file mirrors that state again.
\<close>

theorem restart_recovers:
  assumes "node_durable n" and "node_log_ok n" and "crash_image (wal n) f"
  shows "\<exists>n'. NewRaftNode cfg True f = Some (Inr n') \<and> node_durable n' \<and> state n' = Follower \<and>
     currentTerm n' = currentTerm n \<and> votedFor n' = votedFor n \<and> entries (log n') = entries (log n)"
  using restart_durable [OF assms] by metis

theorem restart_recovers_witness:
  "\<exists>n f. boot ''a'' [''b''] [RState 3 ''b'', REntry sample_entry] = Some n \<and> crash_image (wal n) f \<and>
     (\<exists>n'. NewRaftNode (sample_cfg ''a'' [''b'']) True f = Some (Inr n') \<and> node_durable n' \<and> state n' = Follower \<and>
        currentTerm n' = currentTerm n \<and> votedFor n' = votedFor n \<and> entries (log n') = entries (log n))"
proof -
  let ?rs = "[RState 3 ''b'', REntry sample_entry]"
  have rs: "list_all rec_ok ?rs" "replay_all ?rs = (3, ''b'', [sample_entry])"
    by (simp_all add: id_fits_def sample_entry_def EntryNormal_def replay_all_def)
  obtain n where n: "boot ''a'' [''b''] ?rs = Some n" "node_durable n"
    using boot_eq [OF rs] by metis
  have ok: "node_log_ok n"
    by (rule boot_log_ok [OF rs _ _ _ _ n(1)]) (simp_all add: sample_entry_def word_le_nat_alt)
  have crash: "crash_image (wal n) (w_file (wal n))"
    using n(2) by (auto simp: crash_image_def node_durable_def wal_durable_def wal_holds_def)
  show ?thesis
    using n(1) crash restart_recovers [OF n(2) ok crash] by blast
qed

text \<open>
  A leader that accepts a proposal returns the next index and its term, has the entry at
  the end of its log and on disk, and has registered the caller's channel under that index;
  a node that is not leader refuses and changes nothing.
\<close>

theorem propose_outcome:
  assumes "node_durable n" and "node_log_ok n" and "length data < 2 ^ 32 - 22"
  shows "if state n = Leader
    then \<exists>n'. Propose data n = (n', Inr (LastIndex (log n) + 1, currentTerm n, next_ch n)) \<and> node_durable n' \<and>
       entries (log n') = entries (log n) @ [\<lparr>le_Index = LastIndex (log n) + 1, le_Term = currentTerm n,
          le_Type = EntryNormal, le_Data = data\<rparr>] \<and> map_of (proposals n') (LastIndex (log n) + 1) = Some (next_ch n)
    else Propose data n = (n, Inl (''not leader, try: '' @ leaderID n))"
proof (cases "state n = Leader")
  case True
  with Propose_durable [OF assms(1,2) True assms(3)] show ?thesis
    by metis
qed (simp add: Propose_def)

lemma sample_leader:
  obtains n where "node_durable n" and "node_log_ok n" and "state n = Leader" and "started n" and "next_ch n = 0"
    and "currentTerm n = 3" and "node_id n = ''a''" and "LastIndex (log n) = 2"
    and "peers n = map (\<lambda>k. (k, \<lparr>p_ID = k, NextIndex = 2, MatchIndex = 0\<rparr>)) [''b'', ''c'']"
    and "log n = \<lparr>entries = [sentinel, sample_entry, \<lparr>le_Index = 2, le_Term = 3, le_Type = EntryNormal, le_Data = []\<rparr>],
           commitIndex = 0, lastApplied = 0\<rparr>"
    and "votedFor n = ''a''" and "config n = sample_cfg ''a'' [''b'', ''c'']"
proof -
  let ?rs = "[RState 3 ''a'', REntry sample_entry]"
  have rs: "list_all rec_ok ?rs" "replay_all ?rs = (3, ''a'', [sample_entry])"
    by (simp_all add: id_fits_def sample_entry_def EntryNormal_def replay_all_def)
  obtain n where n: "boot ''a'' [''b'', ''c''] ?rs = Some n" "node_durable n" "started n" "currentTerm n = 3" "node_id n = ''a''"
      "log n = NewRaftLog\<lparr>entries := [sentinel, sample_entry]\<rparr>"
      "peers n = build_peers (Peers (sample_cfg ''a'' [''b'', ''c''])) []" "next_ch n = 0" "votedFor n = ''a''"
      "config n = sample_cfg ''a'' [''b'', ''c'']"
    using boot_eq [OF rs] by metis
  have ok: "node_log_ok n"
    by (rule boot_log_ok [OF rs _ _ _ _ n(1)]) (simp_all add: sample_entry_def word_le_nat_alt)
  have "entries (log n) = [sentinel, sample_entry]"
    by (simp add: n(6))
  then have "node_durable (lead n)" "node_log_ok (lead n)" "LastIndex (log (lead n)) = 2"
    using node_durable_lead [OF n(2)] node_log_ok_lead [OF ok]
    by (auto simp: LastIndex_def noop_entry_def sample_entry_def)
  moreover have "peers (lead n) = map (\<lambda>k. (k, \<lparr>p_ID = k, NextIndex = 2, MatchIndex = 0\<rparr>)) [''b'', ''c'']"
    by (simp add: n(6,7) sample_cfg_def reset_peer_def LastIndex_def sample_entry_def)
  moreover have "next_ch (lead n) = 0"
    by (simp add: lead_def spawn_def n(8))
  moreover have "log (lead n) = \<lparr>entries = [sentinel, sample_entry, \<lparr>le_Index = 2, le_Term = 3, le_Type = EntryNormal, le_Data = []\<rparr>],
      commitIndex = 0, lastApplied = 0\<rparr>"
    by (simp add: n(4,6) noop_entry_def LastIndex_def NewRaftLog_def sample_entry_def)
  ultimately show thesis
    using n(3-5,9,10) by (intro that [of "lead n"]) auto
qed

theorem propose_outcome_witness:
  "\<exists>n. state n = Leader \<and> currentTerm n = 3 \<and> LastIndex (log n) = 2 \<and>
     (\<exists>n'. Propose [1, 2] n = (n', Inr (LastIndex (log n) + 1, currentTerm n, next_ch n)) \<and> node_durable n' \<and>
       entries (log n') = entries (log n) @ [\<lparr>le_Index = LastIndex (log n) + 1, le_Term = currentTerm n,
          le_Type = EntryNormal, le_Data = [1, 2]\<rparr>])"
proof -
  obtain n where n: "node_durable n" "node_log_ok n" "state n = Leader" "currentTerm n = 3" "LastIndex (log n) = 2"
    using sample_leader by metis
  have "length [1, 2 :: byte] < 2 ^ 32 - 22" by simp
  from propose_outcome [OF n(1,2) this] n show ?thesis
    by auto
qed

text \<open>
  The election timeout drawn by a reset lies between the configured timeout and twice that
  value, and the timer is running with exactly that duration and no stale expiry.
\<close>

theorem election_timeout_range:
  assumes "resetElectionTimer e n = Some n'" and "ElectionTimeout (config n) < 2 ^ 62"
  shows "ElectionTimeout (config n) \<le> electionTimeout n' \<and> electionTimeout n' < 2 * ElectionTimeout (config n) \<and>
     electionTimer n' = Some \<lparr>t_armed = True, t_duration = electionTimeout n', t_pending = False\<rparr>"
proof -
  let ?T = "ElectionTimeout (config n)"
  have "0 < ?T" and n': "n' = rearm e n"
    using assms(1) by (auto simp: resetElectionTimer_eq started_def split: if_splits)
  then have "0 \<le> rnd e mod ?T" "rnd e mod ?T < ?T"
    by simp_all
  then have "wrap64 (?T + rnd e mod ?T) = ?T + rnd e mod ?T"
    using assms(2) by (intro wrap64_id) auto
  then show ?thesis
    using \<open>0 \<le> rnd e mod ?T\<close> \<open>rnd e mod ?T < ?T\<close> by (simp add: n' rearm_def next_timeout_def)
qed

theorem election_timeout_range_witness:
  "\<exists>n n'. resetElectionTimer sample_env n = Some n' \<and> ElectionTimeout (config n) \<le> electionTimeout n' \<and>
     electionTimeout n' < 2 * ElectionTimeout (config n)"
proof -
  obtain n where n: "started n" "config n = sample_cfg ''a'' []"
    using boot_eq [of "[]" 0 "''''" "[]" "''a''" "[]"] by (auto simp: replay_all_def)
  then have "resetElectionTimer sample_env n = Some (rearm sample_env n)"
    by (simp add: resetElectionTimer_eq)
  moreover have "ElectionTimeout (config n) < 2 ^ 62"
    by (simp add: n(2) sample_cfg_def DefaultConfig_def Millisecond_def)
  ultimately show ?thesis
    using election_timeout_range by blast
qed

end
