(* ===== verification/Raft_Election.thy ===== *)
theory Raft_Election
  imports Raft_Node
begin

text \<open>
  Leader election, \<open>src/raft/election.go\<close>. \<open>handleRequestVote\<close> and \<open>handlePreVote\<close> are
  single locked regions. \<open>campaign\<close> releases the lock while it collects votes, so it is a
  small machine: \<open>campaign_start\<close> is the code up to the first unlock, \<open>campaign_recv\<close>
  one turn of the tally loop, \<open>campaign_won\<close> and \<open>campaign_lost\<close> the regions after it;
  between two of them other goroutines may change the node.
\<close>

section \<open>Log comparison and quorum\<close>

definition logIsUpToDate :: "u64 \<Rightarrow> u64 \<Rightarrow> u64 \<Rightarrow> u64 \<Rightarrow> bool" where
  "logIsUpToDate candidateLastTerm candidateLastIndex myLastTerm myLastIndex =
     (if candidateLastTerm \<noteq> myLastTerm then candidateLastTerm > myLastTerm
      else candidateLastIndex \<ge> myLastIndex)"

definition isLogUpToDate :: "u64 \<Rightarrow> u64 \<Rightarrow> RaftNode \<Rightarrow> bool" where
  "isLogUpToDate candidateLastTerm candidateLastIndex n =
     (let myLastTerm = LastTerm (log n); myLastIndex = LastIndex (log n) in
      if candidateLastTerm \<noteq> myLastTerm then candidateLastTerm > myLastTerm
      else candidateLastIndex \<ge> myLastIndex)"

definition quorum :: "RaftNode \<Rightarrow> nat" where
  "quorum n = (length (peers n) + 1) div 2 + 1"

section \<open>Handlers\<close>

definition vote_reply :: "bool \<Rightarrow> RaftNode \<Rightarrow> VoteResponse" where
  "vote_reply granted n = \<lparr>vr_Term = currentTerm n, vr_VoteGranted = granted\<rparr>"

definition handleRequestVote :: "env \<Rightarrow> VoteRequest \<Rightarrow> RaftNode \<Rightarrow> (RaftNode \<times> VoteResponse) option" where
  "handleRequestVote e req n = do {
     n1 \<leftarrow> (if vq_Term req > currentTerm n then becomeFollower e (currentTerm n) '''' n else Some n);
     if vq_Term req < currentTerm n1 then Some (n1, vote_reply False n1)
     else if votedFor n1 \<noteq> '''' \<and> votedFor n1 \<noteq> vq_CandidateID req then Some (n1, vote_reply False n1)
     else if \<not> isLogUpToDate (vq_LastLogTerm req) (vq_LastLogIndex req) n1 then Some (n1, vote_reply False n1)
     else do {
       let n2 = n1\<lparr>votedFor := vq_CandidateID req\<rparr>;
       let n3 = n2\<lparr>wal := persist_state (currentTerm n2) (votedFor n2) (wal n2)\<rparr>;
       n4 \<leftarrow> resetElectionTimer e n3;
       Some (n4, vote_reply True n4) } }"

definition handlePreVote :: "VoteRequest \<Rightarrow> RaftNode \<Rightarrow> RaftNode \<times> VoteResponse" where
  "handlePreVote req n =
     (if vq_Term req < currentTerm n then (n, vote_reply False n)
      else if leaderID n \<noteq> '''' then (n, vote_reply False n)
      else if \<not> isLogUpToDate (vq_LastLogTerm req) (vq_LastLogIndex req) n then (n, vote_reply False n)
      else (n, vote_reply True n))"

section \<open>Campaigns\<close>

record campaign =
  cp_preVote :: bool
  cp_term :: u64
  cp_lastLogIndex :: u64
  cp_lastLogTerm :: u64
  cp_peers :: "string list"
  cp_votes :: nat
  cp_needed :: nat
  cp_left :: nat

datatype campaign_next = CampStop | CampWait campaign | CampWon campaign | CampLost campaign

text \<open>
  The local variables after the first region; \<open>cp_left\<close> counts the responses the loop has
  still to receive. A cluster of one has nobody to ask and has won.
\<close>

definition campaign_start :: "env \<Rightarrow> bool \<Rightarrow> RaftNode \<Rightarrow> (RaftNode \<times> campaign_next) option" where
  "campaign_start e preVote n =
     (if state n = Leader then Some (n, CampStop)
      else do {
        (n1, campaignTerm) \<leftarrow>
          (if preVote then Some (n\<lparr>state := PreCandidate\<rparr>, currentTerm n + 1)
           else do { m \<leftarrow> becomeCandidate e n; Some (m, currentTerm m) });
        let c = \<lparr>cp_preVote = preVote, cp_term = campaignTerm, cp_lastLogIndex = LastIndex (log n1),
                 cp_lastLogTerm = LastTerm (log n1), cp_peers = map fst (peers n1), cp_votes = 1,
                 cp_needed = quorum n1, cp_left = length (peers n1)\<rparr>;
        Some (n1, if peers n1 = [] then CampWon c else CampWait c) })"

definition campaign_request :: "RaftNode \<Rightarrow> campaign \<Rightarrow> VoteRequest" where
  "campaign_request n c =
     \<lparr>vq_Term = cp_term c, vq_CandidateID = node_id n, vq_LastLogIndex = cp_lastLogIndex c,
      vq_LastLogTerm = cp_lastLogTerm c, vq_PreVote = cp_preVote c\<rparr>"

text \<open>A transport error counts as this response.\<close>

definition no_response :: VoteResponse where
  "no_response = \<lparr>vr_Term = 0, vr_VoteGranted = False\<rparr>"

definition campaign_recv :: "env \<Rightarrow> campaign \<Rightarrow> VoteResponse \<Rightarrow> RaftNode \<Rightarrow> (RaftNode \<times> campaign_next) option" where
  "campaign_recv e c resp n =
     (if cp_preVote c \<and> state n \<noteq> PreCandidate then Some (n, CampStop)
      else if \<not> cp_preVote c \<and> (state n \<noteq> Candidate \<or> currentTerm n \<noteq> cp_term c) then Some (n, CampStop)
      else if vr_Term resp > currentTerm n then do {
        m \<leftarrow> becomeFollower e (vr_Term resp) '''' n;
        Some (m, CampStop) }
      else
        let votes = (if vr_VoteGranted resp then cp_votes c + 1 else cp_votes c);
            c' = c\<lparr>cp_votes := votes, cp_left := cp_left c - 1\<rparr> in
        Some (n, if votes \<ge> cp_needed c then CampWon c'
                 else if cp_left c' = 0 then CampLost c' else CampWait c'))"

text \<open>The lock was released between the last tally and this region; nothing is checked again.\<close>

definition campaign_won :: "env \<Rightarrow> campaign \<Rightarrow> RaftNode \<Rightarrow> (RaftNode \<times> campaign_next) option" where
  "campaign_won e c n =
     (if cp_preVote c then campaign_start e False n
      else do { m \<leftarrow> becomeLeader n; Some (m, CampStop) })"

definition campaign_lost :: "env \<Rightarrow> RaftNode \<Rightarrow> RaftNode option" where
  "campaign_lost e n =
     (if state n = Candidate \<or> state n = PreCandidate then becomeFollower e (currentTerm n) '''' n
      else Some n)"

text \<open>The loop when no other goroutine interferes, given the responses in order of arrival.\<close>

fun tally :: "env \<Rightarrow> campaign \<Rightarrow> VoteResponse list \<Rightarrow> RaftNode \<Rightarrow> (RaftNode \<times> campaign_next) option" where
  "tally e c [] n = Some (n, CampWait c)"
| "tally e c (r # rs) n = do {
     (m, next) \<leftarrow> campaign_recv e c r n;
     (case next of CampWait c' \<Rightarrow> tally e c' rs m | _ \<Rightarrow> Some (m, next)) }"

section \<open>Equivalence and order of log comparison\<close>

lemma isLogUpToDate_eq:
  "isLogUpToDate t i n = logIsUpToDate t i (LastTerm (log n)) (LastIndex (log n))"
  by (simp add: isLogUpToDate_def logIsUpToDate_def)

lemma logIsUpToDate_lex:
  "logIsUpToDate t i t' i' \<longleftrightarrow> t' < t \<or> t' = t \<and> i' \<le> i"
  by (auto simp: logIsUpToDate_def)

lemma logIsUpToDate_refl: "logIsUpToDate t i t i"
  by (simp add: logIsUpToDate_lex)

lemma logIsUpToDate_trans:
  "logIsUpToDate t1 i1 t2 i2 \<Longrightarrow> logIsUpToDate t2 i2 t3 i3 \<Longrightarrow> logIsUpToDate t1 i1 t3 i3"
  by (auto simp: logIsUpToDate_lex)

lemma logIsUpToDate_total: "logIsUpToDate t i t' i' \<or> logIsUpToDate t' i' t i"
  by (auto simp: logIsUpToDate_lex)

section \<open>What the vote handler does\<close>

definition may_vote :: "VoteRequest \<Rightarrow> RaftNode \<Rightarrow> bool" where
  "may_vote req n \<longleftrightarrow> currentTerm n \<le> vq_Term req \<and> (votedFor n = '''' \<or> votedFor n = vq_CandidateID req)
     \<and> logIsUpToDate (vq_LastLogTerm req) (vq_LastLogIndex req) (LastTerm (log n)) (LastIndex (log n))"

definition cast_vote :: "env \<Rightarrow> string \<Rightarrow> RaftNode \<Rightarrow> RaftNode" where
  "cast_vote e cand n = rearm e (n\<lparr>votedFor := cand, wal := persist_state (currentTerm n) cand (wal n)\<rparr>)"

lemma cast_vote_simps [simp]:
  "node_id (cast_vote e cand n) = node_id n" "config (cast_vote e cand n) = config n"
  "currentTerm (cast_vote e cand n) = currentTerm n" "votedFor (cast_vote e cand n) = cand"
  "state (cast_vote e cand n) = state n" "leaderID (cast_vote e cand n) = leaderID n"
  "log (cast_vote e cand n) = log n" "peers (cast_vote e cand n) = peers n"
  "wal (cast_vote e cand n) = persist_state (currentTerm n) cand (wal n)" "stopped (cast_vote e cand n) = stopped n"
  "results (cast_vote e cand n) = results n" "proposals (cast_vote e cand n) = proposals n"
  by (simp_all add: cast_vote_def)

lemma started_cast_vote [simp]: "started n \<Longrightarrow> started (cast_vote e cand n)"
  by (simp add: cast_vote_def started_def rearm_def)

text \<open>The handler on a started node, in closed form: an optional step down, then the vote.\<close>

lemma handleRequestVote_started:
  assumes "started n"
  shows "handleRequestVote e req n =
     (let m = (if vq_Term req > currentTerm n then follow e (currentTerm n) '''' n else n) in
      if may_vote req n then Some (cast_vote e (vq_CandidateID req) m, vote_reply True m)
      else Some (m, vote_reply False m))"
proof -
  let ?m = "if vq_Term req > currentTerm n then follow e (currentTerm n) '''' n else n"
  have m: "started ?m" "currentTerm ?m = currentTerm n" "votedFor ?m = votedFor n" "log ?m = log n"
    using assms by auto
  have "handleRequestVote e req n = do {
     n1 \<leftarrow> Some ?m;
     if vq_Term req < currentTerm n1 then Some (n1, vote_reply False n1)
     else if votedFor n1 \<noteq> '''' \<and> votedFor n1 \<noteq> vq_CandidateID req then Some (n1, vote_reply False n1)
     else if \<not> isLogUpToDate (vq_LastLogTerm req) (vq_LastLogIndex req) n1 then Some (n1, vote_reply False n1)
     else do {
       n4 \<leftarrow> resetElectionTimer e (n1\<lparr>votedFor := vq_CandidateID req,
                wal := persist_state (currentTerm n1) (vq_CandidateID req) (wal n1)\<rparr>);
       Some (n4, vote_reply True n4) } }"
    using assms by (simp add: handleRequestVote_def becomeFollower_eq Let_def)
  also have "\<dots> = (if may_vote req n then Some (cast_vote e (vq_CandidateID req) ?m, vote_reply True ?m)
      else Some (?m, vote_reply False ?m))"
    using m by (auto simp: may_vote_def isLogUpToDate_eq resetElectionTimer_eq started_def cast_vote_def vote_reply_def)
  finally show ?thesis
    by (simp add: Let_def)
qed

lemma handleRequestVote_panic: "handleRequestVote e req n = Some r \<Longrightarrow> started n \<or> \<not> may_vote req n"
  by (auto simp: handleRequestVote_def becomeFollower_eq resetElectionTimer_eq may_vote_def isLogUpToDate_eq started_def
      bind_eq_Some_conv Let_def split: if_splits)

lemma handleRequestVote_keeps:
  assumes "handleRequestVote e req n = Some (n', r)"
  shows "currentTerm n' = currentTerm n" and "log n' = log n" and "peers n' = peers n" and "node_id n' = node_id n"
    and "vr_Term r = currentTerm n" and "config n' = config n" and "started n \<longrightarrow> started n'"
  using assms
  by (auto simp: handleRequestVote_def becomeFollower_eq resetElectionTimer_eq vote_reply_def
      bind_eq_Some_conv Let_def split: if_splits)

lemma handleRequestVote_granted:
  assumes "handleRequestVote e req n = Some (n', r)"
  shows "vr_VoteGranted r \<longleftrightarrow> may_vote req n"
    and "vr_VoteGranted r \<Longrightarrow> votedFor n' = vq_CandidateID req"
    and "\<not> vr_VoteGranted r \<Longrightarrow> votedFor n' = votedFor n \<and> wal n' = wal n"
  using assms
  by (auto simp: handleRequestVote_def becomeFollower_eq resetElectionTimer_eq vote_reply_def may_vote_def
      isLogUpToDate_eq bind_eq_Some_conv Let_def split: if_splits)

lemma advances_handleRequestVote:
  assumes "handleRequestVote e req n = Some (n', r)"
  shows "advances n n'"
proof -
  have "votedFor n \<noteq> '''' \<Longrightarrow> votedFor n' = votedFor n"
    using handleRequestVote_granted [OF assms] by (cases "vr_VoteGranted r") (auto simp: may_vote_def)
  then show ?thesis
    using handleRequestVote_keeps [OF assms] by (simp add: advances_def)
qed

lemma node_log_ok_handleRequestVote [wf_intros]:
  "handleRequestVote e req n = Some (n', r) \<Longrightarrow> node_log_ok n \<Longrightarrow> node_log_ok n'"
  by (simp add: node_log_ok_def handleRequestVote_keeps)

lemma node_durable_handleRequestVote [wf_intros]:
  assumes "handleRequestVote e req n = Some (n', r)" and "started n" and "node_durable n" and "id_fits (vq_CandidateID req)"
  shows "node_durable n'"
proof -
  have "wal_durable (persist_state (currentTerm n) (vq_CandidateID req) (wal n))
      (currentTerm n, vq_CandidateID req, tl (entries (log n)))"
    using assms(3,4) by (auto simp: node_durable_def intro: wal.put_state_holds)
  then show ?thesis
    using assms(1,3) by (auto simp: handleRequestVote_started [OF assms(2)] node_durable_def Let_def split: if_splits)
qed

section \<open>Quorums\<close>

text \<open>Families of sets of which any two members meet.\<close>

locale quorum_system =
  fixes universe :: "'a set" and is_quorum :: "'a set \<Rightarrow> bool"
  assumes fin: "finite universe"
    and quorum_sub: "is_quorum Q \<Longrightarrow> Q \<subseteq> universe"
    and quorum_card: "is_quorum Q \<Longrightarrow> card universe < 2 * card Q"
begin

lemma quorums_meet:
  assumes "is_quorum Q" and "is_quorum R"
  shows "\<exists>x. x \<in> Q \<and> x \<in> R"
proof (rule ccontr)
  assume "\<nexists>x. x \<in> Q \<and> x \<in> R"
  then have "Q \<inter> R = {}" by blast
  then have "card (Q \<union> R) = card Q + card R"
    using assms by (intro card_Un_disjoint finite_subset [OF quorum_sub fin]) auto
  moreover have "card (Q \<union> R) \<le> card universe"
    using assms quorum_sub fin by (intro card_mono) auto
  ultimately show False
    using quorum_card [OF assms(1)] quorum_card [OF assms(2)] by linarith
qed

lemma quorum_nonempty: "is_quorum Q \<Longrightarrow> Q \<noteq> {}"
  using quorums_meet by blast

end

definition cluster_ids :: "RaftNode \<Rightarrow> string set" where
  "cluster_ids n = insert (node_id n) (fst ` set (peers n))"

definition peers_ok :: "RaftNode \<Rightarrow> bool" where
  "peers_ok n \<longleftrightarrow> distinct (map fst (peers n)) \<and> node_id n \<notin> fst ` set (peers n)"

definition node_quorum :: "RaftNode \<Rightarrow> string set \<Rightarrow> bool" where
  "node_quorum n Q \<longleftrightarrow> peers_ok n \<and> Q \<subseteq> cluster_ids n \<and> quorum n \<le> card Q"

lemma quorum_bounds: "length (peers n) + 1 < 2 * quorum n" "quorum n \<le> length (peers n) + 1 \<or> peers n = []" "1 \<le> quorum n"
  by (auto simp: quorum_def)

lemma quorum_le: "quorum n \<le> length (peers n) + 1"
  by (cases "peers n") (auto simp: quorum_def)

lemma card_cluster_ids: "peers_ok n \<Longrightarrow> card (cluster_ids n) = length (peers n) + 1"
  by (simp add: peers_ok_def cluster_ids_def distinct_card [of "map fst (peers n)", simplified])

interpretation node_q: quorum_system "cluster_ids n" "node_quorum n" for n
  using quorum_bounds(1) [of n]
  by unfold_locales (auto simp: node_quorum_def card_cluster_ids, simp add: cluster_ids_def)

section \<open>Campaigns\<close>

lemma campaign_start_prevote:
  "state n \<noteq> Leader \<Longrightarrow> \<exists>next. campaign_start e True n = Some (n\<lparr>state := PreCandidate\<rparr>, next)"
  by (simp add: campaign_start_def Let_def)

lemma campaign_start_real:
  "state n \<noteq> Leader \<Longrightarrow> started n \<Longrightarrow> \<exists>next. campaign_start e False n = Some (stand e n, next)"
  by (simp add: campaign_start_def Let_def becomeCandidate_eq)

lemma advances_campaign_start:
  "campaign_start e pv n = Some (n', next) \<Longrightarrow> currentTerm n \<noteq> - 1 \<Longrightarrow> advances n n'"
  by (auto simp: campaign_start_def Let_def becomeCandidate_eq bind_eq_Some_conv advances_stand
      advances_def [of n "n\<lparr>state := PreCandidate\<rparr>"] started_def split: if_splits)

lemma advances_campaign_recv: "campaign_recv e c resp n = Some (n', next) \<Longrightarrow> advances n n'"
  by (auto simp: campaign_recv_def Let_def becomeFollower_eq bind_eq_Some_conv advances_follow split: if_splits)

lemma advances_campaign_won:
  "campaign_won e c n = Some (n', next) \<Longrightarrow> currentTerm n \<noteq> - 1 \<Longrightarrow> advances n n'"
  by (auto simp: campaign_won_def becomeLeader_eq bind_eq_Some_conv advances_lead advances_campaign_start split: if_splits)

lemma advances_campaign_lost: "campaign_lost e n = Some n' \<Longrightarrow> advances n n'"
  by (auto simp: campaign_lost_def becomeFollower_eq advances_follow split: if_splits)

text \<open>Counting the granted votes of a list of responses.\<close>

definition grants :: "VoteResponse list \<Rightarrow> nat" where
  "grants rs = length (filter vr_VoteGranted rs)"

lemma tally_undisturbed:
  assumes "\<not> cp_preVote c" and "state n = Candidate" and "currentTerm n = cp_term c"
    and "\<forall>r \<in> set rs. vr_Term r \<le> currentTerm n"
    and "cp_left c = length rs" and "cp_votes c < cp_needed c" and "rs \<noteq> []"
  shows "\<exists>c'. tally e c rs n = Some (n, if cp_votes c + grants rs \<ge> cp_needed c then CampWon c' else CampLost c')"
  using assms
proof (induction rs arbitrary: c)
  case (Cons r rs)
  let ?c = "c\<lparr>cp_votes := (if vr_VoteGranted r then cp_votes c + 1 else cp_votes c), cp_left := cp_left c - 1\<rparr>"
  have recv: "campaign_recv e c r n = Some (n, if cp_votes ?c \<ge> cp_needed c then CampWon ?c
        else if cp_left ?c = 0 then CampLost ?c else CampWait ?c)"
  proof -
    have "\<not> cp_term c < vr_Term r"
      using Cons.prems by (simp add: not_less)
    then show ?thesis
      using Cons.prems by (simp add: campaign_recv_def Let_def)
  qed
  show ?case
  proof (cases "cp_votes ?c \<ge> cp_needed c \<or> rs = []")
    case True
    then show ?thesis
      using recv Cons.prems by (auto simp: grants_def)
  next
    case False
    then have "\<exists>c'. tally e ?c rs n = Some (n, if cp_votes ?c + grants rs \<ge> cp_needed ?c then CampWon c' else CampLost c')"
      using Cons.prems by (intro Cons.IH) auto
    then show ?thesis
      using recv False Cons.prems by (auto simp: grants_def split: if_splits)
  qed
qed simp

section \<open>Properties of elections\<close>


definition sample_vote_request :: "u64 \<Rightarrow> string \<Rightarrow> VoteRequest" where
  "sample_vote_request t cand = \<lparr>vq_Term = t, vq_CandidateID = cand, vq_LastLogIndex = 2, vq_LastLogTerm = 1, vq_PreVote = False\<rparr>"

lemma sample_voter:
  obtains n where "boot ''c'' [''a'', ''b''] [] = Some n" and "started n" and "node_durable n" and "node_log_ok n"
    and "currentTerm n = 0" and "votedFor n = ''''" and "log n = NewRaftLog" and "node_id n = ''c''" and "leaderID n = ''''"
    and "config n = sample_cfg ''c'' [''a'', ''b'']" and "peers n = build_peers (Peers (sample_cfg ''c'' [''a'', ''b''])) []"
proof -
  have rs: "list_all rec_ok []" "replay_all [] = (0, '''', [])"
    by (simp_all add: replay_all_def)
  obtain n where n: "boot ''c'' [''a'', ''b''] [] = Some n" "started n" "node_durable n" "currentTerm n = 0" "votedFor n = ''''"
      "log n = NewRaftLog\<lparr>entries := [sentinel]\<rparr>" "node_id n = ''c''" "leaderID n = ''''"
      "config n = sample_cfg ''c'' [''a'', ''b'']" "peers n = build_peers (Peers (sample_cfg ''c'' [''a'', ''b''])) []"
    using boot_eq [OF rs] by metis
  moreover have "node_log_ok n"
    by (rule boot_log_ok [OF rs _ _ _ _ n(1)]) simp_all
  ultimately show thesis
    by (intro that) (auto simp: NewRaftLog_def)
qed


text \<open>
  A granted vote survives a crash: whatever is left of the file when the voter dies right
  after granting, the node that is built from it has the same term and the granted vote.
\<close>

theorem granted_vote_durable:
  assumes "handleRequestVote e req n = Some (n', r)" and "vr_VoteGranted r" and "started n" and "node_durable n"
    and "node_log_ok n" and "id_fits (vq_CandidateID req)" and "crash_image (wal n') f"
  shows "\<exists>m. NewRaftNode cfg True f = Some (Inr m) \<and> votedFor m = vq_CandidateID req \<and> currentTerm m = currentTerm n"
proof -
  have "node_durable n'" "node_log_ok n'"
    using node_durable_handleRequestVote [OF assms(1,3,4,6)] node_log_ok_handleRequestVote [OF assms(1,5)] by blast+
  from restart_durable [OF this assms(7), of cfg] show ?thesis
    using handleRequestVote_granted(2) [OF assms(1)] handleRequestVote_keeps(1) [OF assms(1)] assms(2) by metis
qed

lemma sample_grant:
  obtains n n' r where "started n" and "node_durable n" and "node_log_ok n" and "currentTerm n = 0"
    and "handleRequestVote sample_env (sample_vote_request t ''a'') n = Some (n', r)" and "vr_VoteGranted r"
proof -
  obtain n where n: "started n" "node_durable n" "node_log_ok n" "currentTerm n = 0" "votedFor n = ''''" "log n = NewRaftLog"
    using sample_voter by metis
  have may: "may_vote (sample_vote_request t ''a'') n"
    using n by (simp add: may_vote_def sample_vote_request_def logIsUpToDate_def NewRaftLog_def LastTerm_def LastIndex_def sentinel_def)
  obtain n' r where "handleRequestVote sample_env (sample_vote_request t ''a'') n = Some (n', r)" "vr_VoteGranted r"
    using may by (simp add: handleRequestVote_started [OF n(1)] vote_reply_def Let_def)
  with n show thesis by (intro that)
qed

theorem granted_vote_durable_witness:
  "\<exists>n n' r f m. handleRequestVote sample_env (sample_vote_request 0 ''a'') n = Some (n', r) \<and> vr_VoteGranted r \<and>
     crash_image (wal n') f \<and> NewRaftNode (sample_cfg ''c'' []) True f = Some (Inr m) \<and>
     votedFor m = vq_CandidateID (sample_vote_request 0 ''a'')"
proof -
  obtain n n' r where n: "started n" "node_durable n" "node_log_ok n"
      and run: "handleRequestVote sample_env (sample_vote_request 0 ''a'') n = Some (n', r)" "vr_VoteGranted r"
    using sample_grant by metis
  have fits: "id_fits (vq_CandidateID (sample_vote_request 0 ''a''))"
    by (simp add: sample_vote_request_def id_fits_def)
  have "node_durable n'"
    using node_durable_handleRequestVote [OF run(1) n(1,2) fits] .
  then have crash: "crash_image (wal n') (w_file (wal n'))"
    by (auto simp: crash_image_def node_durable_def wal_durable_def wal_holds_def)
  show ?thesis
    using granted_vote_durable [OF run n fits crash, of "sample_cfg ''c'' []"] run crash by blast
qed

text \<open>
  The voter's own term is not raised by a vote request, however high the request's term is,
  and the answer carries the old term. The code steps down with \<open>becomeFollower(n.currentTerm, "")\<close>.
\<close>

theorem vote_request_keeps_term:
  assumes "handleRequestVote e req n = Some (n', r)"
  shows "currentTerm n' = currentTerm n \<and> vr_Term r = currentTerm n"
  using handleRequestVote_keeps(1,5) [OF assms] by simp

theorem vote_request_keeps_term_witness:
  "\<exists>n n' r. handleRequestVote sample_env (sample_vote_request 9 ''a'') n = Some (n', r) \<and> vr_VoteGranted r \<and>
     currentTerm n = 0 \<and> currentTerm n' = currentTerm n \<and> vr_Term r = currentTerm n"
  using sample_grant [of 9] vote_request_keeps_term by metis

text \<open>
  A pre-vote changes nothing on the node that answers it, and is granted exactly when the
  term is not stale, no leader is known and the candidate's log is at least as up to date.
\<close>

theorem prevote_outcome:
  "fst (handlePreVote req n) = n \<and> vr_Term (snd (handlePreVote req n)) = currentTerm n \<and>
   (vr_VoteGranted (snd (handlePreVote req n)) \<longleftrightarrow> currentTerm n \<le> vq_Term req \<and> leaderID n = '''' \<and>
      logIsUpToDate (vq_LastLogTerm req) (vq_LastLogIndex req) (LastTerm (log n)) (LastIndex (log n)))"
  by (auto simp: handlePreVote_def vote_reply_def isLogUpToDate_eq)

text \<open>
  The two comparison functions of the source agree, and what they compute is the
  lexicographic order on last term and last index; of two logs at least one is as up to date
  as the other.
\<close>

theorem log_comparison:
  "isLogUpToDate t i n = logIsUpToDate t i (LastTerm (log n)) (LastIndex (log n)) \<and>
   (logIsUpToDate t i t' i' \<longleftrightarrow> t' < t \<or> t' = t \<and> i' \<le> i) \<and>
   (logIsUpToDate t i t' i' \<or> logIsUpToDate t' i' t i)"
  using isLogUpToDate_eq logIsUpToDate_lex logIsUpToDate_total by blast

text \<open>
  Any two quorums of a cluster have a member in common, so two candidates cannot both be
  elected by voters that each voted once.
\<close>

theorem quorums_intersect:
  assumes "node_quorum n Q" and "node_quorum n R"
  shows "\<exists>v \<in> cluster_ids n. v \<in> Q \<and> v \<in> R"
proof -
  obtain v where "v \<in> Q" "v \<in> R"
    using node_q.quorums_meet [OF assms] by blast
  then show ?thesis
    using assms(1) by (auto simp: node_quorum_def)
qed

theorem quorums_intersect_witness:
  "\<exists>n. node_quorum n {''a'', ''c''} \<and> node_quorum n {''b'', ''c''} \<and> (\<exists>v \<in> cluster_ids n. v \<in> {''a'', ''c''} \<and> v \<in> {''b'', ''c''})"
proof -
  obtain n :: RaftNode where "node_id n = ''c''" "peers n = build_peers (Peers (sample_cfg ''c'' [''a'', ''b''])) []"
    by (rule sample_voter) blast
  then have "node_quorum n {''a'', ''c''}" "node_quorum n {''b'', ''c''}"
    by (auto simp: node_quorum_def peers_ok_def cluster_ids_def quorum_def sample_cfg_def)
  with quorums_intersect [OF this] show ?thesis by blast
qed

text \<open>
  A candidate that nothing disturbs while it collects the answers of all its peers wins
  exactly when its own vote and the granted ones reach the quorum, and loses otherwise; the
  tally does not change the node.
\<close>

theorem tally_majority:
  assumes "campaign_start e False n = Some (n1, CampWait c)" and "length rs = length (peers n)" and "started n"
    and "\<forall>r \<in> set rs. vr_Term r \<le> currentTerm n1"
  shows "\<exists>c'. tally e c rs n1 = Some (n1, if 1 + length (filter vr_VoteGranted rs) \<ge> quorum n then CampWon c' else CampLost c')"
proof -
  have s: "state n \<noteq> Leader" "n1 = stand e n" "peers n \<noteq> []" and c: "cp_votes c = 1" "cp_needed c = quorum (stand e n)"
      "cp_left c = length (peers n)" "\<not> cp_preVote c" "cp_term c = currentTerm n1"
    using assms(1,3) by (auto simp: campaign_start_def becomeCandidate_eq Let_def split: if_splits)
  have q: "quorum (stand e n) = quorum n"
    by (simp add: quorum_def)
  have "1 < quorum n"
    using s(3) by (cases "peers n") (auto simp: quorum_def)
  moreover have "rs \<noteq> []"
    using s(3) assms(2) by auto
  ultimately show ?thesis
    using tally_undisturbed [of c n1 rs e] s c q assms(2,4) by (simp add: grants_def)
qed

theorem tally_majority_witness:
  "\<exists>n n1 c. campaign_start sample_env False n = Some (n1, CampWait c) \<and>
     (\<exists>c'. tally sample_env c [\<lparr>vr_Term = 0, vr_VoteGranted = True\<rparr>, no_response] n1
        = Some (n1, if 1 + length (filter vr_VoteGranted [\<lparr>vr_Term = 0, vr_VoteGranted = True\<rparr>, no_response]) \<ge> quorum n
                    then CampWon c' else CampLost c'))"
proof -
  obtain n where n: "boot ''c'' [''a'', ''b''] [] = Some n" "started n"
      "peers n = build_peers (Peers (sample_cfg ''c'' [''a'', ''b''])) []"
    by (rule sample_voter) blast
  have "state n = Follower"
    using boot_eq [of "[]" 0 "''''" "[]" "''c''" "[''a'', ''b'']"] n(1) by (auto simp: replay_all_def)
  moreover have "length (peers n) = 2"
    by (simp add: n(3) sample_cfg_def)
  ultimately have "\<exists>c. campaign_start sample_env False n = Some (stand sample_env n, CampWait c)"
    using n(2) by (cases "peers n") (simp_all add: campaign_start_def becomeCandidate_eq Let_def)
  then obtain c where c: "campaign_start sample_env False n = Some (stand sample_env n, CampWait c)"
    by blast
  show ?thesis
    using c tally_majority [OF c _ n(2), of "[\<lparr>vr_Term = 0, vr_VoteGranted = True\<rparr>, no_response]"] \<open>length (peers n) = 2\<close>
    by (force simp: no_response_def)
qed



end
