(* ===== verification/Raft_Replication.thy ===== *)
theory Raft_Replication
  imports Raft_Election
begin

text \<open>
  Log replication and commitment, \<open>src/raft/replication.go\<close>. \<open>handleAppendEntries\<close>,
  \<open>maybeCommit\<close> and \<open>maybeSendHeartbeats\<close> are single locked regions. \<open>replicateTo\<close>
  releases the lock during the RPC: \<open>replicateTo_begin\<close> builds the request,
  \<open>replicateTo_finish\<close> handles the response. \<open>applyCommitted\<close> collects under the lock
  (\<open>apply_collect\<close>), sends without it (\<open>apply_send\<close>) and marks under it (\<open>apply_mark\<close>).

  The abstract specification of the append loop is \<open>merge_tail\<close>, a function on plain lists;
  the loop over log and write-ahead log refines it.
\<close>

section \<open>The follower\<close>

text \<open>The fast-backtracking loop: the first index of the run of entries with the conflicting term.\<close>

function conflict_start :: "RaftLog \<Rightarrow> u64 \<Rightarrow> u64 \<Rightarrow> u64" where
  "conflict_start l conflictTerm conflictIndex =
     (if conflictIndex > 1 then
        (case GetEntry (conflictIndex - 1) l of
           Inl _ \<Rightarrow> conflictIndex
         | Inr entry \<Rightarrow> if le_Term entry \<noteq> conflictTerm then conflictIndex
                       else conflict_start l conflictTerm (conflictIndex - 1))
      else conflictIndex)"
  by pat_completeness auto
termination
  by (relation "measure (\<lambda>(l, t, i). unat i)") (auto simp: u64_less_iff intro: unat_u64_pred_less)

declare conflict_start.simps [simp del]

definition append_reply :: "bool \<Rightarrow> u64 \<Rightarrow> u64 \<Rightarrow> RaftNode \<Rightarrow> AppendEntriesResponse" where
  "append_reply ok ct ci n = \<lparr>ar_Term = currentTerm n, ar_Success = ok, ar_ConflictTerm = ct, ar_ConflictIndex = ci\<rparr>"

text \<open>\<open>SaveEntries\<close>, \<open>Sync\<close> and \<open>Append\<close> of \<open>newEntries\<close>; \<open>False\<close> is the early error return.\<close>

definition save_suffix :: "LogEntry list \<Rightarrow> RaftNode \<Rightarrow> bool \<times> RaftNode" where
  "save_suffix newEntries n =
     (case SaveEntries newEntries (wal n) of
        (Some _, w) \<Rightarrow> (False, n\<lparr>wal := w\<rparr>)
      | (None, w) \<Rightarrow>
          (case Sync w of
             (Some _, w2) \<Rightarrow> (False, n\<lparr>wal := w2\<rparr>)
           | (None, w2) \<Rightarrow>
               (case Append newEntries (log n) of
                  Inl _ \<Rightarrow> (False, n\<lparr>wal := w2\<rparr>)
                | Inr l \<Rightarrow> (True, n\<lparr>wal := w2, log := l\<rparr>))))"

fun append_entries :: "LogEntry list \<Rightarrow> RaftNode \<Rightarrow> (bool \<times> RaftNode) option" where
  "append_entries [] n = Some (True, n)"
| "append_entries (entry # es) n =
     (case GetEntry (le_Index entry) (log n) of
        Inl _ \<Rightarrow> Some (save_suffix (entry # es) n)
      | Inr existing \<Rightarrow>
          if le_Term existing \<noteq> le_Term entry then do {
            (err, w) \<leftarrow> WAL_TruncateFrom (le_Index entry) (wal n);
            if err \<noteq> None then Some (False, n\<lparr>wal := w\<rparr>)
            else do {
              res \<leftarrow> RaftLog_TruncateFrom (le_Index entry) (log n);
              (case res of
                 Inl _ \<Rightarrow> Some (False, n\<lparr>wal := w\<rparr>)
               | Inr l \<Rightarrow> Some (save_suffix (entry # es) (n\<lparr>wal := w, log := l\<rparr>))) } }
          else append_entries es n)"

definition advance_commit :: "u64 \<Rightarrow> RaftNode \<Rightarrow> RaftNode" where
  "advance_commit leaderCommit n =
     (if leaderCommit > CommitIndex (log n) then
        let lastIndex = LastIndex (log n);
            newCommit = (if lastIndex < leaderCommit then lastIndex else leaderCommit)
        in spawn GoApply (n\<lparr>log := (case CommitTo newCommit (log n) of Inl _ \<Rightarrow> log n | Inr l \<Rightarrow> l)\<rparr>)
      else n)"

definition handleAppendEntries ::
    "env \<Rightarrow> AppendEntriesRequest \<Rightarrow> RaftNode \<Rightarrow> (RaftNode \<times> AppendEntriesResponse) option" where
  "handleAppendEntries e req n =
     (if aq_Term req < currentTerm n then Some (n, append_reply False 0 0 n)
      else do {
        n1 \<leftarrow> becomeFollower e (aq_Term req) (aq_LeaderID req) n;
        (case (if aq_PrevLogIndex req > 0 then GetEntry (aq_PrevLogIndex req) (log n1) else Inr sentinel) of
           Inl _ \<Rightarrow> Some (n1, append_reply False 0 (LastIndex (log n1) + 1) n1)
         | Inr prevEntry \<Rightarrow>
             if aq_PrevLogIndex req > 0 \<and> le_Term prevEntry \<noteq> aq_PrevLogTerm req
             then Some (n1, append_reply False (le_Term prevEntry)
                          (conflict_start (log n1) (le_Term prevEntry) (aq_PrevLogIndex req)) n1)
             else do {
               (ok, n2) \<leftarrow> append_entries (aq_Entries req) n1;
               if \<not> ok then Some (n2, append_reply False 0 0 n2)
               else let n3 = advance_commit (aq_LeaderCommit req) n2 in Some (n3, append_reply True 0 0 n3) }) })"

section \<open>The leader\<close>

definition maybeCommit :: "RaftNode \<Rightarrow> RaftNode option" where
  "maybeCommit n =
     (if state n \<noteq> Leader then Some n
      else
        let matchIndexes = sort (LastIndex (log n) # map (MatchIndex \<circ> snd) (peers n)) in
        if quorum n > length matchIndexes then None
        else do {
          quorumMatchIndex \<leftarrow> go_index matchIndexes (length matchIndexes - quorum n);
          if quorumMatchIndex \<le> CommitIndex (log n) then Some n
          else (case GetEntry quorumMatchIndex (log n) of
                  Inl _ \<Rightarrow> Some n
                | Inr entry \<Rightarrow>
                    if le_Term entry \<noteq> currentTerm n then Some n
                    else Some (spawn GoApply
                           (n\<lparr>log := (case CommitTo quorumMatchIndex (log n) of Inl _ \<Rightarrow> log n | Inr l \<Rightarrow> l)\<rparr>))) })"

definition maybeSendHeartbeats :: "RaftNode \<Rightarrow> RaftNode option" where
  "maybeSendHeartbeats n =
     (if state n \<noteq> Leader then Some n
      else do {
        n1 \<leftarrow> maybeCommit n;
        Some (spawn GoApply (fold (spawn \<circ> GoReplicate) (map fst (peers n1)) n1)) })"

text \<open>
  The first locked region of \<open>replicateTo\<close>: the request, or nothing to send. The region only
  reads the node; \<open>None\<close> is the dereference of a missing peer.
\<close>

definition replicateTo_begin :: "string \<Rightarrow> RaftNode \<Rightarrow> AppendEntriesRequest option option" where
  "replicateTo_begin peerID n =
     (if state n \<noteq> Leader then Some None
      else do {
        peer \<leftarrow> map_of (peers n) peerID;
        let nextIndex = NextIndex peer;
        let prevLogIndex = nextIndex - 1;
        let lastIndex = LastIndex (log n);
        (case (if prevLogIndex > 0 then map_sum id le_Term (GetEntry prevLogIndex (log n)) else Inr 0) of
           Inl _ \<Rightarrow> Some None
         | Inr prevLogTerm \<Rightarrow>
             (case (if nextIndex \<le> lastIndex then GetEntries nextIndex (lastIndex + 1) (log n) else Inr []) of
                Inl _ \<Rightarrow> Some None
              | Inr es \<Rightarrow>
                  Some (Some \<lparr>aq_Term = currentTerm n, aq_LeaderID = node_id n, aq_PrevLogIndex = prevLogIndex,
                     aq_PrevLogTerm = prevLogTerm, aq_Entries = es, aq_LeaderCommit = CommitIndex (log n)\<rparr>))) })"

definition set_peer :: "string \<Rightarrow> Peer \<Rightarrow> RaftNode \<Rightarrow> RaftNode" where
  "set_peer peerID p n = n\<lparr>peers := AList.update peerID p (peers n)\<rparr>"

function find_last_term :: "RaftLog \<Rightarrow> u64 \<Rightarrow> u64 \<Rightarrow> u64 \<Rightarrow> u64" where
  "find_last_term l conflictTerm newNextIndex i =
     (if i \<ge> 1 then
        (case GetEntry i l of
           Inl _ \<Rightarrow> newNextIndex
         | Inr entry \<Rightarrow> if le_Term entry = conflictTerm then i + 1
                       else find_last_term l conflictTerm newNextIndex (i - 1))
      else newNextIndex)"
  by pat_completeness auto
termination
  by (relation "measure (\<lambda>(l, t, d, i). unat i)") (auto simp: u64_le_iff intro: unat_u64_pred_less)

declare find_last_term.simps [simp del]

text \<open>The failure branch: the next index to try. The code starts from \<open>resp.ConflictTerm\<close>.\<close>

definition backtrack :: "AppendEntriesResponse \<Rightarrow> RaftLog \<Rightarrow> u64" where
  "backtrack resp l =
     (let nextIndex = (if ar_ConflictTerm resp > 0
                       then find_last_term l (ar_ConflictTerm resp) (ar_ConflictTerm resp) (LastIndex l)
                       else ar_ConflictIndex resp)
      in if nextIndex < 1 then 1 else nextIndex)"

definition replicateTo_finish ::
    "env \<Rightarrow> string \<Rightarrow> AppendEntriesRequest \<Rightarrow> AppendEntriesResponse \<Rightarrow> RaftNode \<Rightarrow> RaftNode option" where
  "replicateTo_finish e peerID req resp n =
     (if state n \<noteq> Leader \<or> currentTerm n \<noteq> aq_Term req then Some n
      else if ar_Term resp > currentTerm n then becomeFollower e (ar_Term resp) '''' n
      else do {
        peer \<leftarrow> map_of (peers n) peerID;
        if ar_Success resp then
          let newMatch = aq_PrevLogIndex req + word_of_nat (length (aq_Entries req));
              match = (if newMatch > MatchIndex peer then newMatch else MatchIndex peer)
          in maybeCommit (set_peer peerID (peer\<lparr>MatchIndex := match, NextIndex := match + 1\<rparr>) n)
        else Some (set_peer peerID (peer\<lparr>NextIndex := backtrack resp (log n)\<rparr>) n) })"

section \<open>Applying committed entries\<close>

text \<open>The loop over \<open>i\<close> from \<open>lastApplied + 1\<close> to \<open>commitIndex\<close>; an error ends it.\<close>

fun collect :: "u64 list \<Rightarrow> RaftLog \<Rightarrow> LogEntry list" where
  "collect [] l = []"
| "collect (i # is) l = (case GetEntry i l of Inl _ \<Rightarrow> [] | Inr entry \<Rightarrow> entry # collect is l)"

definition apply_collect :: "RaftNode \<Rightarrow> LogEntry list" where
  "apply_collect n =
     (let commitIndex = CommitIndex (log n); lastApplied = LastApplied (log n) in
      if lastApplied \<ge> commitIndex then []
      else collect (map word_of_nat [Suc (unat lastApplied)..<Suc (unat commitIndex)]) (log n))"

definition commitCh_cap :: nat where
  "commitCh_cap = 256"

text \<open>A send on \<open>commitCh\<close> is possible while the buffer is not full.\<close>

definition apply_can_send :: "RaftNode \<Rightarrow> bool" where
  "apply_can_send n \<longleftrightarrow> length (commitCh n) < commitCh_cap"

definition apply_send :: "LogEntry \<Rightarrow> RaftNode \<Rightarrow> RaftNode" where
  "apply_send entry n = n\<lparr>commitCh := commitCh n @ [entry]\<rparr>"

definition apply_mark :: "LogEntry \<Rightarrow> RaftNode \<Rightarrow> RaftNode" where
  "apply_mark entry n = notifyProposal (le_Index entry) None (n\<lparr>log := SetLastApplied (le_Index entry) (log n)\<rparr>)"

text \<open>The loop of one goroutine with nobody else running, until it is done or the channel is full.\<close>

fun apply_loop :: "LogEntry list \<Rightarrow> RaftNode \<Rightarrow> LogEntry list \<times> RaftNode" where
  "apply_loop [] n = ([], n)"
| "apply_loop (entry # es) n =
     (if apply_can_send n then apply_loop es (apply_mark entry (apply_send entry n)) else (entry # es, n))"

definition applyCommitted :: "RaftNode \<Rightarrow> LogEntry list \<times> RaftNode" where
  "applyCommitted n = apply_loop (apply_collect n) n"

section \<open>The specification of the append loop\<close>

text \<open>What the tail of the follower's log becomes: keep what agrees in term, replace the rest.\<close>

fun merge_tail :: "LogEntry list \<Rightarrow> LogEntry list \<Rightarrow> LogEntry list" where
  "merge_tail old [] = old"
| "merge_tail [] es = es"
| "merge_tail (x # old) (e # es) = (if le_Term x \<noteq> le_Term e then e # es else x # merge_tail old es)"

definition merge_at :: "nat \<Rightarrow> LogEntry list \<Rightarrow> LogEntry list \<Rightarrow> LogEntry list" where
  "merge_at k es old = take k old @ merge_tail (drop k old) es"

text \<open>The merge leaves the committed entries of the log alone.\<close>

definition merge_safe :: "nat \<Rightarrow> LogEntry list \<Rightarrow> RaftLog \<Rightarrow> bool" where
  "merge_safe k es l \<longleftrightarrow>
     take (Suc (unat (commitIndex l))) (merge_at k es (entries l)) = take (Suc (unat (commitIndex l))) (entries l)"

lemma merge_tail_terms:
  "merge_tail old es = old \<or> map le_Term (merge_tail old es) = map le_Term es"
  by (induction old es rule: merge_tail.induct) auto

lemma merge_tail_prefix: "map le_Term (take (length es) (merge_tail old es)) = map le_Term es"
  by (induction old es rule: merge_tail.induct) auto

lemma contig_merge_tail: "contig i old \<Longrightarrow> contig i es \<Longrightarrow> contig i (merge_tail old es)"
  by (induction old es arbitrary: i rule: merge_tail.induct) auto

lemma length_merge_tail: "length (merge_tail old es) \<le> max (length old) (length es)"
  by (induction old es rule: merge_tail.induct) auto

lemma merge_tail_self [simp]: "merge_tail es es = es"
  by (induction es) auto

lemma merge_tail_idem: "merge_tail (merge_tail old es) es = merge_tail old es"
  by (induction old es rule: merge_tail.induct) simp_all

text \<open>With the log matching property the merge installs the leader's entries themselves.\<close>

lemma merge_tail_exact:
  assumes "\<forall>j < length es. j < length old \<longrightarrow> le_Term (old ! j) = le_Term (es ! j) \<longrightarrow> old ! j = es ! j"
  shows "take (length es) (merge_tail old es) = es"
  using assms
proof (induction old es rule: merge_tail.induct)
  case (3 x old e es)
  show ?case
  proof (cases "le_Term x = le_Term e")
    case True
    have "\<forall>j<length es. j < length old \<longrightarrow> le_Term (old ! j) = le_Term (es ! j) \<longrightarrow> old ! j = es ! j"
      using "3.prems" by fastforce
    moreover have "x = e"
      using "3.prems" True by fastforce
    ultimately show ?thesis
      using "3.IH" True by simp
  qed simp
qed auto

lemma merge_at_step:
  assumes "k < length old" and "le_Term (old ! k) = le_Term e"
  shows "merge_at k (e # es) old = merge_at (Suc k) es old"
  using assms by (simp add: merge_at_def Cons_nth_drop_Suc [symmetric] take_Suc_conv_app_nth)

lemma merge_at_conflict:
  assumes "k < length old" and "le_Term (old ! k) \<noteq> le_Term e"
  shows "merge_at k (e # es) old = take k old @ e # es"
  using assms by (simp add: merge_at_def Cons_nth_drop_Suc [symmetric])

text \<open>Replacing position \<open>k\<close> by something else leaves exactly the first \<open>k\<close> elements alone.\<close>

lemma take_append_eq_iff:
  assumes "k < length old" and "old ! k \<noteq> e" and "c < length old"
  shows "take (Suc c) (take k old @ e # es) = take (Suc c) old \<longleftrightarrow> c < k"
proof
  assume eq: "take (Suc c) (take k old @ e # es) = take (Suc c) old"
  show "c < k"
  proof (rule ccontr)
    assume "\<not> c < k"
    then have "take (Suc c) (take k old @ e # es) ! k = e" and "take (Suc c) old ! k = old ! k"
      using assms by (simp_all add: nth_append)
    with eq assms(2) show False by simp
  qed
qed (use assms in simp)

lemma merge_at_end: "length old \<le> k \<Longrightarrow> merge_at k es old = old @ es"
  by (cases es) (auto simp: merge_at_def)

lemma merge_at_Nil [simp]: "merge_at k [] old = old"
  by (simp add: merge_at_def)

section \<open>The append loop refines it\<close>

definition fits_all :: "LogEntry list \<Rightarrow> bool" where
  "fits_all es \<longleftrightarrow> list_all (rec_ok \<circ> REntry) es"

lemma fits_all_simps [simp]: "fits_all []" "fits_all (e # es) \<longleftrightarrow> rec_ok (REntry e) \<and> fits_all es"
  by (simp_all add: fits_all_def)

lemma save_suffix_durable:
  assumes "wal_durable (wal n) (t, v, old)" and "fits_all es"
  obtains w where "save_suffix es n = (True, n\<lparr>wal := w, log := (log n)\<lparr>entries := entries (log n) @ es\<rparr>\<rparr>)"
    and "wal_durable w (t, v, old @ es)"
proof -
  obtain w1 w2 where "SaveEntries es (wal n) = (None, w1)" "Sync w1 = (None, w2)" "wal_durable w2 (t, v, old @ es)"
    using wal_durable_SaveEntries [OF assms(1) assms(2) [unfolded fits_all_def]] by blast
  then show thesis
    by (intro that [of w2]) (simp_all add: save_suffix_def Append_def)
qed

lemma filter_below_take:
  assumes "log_ok l" and "0 < k" and "k < length (entries l)"
  shows "filter (\<lambda>e. le_Index e < word_of_nat k) (tl (entries l)) = tl (take k (entries l))"
proof -
  have k: "k < 2 ^ 63"
    using assms log_ok_length [OF assms(1)] by simp
  have in_log: "e \<in> set xs \<Longrightarrow> e \<in> set (take k (entries l)) \<or> e \<in> set (drop k (entries l))"
    if "set xs \<subseteq> set (entries l)" for e xs
    using that by (metis Un_iff append_take_drop_id set_append subsetD)
  have low: "le_Index e < word_of_nat k" if e: "e \<in> set (take k (entries l))" for e
    using e k assms by (auto simp: in_set_conv_nth u64_less_iff unat_entry_Index)
  have high: "\<not> le_Index e < word_of_nat k" if e: "e \<in> set (drop k (entries l))" for e
    using e k assms by (auto simp: in_set_conv_nth u64_less_iff unat_entry_Index)
  have "tl (entries l) = tl (take k (entries l)) @ drop k (entries l)"
    using assms by (metis append_take_drop_id gr_implies_not0 length_0_conv take_eq_Nil2 tl_append2)
  moreover have "filter (\<lambda>e. le_Index e < word_of_nat k) (tl (take k (entries l))) = tl (take k (entries l))"
    using low by (intro filter_True) (metis list.set_sel(2) tl_Nil)
  moreover have "filter (\<lambda>e. le_Index e < word_of_nat k) (drop k (entries l)) = []"
    using high by (intro filter_False) blast
  ultimately show ?thesis
    by simp
qed

text \<open>
  The outcome of the loop, started at position \<open>k\<close> of a log that the file mirrors. If the
  merge is safe the log and the file become the merge; otherwise the loop stops with the log
  as it was and the file cut at the conflict.
\<close>

definition append_outcome :: "nat \<Rightarrow> LogEntry list \<Rightarrow> RaftNode \<Rightarrow> bool" where
  "append_outcome k es n \<longleftrightarrow>
     (let l = log n; new = merge_at k es (entries l) in
      if merge_safe k es l
      then \<exists>w. append_entries es n = Some (True, n\<lparr>wal := w, log := l\<lparr>entries := new\<rparr>\<rparr>)
             \<and> wal_durable w (currentTerm n, votedFor n, tl new)
      else \<exists>w j. append_entries es n = Some (False, n\<lparr>wal := w\<rparr>) \<and> 0 < j \<and> j \<le> unat (commitIndex l)
             \<and> wal_durable w (currentTerm n, votedFor n, tl (take j (entries l))))"

lemma append_outcome_end:
  assumes "log_ok (log n)" and "node_durable n" and "fits_all (e # es)"
    and "unat (le_Index e) = length (entries (log n))"
  shows "append_outcome (length (entries (log n))) (e # es) n"
proof -
  have "merge_safe (length (entries (log n))) (e # es) (log n)"
    using assms(1) by (simp add: merge_safe_def merge_at_end log_ok_def)
  moreover obtain w where
      "save_suffix (e # es) n = (True, n\<lparr>wal := w, log := (log n)\<lparr>entries := entries (log n) @ e # es\<rparr>\<rparr>)"
    and "wal_durable w (currentTerm n, votedFor n, tl (entries (log n)) @ e # es)"
    using save_suffix_durable [OF assms(2) [unfolded node_durable_def] assms(3)] by blast
  ultimately show ?thesis
    using assms log_ok_nonempty [OF assms(1)] by (auto simp: append_outcome_def GetEntry_def merge_at_end Let_def)
qed

lemma append_outcome_conflict:
  assumes ok: "log_ok (log n)" and dur: "node_durable n" and fits: "fits_all (e # es)"
    and ix: "le_Index e = word_of_nat k" and k: "0 < k" "k < length (entries (log n))"
    and neq: "le_Term (entries (log n) ! k) \<noteq> le_Term e"
  shows "append_outcome k (e # es) n"
proof -
  let ?l = "log n"
  let ?cut = "take k (entries ?l)"
  have k': "unat (word_of_nat k :: u64) = k"
    using k(2) log_ok_length [OF ok] by simp
  have get: "GetEntry (word_of_nat k) ?l = Inr (entries ?l ! k)"
    using k(2) by (simp add: GetEntry_def k')
  obtain w where w: "WAL_TruncateFrom (word_of_nat k) (wal n) = Some (None, w)"
      "wal_durable w (currentTerm n, votedFor n, tl ?cut)"
    using wal_durable_TruncateFrom [OF dur [unfolded node_durable_def], of "word_of_nat k"]
    by (metis filter_below_take [OF ok k])
  have merge: "merge_at k (e # es) (entries ?l) = ?cut @ e # es"
    using k(2) neq by (rule merge_at_conflict)
  have safe: "merge_safe k (e # es) ?l \<longleftrightarrow> unat (commitIndex ?l) < k"
    unfolding merge_safe_def merge using k(2) neq ok by (intro take_append_eq_iff) (auto simp: log_ok_def)
  show ?thesis
  proof (cases "unat (commitIndex ?l) < k")
    case True
    let ?n = "n\<lparr>wal := w, log := ?l\<lparr>entries := ?cut\<rparr>\<rparr>"
    have "RaftLog_TruncateFrom (word_of_nat k) ?l = Some (Inr (?l\<lparr>entries := ?cut\<rparr>))"
      using True k(2) by (simp add: RaftLog_TruncateFrom_def u64_le_iff k')
    moreover obtain w' where
        "save_suffix (e # es) ?n = (True, ?n\<lparr>wal := w', log := ?l\<lparr>entries := ?cut @ e # es\<rparr>\<rparr>)"
      and "wal_durable w' (currentTerm n, votedFor n, tl ?cut @ e # es)"
      using save_suffix_durable [of ?n "currentTerm n" "votedFor n" "tl ?cut" "e # es"] w(2) fits by auto
    moreover have "tl (?cut @ e # es) = tl ?cut @ e # es"
      using log_ok_nonempty [OF ok] k(1) by (simp add: tl_append2)
    ultimately show ?thesis
      using True w neq by (auto simp: append_outcome_def get ix merge safe Let_def)
  next
    case False
    then have "RaftLog_TruncateFrom (word_of_nat k) ?l = Some (Inl ''cannot truncate committed entries'')"
      by (simp add: RaftLog_TruncateFrom_def u64_le_iff k')
    then show ?thesis
      using False w neq k(1) by (auto simp: append_outcome_def get ix safe Let_def intro!: exI [of _ w] exI [of _ k])
  qed
qed

lemma append_entries_refines:
  assumes "log_ok (log n)" and "node_durable n" and "contig (word_of_nat k) es" and "fits_all es"
    and "0 < k" and "k \<le> length (entries (log n))" and "k + length es \<le> 2 ^ 63"
  shows "append_outcome k es n"
  using assms
proof (induction es arbitrary: k)
  case Nil
  then show ?case
    by (auto simp: append_outcome_def merge_safe_def node_durable_def Let_def intro!: exI [of _ "wal n"])
next
  case (Cons e es)
  have ix: "le_Index e = word_of_nat k" and rest: "contig (word_of_nat (Suc k)) es"
    and k: "unat (word_of_nat k :: u64) = k"
    using Cons.prems by (auto simp: ac_simps)
  consider "length (entries (log n)) = k" | "k < length (entries (log n))" "le_Term (entries (log n) ! k) = le_Term e"
    | "k < length (entries (log n))" "le_Term (entries (log n) ! k) \<noteq> le_Term e"
    using Cons.prems(6) by linarith
  then show ?case
  proof cases
    case 1
    then show ?thesis
      using append_outcome_end [OF Cons.prems(1,2,4)] by (simp add: ix k)
  next
    case 2
    then have "append_entries (e # es) n = append_entries es n"
      by (simp add: GetEntry_def ix k)
    then have "append_outcome k (e # es) n \<longleftrightarrow> append_outcome (Suc k) es n"
      by (simp only: append_outcome_def merge_safe_def merge_at_step [OF 2] Let_def)
    moreover have "append_outcome (Suc k) es n"
      using Cons.prems rest 2(1) by (intro Cons.IH) auto
    ultimately show ?thesis by simp
  next
    case 3
    then show ?thesis
      using append_outcome_conflict [OF Cons.prems(1,2,4) ix Cons.prems(5)] by simp
  qed
qed

section \<open>Well-formed requests\<close>

text \<open>
  What a leader sends: consecutive entries right after \<open>PrevLogIndex\<close>, with terms that do not
  decrease from \<open>PrevLogTerm\<close> up to the leader's term, and that fit the file format.
\<close>

definition aq_wf :: "AppendEntriesRequest \<Rightarrow> bool" where
  "aq_wf req \<longleftrightarrow>
     contig (aq_PrevLogIndex req + 1) (aq_Entries req) \<and>
     unat (aq_PrevLogIndex req) + length (aq_Entries req) < 2 ^ 63 \<and>
     sorted (aq_PrevLogTerm req # map le_Term (aq_Entries req) @ [aq_Term req]) \<and>
     (aq_PrevLogIndex req = 0 \<longrightarrow> aq_PrevLogTerm req = 0) \<and> fits_all (aq_Entries req)"

lemma sorted_take_drop:
  fixes xs :: "'a::linorder list"
  assumes "sorted xs" and "k < length xs" and "last xs \<le> t"
  shows "sorted (xs ! k # drop (Suc k) xs @ [t])"
proof -
  have "sorted (xs ! k # drop (Suc k) xs)"
    using assms(1,2) by (metis Cons_nth_drop_Suc sorted_wrt_drop)
  moreover have "last (xs ! k # drop (Suc k) xs) = last xs"
    using assms(2) by (metis Cons_nth_drop_Suc last_drop)
  ultimately have "sorted ((xs ! k # drop (Suc k) xs) @ [t])"
    using assms(3) by (subst sorted_snoc) simp
  then show ?thesis by simp
qed

lemma node_log_ok_sentinel: "node_log_ok n \<Longrightarrow> entries (log n) ! 0 = sentinel"
  by (metis hd_conv_nth log_ok_nonempty node_log_ok_def)

lemma replicateTo_begin_cases:
  assumes "replicateTo_begin p n = Some (Some req)" and "node_log_ok n"
  obtains k peer where "state n = Leader" and "map_of (peers n) p = Some peer" and "k < length (entries (log n))"
    and "aq_PrevLogIndex req = word_of_nat k" and "NextIndex peer = word_of_nat (Suc k)"
    and "aq_PrevLogTerm req = le_Term (entries (log n) ! k)"
    and "aq_Entries req = drop (Suc k) (entries (log n))" and "aq_Term req = currentTerm n"
    and "aq_LeaderID req = node_id n" and "aq_LeaderCommit req = commitIndex (log n)"
proof -
  have ok: "log_ok (log n)" and s: "entries (log n) ! 0 = sentinel"
    using assms(2) node_log_ok_sentinel by (auto simp: node_log_ok_def)
  obtain peer where peer: "map_of (peers n) p = Some peer" "state n = Leader"
    using assms(1) by (auto simp: replicateTo_begin_def bind_eq_Some_conv split: if_splits)
  define k where "k = unat (NextIndex peer - 1)"
  have nxt: "NextIndex peer = word_of_nat (Suc k)"
    by (simp add: k_def)
  have prev: "NextIndex peer - 1 = word_of_nat k"
    by (simp add: k_def)
  have klen: "k < length (entries (log n))"
    using assms(1) peer log_ok_length [OF ok]
    by (cases "k = 0") (auto simp: replicateTo_begin_def k_def GetEntry_def Let_def u64_less_iff split: if_splits)
  have es: "(if NextIndex peer \<le> LastIndex (log n) then GetEntries (NextIndex peer) (LastIndex (log n) + 1) (log n) else Inr [])
      = Inr (drop (Suc k) (entries (log n)))"
    using klen log_ok_length [OF ok]
    by (auto simp: le_LastIndex_iff [OF ok] nxt GetEntries_def unat_LastIndex_Suc [OF ok] u64_less_iff
        simp del: of_nat_Suc)
  have pt: "(if NextIndex peer - 1 > 0 then map_sum id le_Term (GetEntry (NextIndex peer - 1) (log n)) else Inr 0)
      = Inr (le_Term (entries (log n) ! k))"
    using klen s by (cases "k = 0") (auto simp: k_def GetEntry_def sentinel_def u64_less_iff)
  have "req = \<lparr>aq_Term = currentTerm n, aq_LeaderID = node_id n, aq_PrevLogIndex = NextIndex peer - 1,
      aq_PrevLogTerm = le_Term (entries (log n) ! k), aq_Entries = drop (Suc k) (entries (log n)),
      aq_LeaderCommit = commitIndex (log n)\<rparr>"
    using assms(1) by (simp add: replicateTo_begin_def peer Let_def pt es CommitIndex_def)
  then show thesis
    using peer klen nxt prev by (intro that [of peer k]) auto
qed

lemma replicateTo_begin_wf:
  assumes "replicateTo_begin p n = Some (Some req)" and "node_log_ok n" and "fits_all (entries (log n))"
  shows "aq_wf req" and "aq_LeaderCommit req \<le> aq_PrevLogIndex req + word_of_nat (length (aq_Entries req))"
proof -
  have ok: "log_ok (log n)"
    using assms(2) by (simp add: node_log_ok_def)
  obtain k where k: "k < length (entries (log n))" "aq_PrevLogIndex req = word_of_nat k"
      "aq_PrevLogTerm req = le_Term (entries (log n) ! k)" "aq_Entries req = drop (Suc k) (entries (log n))"
      "aq_Term req = currentTerm n" "aq_LeaderCommit req = commitIndex (log n)"
    using replicateTo_begin_cases [OF assms(1,2)] by metis
  have k63: "k < 2 ^ 63"
    using k(1) log_ok_length [OF ok] by simp
  have "contig (aq_PrevLogIndex req + 1) (aq_Entries req)"
    using contig_drop [of 0 "entries (log n)" "Suc k"] k ok by (simp add: log_ok_def add.commute)
  moreover have "sorted (aq_PrevLogTerm req # map le_Term (aq_Entries req) @ [aq_Term req])"
    using sorted_take_drop [of "map le_Term (entries (log n))" k "currentTerm n"] assms(2) k log_ok_nonempty [OF ok]
    by (simp add: node_log_ok_def LastTerm_def last_map drop_map)
  moreover have "aq_PrevLogTerm req = 0" if "aq_PrevLogIndex req = 0"
  proof -
    have "k = 0"
      using that k63 unat_word_of_nat_u64 [of k] by (simp add: k(2))
    then show ?thesis
      using k(3) node_log_ok_sentinel [OF assms(2)] by (simp add: sentinel_def)
  qed
  moreover have "fits_all (aq_Entries req)"
    using assms(3) k(4) by (auto simp: fits_all_def list_all_iff dest: in_set_dropD)
  moreover have "unat (aq_PrevLogIndex req) + length (aq_Entries req) < 2 ^ 63"
    using k(1,2,4) k63 log_ok_length [OF ok] by (simp, linarith)
  ultimately show "aq_wf req"
    by (simp add: aq_wf_def)
  have "aq_PrevLogIndex req + word_of_nat (length (aq_Entries req)) = word_of_nat (length (entries (log n)) - 1)"
    using k(1,2,4) of_nat_add [of k "length (aq_Entries req)", where 'a = u64, symmetric] by simp
  then show "aq_LeaderCommit req \<le> aq_PrevLogIndex req + word_of_nat (length (aq_Entries req))"
    using k ok log_ok_length [OF ok] by (auto simp: log_ok_def u64_le_iff simp del: of_nat_diff)
qed

section \<open>What the append loop does to the log in every case\<close>

lemma save_suffix_cases:
  "save_suffix es n = (ok, n') \<Longrightarrow>
   (\<exists>w. n' = n\<lparr>wal := w\<rparr>) \<or> (\<exists>w. n' = n\<lparr>wal := w, log := (log n)\<lparr>entries := entries (log n) @ es\<rparr>\<rparr>)"
  by (auto simp: save_suffix_def Append_def split: prod.splits option.splits)

text \<open>Only log and file change, and the log by its own methods.\<close>

definition log_frame :: "RaftNode \<Rightarrow> RaftNode \<Rightarrow> bool" where
  "log_frame n n' \<longleftrightarrow> n' = n\<lparr>wal := wal n', log := log n'\<rparr> \<and> log_trans\<^sup>*\<^sup>* (log n) (log n')"

lemma log_frame_refl [simp]: "log_frame n n"
  by (simp add: log_frame_def)

lemma log_frame_wal [simp]: "log_frame n (n\<lparr>wal := w\<rparr>)"
  by (simp add: log_frame_def)

lemma log_frame_trans: "log_frame n m \<Longrightarrow> log_frame m k \<Longrightarrow> log_frame n k"
  by (cases n; cases m; cases k) (auto simp: log_frame_def)

lemma log_frame_save_suffix: "save_suffix es n = (ok, n') \<Longrightarrow> log_frame n n'"
  using log_trans.append [of es "log n"] save_suffix_cases [of es n ok n']
  by (auto simp: log_frame_def Append_def)

lemma append_conflict_cases:
  assumes "append_entries (e # es) n = Some (ok, n')" and "GetEntry (le_Index e) (log n) = Inr x" and "le_Term x \<noteq> le_Term e"
  obtains w where "n' = n\<lparr>wal := w\<rparr>"
  | w l where "RaftLog_TruncateFrom (le_Index e) (log n) = Some (Inr l)"
      and "save_suffix (e # es) (n\<lparr>wal := w, log := l\<rparr>) = (ok, n')"
proof -
  obtain err w where w: "WAL_TruncateFrom (le_Index e) (wal n) = Some (err, w)"
    using assms by (auto simp: bind_eq_Some_conv)
  show thesis
  proof (cases "RaftLog_TruncateFrom (le_Index e) (log n)")
    case None
    then show ?thesis
      using assms w that(1) by (auto split: if_split_asm)
  next
    case (Some r)
    then show ?thesis
      using assms w that by (cases r) (auto split: if_split_asm)
  qed
qed

lemma append_entries_frame: "append_entries es n = Some (ok, n') \<Longrightarrow> log_frame n n'"
proof (induction es)
  case (Cons e es)
  show ?case
  proof (cases "GetEntry (le_Index e) (log n)")
    case Inl
    then show ?thesis
      using Cons.prems by (auto intro: log_frame_save_suffix)
  next
    case (Inr x)
    show ?thesis
    proof (cases "le_Term x = le_Term e")
      case False
      show ?thesis
      proof (rule append_conflict_cases [OF Cons.prems Inr False])
        fix w l assume "RaftLog_TruncateFrom (le_Index e) (log n) = Some (Inr l)"
          and save: "save_suffix (e # es) (n\<lparr>wal := w, log := l\<rparr>) = (ok, n')"
        then have "log_frame n (n\<lparr>wal := w, log := l\<rparr>)"
          using log_trans.truncate [of "le_Index e" "log n" l] by (simp add: log_frame_def)
        then show ?thesis
          using log_frame_save_suffix [OF save] by (rule log_frame_trans)
      qed simp
    qed (use Cons Inr in simp)
  qed
qed simp

lemma log_frame_simps:
  assumes "log_frame n n'"
  shows "node_id n' = node_id n" "config n' = config n" "currentTerm n' = currentTerm n" "votedFor n' = votedFor n"
    "state n' = state n" "leaderID n' = leaderID n" "peers n' = peers n" "electionTimer n' = electionTimer n"
    "proposals n' = proposals n" "results n' = results n" "stopped n' = stopped n"
  using assms by (cases n; cases n'; simp add: log_frame_def)+

lemma log_frame_log: "log_frame n n' \<Longrightarrow> log_trans\<^sup>*\<^sup>* (log n) (log n')"
  unfolding log_frame_def by (rule conjunct2)

lemma advances_log_frame:
  assumes "log_frame n n'"
  shows "advances n n'"
  using raft_log.run_committed_mono [OF log_frame_log [OF assms]] raft_log.run_committed_kept [OF log_frame_log [OF assms]]
  by (simp add: advances_def started_def log_frame_simps [OF assms])

text \<open>With consecutive entries the log ends up as it was, cut at a conflict, or merged.\<close>

definition log_cut :: "nat \<Rightarrow> RaftLog \<Rightarrow> RaftLog \<Rightarrow> bool" where
  "log_cut k l l' \<longleftrightarrow> (\<exists>j \<ge> k. j \<le> length (entries l) \<and> unat (commitIndex l) < j \<and> l' = l\<lparr>entries := take j (entries l)\<rparr>)"

lemma append_entries_cases:
  assumes "append_entries es n = Some (ok, n')" and "log_ok (log n)" and "contig (word_of_nat k) es"
    and "k \<le> length (entries (log n))" and "k + length es \<le> 2 ^ 63"
  shows "log n' = log n \<or> log_cut k (log n) (log n') \<or>
     merge_safe k es (log n) \<and> log n' = (log n)\<lparr>entries := merge_at k es (entries (log n))\<rparr>"
  using assms
proof (induction es arbitrary: k)
  case (Cons e es)
  let ?l = "log n"
  have ix: "le_Index e = word_of_nat k" and rest: "contig (word_of_nat (Suc k)) es"
    and k: "unat (word_of_nat k :: u64) = k"
    using Cons.prems by (auto simp: ac_simps)
  consider "length (entries ?l) = k" | "k < length (entries ?l)" "le_Term (entries ?l ! k) = le_Term e"
    | "k < length (entries ?l)" "le_Term (entries ?l ! k) \<noteq> le_Term e"
    using Cons.prems(4) by linarith
  then show ?case
  proof cases
    case 1
    then have "save_suffix (e # es) n = (ok, n')"
      using Cons.prems(1) by (simp add: GetEntry_def ix k)
    moreover have "merge_safe k (e # es) ?l"
      using 1 Cons.prems(2) by (simp add: merge_safe_def merge_at_end log_ok_def)
    ultimately show ?thesis
      using save_suffix_cases [of "e # es" n ok n'] 1 by (auto simp: merge_at_end)
  next
    case 2
    then have "append_entries es n = Some (ok, n')"
      using Cons.prems(1) by (simp add: GetEntry_def ix k)
    then have "log n' = ?l \<or> log_cut (Suc k) ?l (log n') \<or>
       merge_safe (Suc k) es ?l \<and> log n' = ?l\<lparr>entries := merge_at (Suc k) es (entries ?l)\<rparr>"
      using Cons.prems rest 2(1) by (intro Cons.IH) auto
    then show ?thesis
      by (auto simp: merge_at_step [OF 2] merge_safe_def log_cut_def intro: Suc_leD)
  next
    case 3
    have safe: "merge_safe k (e # es) ?l \<longleftrightarrow> unat (commitIndex ?l) < k"
      unfolding merge_safe_def merge_at_conflict [OF 3] using 3 Cons.prems(2)
      by (intro take_append_eq_iff) (auto simp: log_ok_def)
    have get: "GetEntry (le_Index e) ?l = Inr (entries ?l ! k)"
      using 3 by (simp add: GetEntry_def ix k)
    from Cons.prems(1) get 3(2) show ?thesis
    proof (rule append_conflict_cases)
      fix w l assume "RaftLog_TruncateFrom (le_Index e) ?l = Some (Inr l)"
        and save: "save_suffix (e # es) (n\<lparr>wal := w, log := l\<rparr>) = (ok, n')"
      then have l: "l = ?l\<lparr>entries := take k (entries ?l)\<rparr>" and c: "unat (commitIndex ?l) < k"
        by (auto simp: RaftLog_TruncateFrom_def ix k u64_le_iff split: if_splits)
      then have "log_cut k ?l l"
        using 3(1) by (auto simp: log_cut_def)
      then show ?thesis
        using save_suffix_cases [OF save] l c safe by (auto simp: merge_at_conflict [OF 3])
    qed simp
  qed
qed simp

section \<open>Invariants of the follower\<close>

lemma node_log_ok_cut:
  assumes "node_log_ok n" and "log_cut k (log n) (log n')" and "0 < k" and "currentTerm n' = currentTerm n"
  shows "node_log_ok n'"
proof -
  let ?es = "entries (log n)"
  obtain j where j: "k \<le> j" "j \<le> length ?es" "unat (commitIndex (log n)) < j"
      and l: "log n' = (log n)\<lparr>entries := take j ?es\<rparr>"
    using assms(2) by (auto simp: log_cut_def)
  have ne: "take j ?es \<noteq> []" and ok: "log_ok (log n)"
    using assms(1,3) j(1) by (auto simp: node_log_ok_def log_ok_def)
  have "le_Term (last (take j ?es)) \<le> le_Term (last ?es)"
  proof -
    have "map le_Term ?es ! (j - 1) \<le> map le_Term ?es ! (length ?es - 1)"
      using assms(1) j by (intro sorted_nth_mono) (auto simp: node_log_ok_def)
    then show ?thesis
      using ne j by (simp add: last_conv_nth)
  qed
  moreover have "log_ok (log n')"
    using ok j ne by (auto simp: l log_ok_def contig_take)
  ultimately show ?thesis
    using assms(1,3,4) j(1)
    by (auto simp: node_log_ok_def l LastTerm_def take_map [symmetric] sorted_wrt_take intro: order_trans)
qed

lemma node_log_ok_terms:
  assumes "node_log_ok n" and "x \<in> set (entries (log n))"
  shows "le_Term x \<le> currentTerm n"
proof -
  obtain i where i: "i < length (entries (log n))" "x = entries (log n) ! i"
    using assms(2) by (auto simp: in_set_conv_nth)
  have "map le_Term (entries (log n)) ! i \<le> map le_Term (entries (log n)) ! (length (entries (log n)) - 1)"
    using assms(1) i(1) by (intro sorted_nth_mono) (auto simp: node_log_ok_def)
  then have "le_Term x \<le> LastTerm (log n)"
    using i by (subst LastTerm_def, subst last_conv_nth) auto
  also have "\<dots> \<le> currentTerm n"
    using assms(1) by (simp add: node_log_ok_def)
  finally show ?thesis .
qed

lemma merge_at_terms:
  "map le_Term (merge_at k es old) = map le_Term old \<or>
   map le_Term (merge_at k es old) = map le_Term (take k old) @ map le_Term es"
proof -
  consider "merge_tail (drop k old) es = drop k old" | "map le_Term (merge_tail (drop k old) es) = map le_Term es"
    using merge_tail_terms by blast
  then show ?thesis
    by cases (simp_all add: merge_at_def)
qed

lemma node_log_ok_merge:
  assumes ok: "node_log_ok n" and k: "0 < k" "k \<le> length (entries (log n))" and len: "k + length es \<le> 2 ^ 63"
    and es: "contig (word_of_nat k) es"
    and terms: "sorted (le_Term (entries (log n) ! (k - 1)) # map le_Term es @ [t])" and t: "t \<le> currentTerm n"
    and safe: "merge_safe k es (log n)"
    and n': "log n' = (log n)\<lparr>entries := merge_at k es (entries (log n))\<rparr>" "currentTerm n' = currentTerm n"
  shows "node_log_ok n'"
proof -
  let ?old = "entries (log n)" and ?tail = "merge_tail (drop k (entries (log n))) es"
  have log: "log_ok (log n)" and hd: "hd ?old = sentinel" and srt: "sorted (map le_Term ?old)"
    using ok by (simp_all add: node_log_ok_def)
  have "contig (word_of_nat k) (drop k ?old)"
    using contig_drop [of 0 ?old k] k(2) log by (simp add: log_ok_def)
  then have "contig (word_of_nat k) ?tail"
    using es by (rule contig_merge_tail)
  moreover have "length ?tail \<le> max (length ?old - k) (length es)"
    using length_merge_tail [of "drop k ?old" es] by simp
  moreover have "unat (commitIndex (log n)) < length (take k ?old @ ?tail)"
  proof -
    have "length (take (Suc (unat (commitIndex (log n)))) (merge_at k es ?old)) = Suc (unat (commitIndex (log n)))"
      using safe log by (simp add: merge_safe_def log_ok_def)
    then show ?thesis
      by (simp add: merge_at_def)
  qed
  ultimately have log': "log_ok (log n')"
    using log k len log_ok_length [OF log] by (auto simp: n' log_ok_def merge_at_def contig_append contig_take min_absorb2)
  have hd': "hd (merge_at k es ?old) = sentinel"
    using hd k log_ok_nonempty [OF log] by (simp add: merge_at_def hd_append)
  have "sorted (map le_Term (take k ?old) @ map le_Term es)"
  proof -
    have "map le_Term (take k ?old) = map le_Term (take (k - 1) ?old) @ [le_Term (?old ! (k - 1))]"
      using k by (metis (no_types, lifting) Suc_pred' le_simps(3) list.simps(8) list.simps(9) map_append take_Suc_conv_app_nth)
    moreover have "sorted (map le_Term (take k ?old))"
      using srt by (simp add: take_map [symmetric] sorted_wrt_take)
    ultimately show ?thesis
      using terms by (fastforce simp: sorted_append)
  qed
  moreover have "\<forall>x \<in> set (map le_Term ?old). x \<le> currentTerm n"
    using node_log_ok_terms [OF ok] by auto
  moreover have "\<forall>x \<in> set (map le_Term (take k ?old) @ map le_Term es). x \<le> currentTerm n"
    using node_log_ok_terms [OF ok] terms t by (auto simp: sorted_append dest: in_set_takeD intro: order_trans)
  ultimately have "sorted (map le_Term (merge_at k es ?old))" and "\<forall>x \<in> set (map le_Term (merge_at k es ?old)). x \<le> currentTerm n"
    using merge_at_terms [of k es ?old] srt by metis+
  moreover have "merge_at k es ?old \<noteq> []"
    using k log_ok_nonempty [OF log] by (simp add: merge_at_def)
  ultimately show ?thesis
    using log' hd' by (simp add: node_log_ok_def n' LastTerm_def)
qed

text \<open>The preconditions of the loop, in terms of a request that passed the consistency check.\<close>

definition prev_match :: "AppendEntriesRequest \<Rightarrow> RaftLog \<Rightarrow> bool" where
  "prev_match req l \<longleftrightarrow> unat (aq_PrevLogIndex req) < length (entries l) \<and>
     (aq_PrevLogIndex req > 0 \<longrightarrow> le_Term (entries l ! unat (aq_PrevLogIndex req)) = aq_PrevLogTerm req)"

lemma aq_wf_loop:
  assumes "aq_wf req" and "prev_match req l" and "k = Suc (unat (aq_PrevLogIndex req))"
  shows "contig (word_of_nat k) (aq_Entries req)" and "k \<le> length (entries l)" and "k + length (aq_Entries req) \<le> 2 ^ 63"
    and "fits_all (aq_Entries req)" and "0 < k"
  using assms by (auto simp: aq_wf_def prev_match_def add.commute)

lemma node_log_ok_append_entries:
  assumes run: "append_entries (aq_Entries req) n = Some (ok, n')" and n: "node_log_ok n" and wf: "aq_wf req"
    and prev: "prev_match req (log n)" and t: "aq_Term req \<le> currentTerm n"
  shows "node_log_ok n'"
proof -
  define k where "k = Suc (unat (aq_PrevLogIndex req))"
  note pre = aq_wf_loop [OF wf prev k_def]
  have ct: "currentTerm n' = currentTerm n"
    using append_entries_frame [OF run] by (rule log_frame_simps)
  have "le_Term (entries (log n) ! (k - 1)) = aq_PrevLogTerm req"
    using prev wf node_log_ok_sentinel [OF n]
    by (cases "aq_PrevLogIndex req = 0") (auto simp: prev_match_def aq_wf_def k_def sentinel_def word_neq_0_conv)
  then have "sorted (le_Term (entries (log n) ! (k - 1)) # map le_Term (aq_Entries req) @ [aq_Term req])"
    using wf by (simp add: aq_wf_def)
  moreover have "log n' = log n \<or> log_cut k (log n) (log n') \<or>
     merge_safe k (aq_Entries req) (log n) \<and> log n' = (log n)\<lparr>entries := merge_at k (aq_Entries req) (entries (log n))\<rparr>"
    using append_entries_cases [OF run _ pre(1-3)] n by (simp add: node_log_ok_def)
  ultimately show ?thesis
    using node_log_ok_cut [OF n _ pre(5) ct] node_log_ok_merge [OF n pre(5) pre(2) pre(3) pre(1) _ t _ _ ct] n ct
    by (fastforce simp: node_log_ok_def)
qed

section \<open>The AppendEntries handler\<close>

lemma advance_commit_simps [simp]:
  "node_id (advance_commit c n) = node_id n" "config (advance_commit c n) = config n"
  "currentTerm (advance_commit c n) = currentTerm n" "votedFor (advance_commit c n) = votedFor n"
  "state (advance_commit c n) = state n" "leaderID (advance_commit c n) = leaderID n" "wal (advance_commit c n) = wal n"
  "peers (advance_commit c n) = peers n" "started (advance_commit c n) = started n"
  "entries (log (advance_commit c n)) = entries (log n)" "results (advance_commit c n) = results n"
  by (auto simp: advance_commit_def Let_def started_def CommitTo_def split: sum.split)

lemma advance_commit_index:
  assumes "log_ok (log n)"
  shows "commitIndex (log (advance_commit c n)) = max (commitIndex (log n)) (min c (LastIndex (log n)))"
    and "lastApplied (log (advance_commit c n)) = lastApplied (log n)"
proof -
  obtain l where l: "CommitTo (min c (LastIndex (log n))) (log n) = Inr l"
    using CommitTo_Inr_iff [OF assms] by (metis min.cobounded2)
  have "(if LastIndex (log n) < c then LastIndex (log n) else c) = min c (LastIndex (log n))"
    by (auto simp: min_def)
  then have "log (advance_commit c n) = (if c > commitIndex (log n) then l else log n)"
    using l by (simp add: advance_commit_def CommitIndex_def Let_def)
  moreover have "commitIndex l = max (commitIndex (log n)) (min c (LastIndex (log n)))" "lastApplied l = lastApplied (log n)"
    using CommitTo_commitIndex [OF l] by simp_all
  ultimately show "commitIndex (log (advance_commit c n)) = max (commitIndex (log n)) (min c (LastIndex (log n)))"
    and "lastApplied (log (advance_commit c n)) = lastApplied (log n)"
    by (auto simp: max_def min_def)
qed

lemma log_trans_advance_commit: "log_trans\<^sup>*\<^sup>* (log n) (log (advance_commit c n))"
  by (auto simp: advance_commit_def Let_def split: sum.split intro: log_trans.commit)

lemma advances_advance_commit: "advances n (advance_commit c n)"
  using raft_log.run_committed_mono [OF log_trans_advance_commit] raft_log.run_committed_kept [OF log_trans_advance_commit]
  by (simp add: advances_def)

lemma node_log_ok_advance_commit:
  assumes "node_log_ok n"
  shows "node_log_ok (advance_commit c n)"
proof -
  have "log_ok (log (advance_commit c n))"
    using assms by (auto simp: advance_commit_def Let_def node_log_ok_def split: sum.split intro: log_ok_CommitTo)
  then show ?thesis
    using assms by (simp add: node_log_ok_def LastTerm_def)
qed

text \<open>The five ways through the handler on a started node.\<close>

lemma handleAppendEntries_cases:
  assumes "started n"
  defines "m \<equiv> \<lambda>e req. follow e (aq_Term req) (aq_LeaderID req) n"
  shows "handleAppendEntries e req n =
     (if aq_Term req < currentTerm n then Some (n, append_reply False 0 0 n)
      else if length (entries (log n)) \<le> unat (aq_PrevLogIndex req) \<and> aq_PrevLogIndex req > 0
      then Some (m e req, append_reply False 0 (LastIndex (log n) + 1) (m e req))
      else if aq_PrevLogIndex req > 0 \<and> le_Term (entries (log n) ! unat (aq_PrevLogIndex req)) \<noteq> aq_PrevLogTerm req
      then Some (m e req, append_reply False (le_Term (entries (log n) ! unat (aq_PrevLogIndex req)))
             (conflict_start (log n) (le_Term (entries (log n) ! unat (aq_PrevLogIndex req))) (aq_PrevLogIndex req)) (m e req))
      else do {
        (ok, n2) \<leftarrow> append_entries (aq_Entries req) (m e req);
        if \<not> ok then Some (n2, append_reply False 0 0 n2)
        else let n3 = advance_commit (aq_LeaderCommit req) n2 in Some (n3, append_reply True 0 0 n3) })"
  using assms by (auto simp: handleAppendEntries_def becomeFollower_eq GetEntry_def)

lemma handleAppendEntries_frame:
  assumes "handleAppendEntries e req n = Some (n', r)"
  shows "aq_Term req < currentTerm n \<and> n' = n \<and> \<not> ar_Success r \<or>
     started n \<and> \<not> aq_Term req < currentTerm n \<and>
     (n' = follow e (aq_Term req) (aq_LeaderID req) n \<and> \<not> ar_Success r \<or>
      (\<exists>ok n2. append_entries (aq_Entries req) (follow e (aq_Term req) (aq_LeaderID req) n) = Some (ok, n2) \<and>
         (aq_PrevLogIndex req > 0 \<longrightarrow> prev_match req (log n)) \<and> ar_Success r = ok \<and>
         n' = (if ok then advance_commit (aq_LeaderCommit req) n2 else n2)))"
proof (cases "aq_Term req < currentTerm n")
  case True
  then show ?thesis
    using assms by (auto simp: handleAppendEntries_def append_reply_def)
next
  case False
  then have "started n"
    using assms by (auto simp: handleAppendEntries_def becomeFollower_eq split: if_splits)
  then show ?thesis
    using assms False
    by (auto simp: handleAppendEntries_cases append_reply_def prev_match_def bind_eq_Some_conv Let_def not_le
        split: if_splits)
qed

lemma advances_handleAppendEntries:
  assumes "handleAppendEntries e req n = Some (n', r)"
  shows "advances n n'"
proof -
  have "advances n n2" if "append_entries es (follow e t ld n) = Some (ok, n2)" for es ok n2 t ld
    using advances_follow advances_log_frame [OF append_entries_frame [OF that]] by (rule advances_trans)
  then show ?thesis
    using handleAppendEntries_frame [OF assms]
    by (auto intro: advances_follow advances_trans [OF _ advances_advance_commit] split: if_splits)
qed

lemma node_log_ok_handleAppendEntries [wf_intros]:
  assumes "handleAppendEntries e req n = Some (n', r)" and "node_log_ok n" and "aq_wf req"
  shows "node_log_ok n'"
proof -
  let ?m = "follow e (aq_Term req) (aq_LeaderID req) n"
  have m: "node_log_ok ?m"
    using assms(2) by (rule node_log_ok_follow)
  have "aq_PrevLogIndex req = 0 \<Longrightarrow> prev_match req (log n)"
    using assms(2) log_ok_length by (auto simp: prev_match_def node_log_ok_def)
  then show ?thesis
    using handleAppendEntries_frame [OF assms(1)] assms(2,3) m node_log_ok_append_entries [of req ?m]
      node_log_ok_advance_commit
    by (fastforce simp: word_neq_0_conv split: if_splits)
qed

text \<open>
  The refinement of a request that passes the consistency check, on a node whose file mirrors
  its log.
\<close>

lemma handleAppendEntries_refines:
  assumes "started n" and ok: "node_log_ok n" and dur: "node_durable n" and wf: "aq_wf req"
    and tm: "currentTerm n \<le> aq_Term req" and prev: "prev_match req (log n)"
  defines "k \<equiv> Suc (unat (aq_PrevLogIndex req))"
  shows "if merge_safe k (aq_Entries req) (log n)
    then \<exists>n'. handleAppendEntries e req n = Some (n', append_reply True 0 0 n') \<and> node_durable n' \<and>
           currentTerm n' = aq_Term req \<and> state n' = Follower \<and> leaderID n' = aq_LeaderID req \<and>
           entries (log n') = merge_at k (aq_Entries req) (entries (log n)) \<and>
           commitIndex (log n') = max (commitIndex (log n)) (min (aq_LeaderCommit req) (LastIndex (log n')))
    else \<exists>n' j. handleAppendEntries e req n = Some (n', append_reply False 0 0 n') \<and> log n' = log n \<and>
           0 < j \<and> j \<le> unat (commitIndex (log n)) \<and>
           wal_durable (wal n') (currentTerm n', votedFor n', tl (take j (entries (log n))))"
proof -
  let ?m = "follow e (aq_Term req) (aq_LeaderID req) n"
  note pre = aq_wf_loop [OF wf, of "log ?m" k, unfolded follow_simps, OF prev meta_eq_to_obj_eq [OF k_def]]
  have ct: "currentTerm ?m = aq_Term req"
    using tm by (simp add: max_def)
  have handle: "handleAppendEntries e req n = do {
        (ok, n2) \<leftarrow> append_entries (aq_Entries req) ?m;
        if \<not> ok then Some (n2, append_reply False 0 0 n2)
        else let n3 = advance_commit (aq_LeaderCommit req) n2 in Some (n3, append_reply True 0 0 n3) }"
    using tm prev by (auto simp: handleAppendEntries_cases [OF assms(1)] prev_match_def)
  have out: "append_outcome k (aq_Entries req) ?m"
    using ok dur pre by (intro append_entries_refines) (auto simp: node_log_ok_def intro: node_durable_follow)
  show ?thesis
  proof (cases "merge_safe k (aq_Entries req) (log n)")
    case True
    then obtain w where run: "append_entries (aq_Entries req) ?m
          = Some (True, ?m\<lparr>wal := w, log := (log n)\<lparr>entries := merge_at k (aq_Entries req) (entries (log n))\<rparr>\<rparr>)"
        and w: "wal_durable w (currentTerm ?m, votedFor ?m, tl (merge_at k (aq_Entries req) (entries (log n))))"
      using out by (auto simp: append_outcome_def Let_def)
    let ?n2 = "?m\<lparr>wal := w, log := (log n)\<lparr>entries := merge_at k (aq_Entries req) (entries (log n))\<rparr>\<rparr>"
    have "node_log_ok ?n2"
      using run node_log_ok_follow [OF ok] wf prev ct by (intro node_log_ok_append_entries [OF run]) auto
    then have "commitIndex (log (advance_commit (aq_LeaderCommit req) ?n2))
        = max (commitIndex (log n)) (min (aq_LeaderCommit req) (LastIndex (log ?n2)))"
      using advance_commit_index(1) [of ?n2] by (simp add: node_log_ok_def)
    then show ?thesis
      using True run w ct by (auto simp: handle node_durable_def LastIndex_def Let_def)
  next
    case False
    then show ?thesis
      using out ct by (auto simp: handle append_outcome_def Let_def) blast+
  qed
qed

section \<open>Fast backtracking\<close>

text \<open>
  The reported index starts a run of entries with the conflicting term that reaches
  \<open>PrevLogIndex\<close> and cannot be extended to the left.
\<close>

lemma conflict_start_run:
  assumes "0 < unat i" and "unat i < length (entries l)" and "le_Term (entries l ! unat i) = ct"
  shows "0 < conflict_start l ct i \<and> conflict_start l ct i \<le> i \<and>
    (\<forall>j. unat (conflict_start l ct i) \<le> j \<and> j \<le> unat i \<longrightarrow> le_Term (entries l ! j) = ct) \<and>
    (conflict_start l ct i = 1 \<or> le_Term (entries l ! (unat (conflict_start l ct i) - 1)) \<noteq> ct)"
  using assms
proof (induction l ct i rule: conflict_start.induct)
  case (1 l ct i)
  show ?case
  proof (cases "i > 1 \<and> le_Term (entries l ! (unat i - 1)) = ct")
    case True
    then have i: "1 < unat i"
      by (simp add: u64_less_iff)
    then have p: "unat (i - 1) = unat i - 1"
      by (intro unat_u64_pred_pos) simp
    have get: "GetEntry (i - 1) l = Inr (entries l ! (unat i - 1))"
      using "1.prems" p by (simp add: GetEntry_def)
    then have step: "conflict_start l ct i = conflict_start l ct (i - 1)"
      using True by (subst conflict_start.simps) simp
    have IH: "0 < conflict_start l ct (i - 1) \<and> conflict_start l ct (i - 1) \<le> i - 1 \<and>
      (\<forall>j. unat (conflict_start l ct (i - 1)) \<le> j \<and> j \<le> unat (i - 1) \<longrightarrow> le_Term (entries l ! j) = ct) \<and>
      (conflict_start l ct (i - 1) = 1 \<or> le_Term (entries l ! (unat (conflict_start l ct (i - 1)) - 1)) \<noteq> ct)"
      using "1.prems" True p i by (intro "1.IH" [OF _ get]) auto
    have "le_Term (entries l ! j) = ct" if "unat (conflict_start l ct (i - 1)) \<le> j" "j \<le> unat i" for j
      using that IH "1.prems"(3) p by (cases "j = unat i") auto
    then show ?thesis
      using IH p unfolding step by (auto simp: u64_le_iff)
  next
    case False
    have "unat (i - 1) < length (entries l)"
      using "1.prems" unat_u64_pred_less [of i] by simp
    then have "conflict_start l ct i = i"
      using False "1.prems"(1)
      by (subst conflict_start.simps) (auto simp: GetEntry_def unat_u64_pred_pos u64_less_iff)
    then show ?thesis
      using False "1.prems" by (auto simp: u64_less_iff u64_eq_iff u64_le_iff le_antisym)
  qed
qed

section \<open>Commitment\<close>

text \<open>The \<open>q\<close>-th largest element of a list, read off the sorted list.\<close>

lemma sorted_nth_count:
  fixes ys :: "'a::linorder list"
  assumes "sorted ys" and "i < length ys"
  shows "v \<le> ys ! i \<longleftrightarrow> length ys - i \<le> length (filter (\<lambda>y. v \<le> y) ys)"
  using assms
proof (induction ys arbitrary: i)
  case (Cons y ys)
  show ?case
  proof (cases "v \<le> y")
    case True
    then have all: "\<forall>z \<in> set (y # ys). v \<le> z"
      using Cons.prems(1) by auto
    then have "v \<le> (y # ys) ! i"
      using nth_mem [OF Cons.prems(2)] by blast
    moreover have "filter (\<lambda>y. v \<le> y) (y # ys) = y # ys"
      using all by (intro filter_True)
    ultimately show ?thesis
      by simp
  next
    case False
    then show ?thesis
      using Cons by (cases i) (auto dest: order_trans [OF _ length_filter_le])
  qed
qed simp

lemma quorum_value:
  fixes xs :: "'a::linorder list"
  assumes "0 < q" and "q \<le> length xs"
  shows "v \<le> sort xs ! (length xs - q) \<longleftrightarrow> q \<le> length (filter (\<lambda>y. v \<le> y) xs)"
  using sorted_nth_count [of "sort xs" "length xs - q" v] assms by (simp add: filter_sort)

definition matchIndexes :: "RaftNode \<Rightarrow> u64 list" where
  "matchIndexes n = LastIndex (log n) # map (MatchIndex \<circ> snd) (peers n)"

text \<open>The members of the cluster, the leader included, that are known to have entry \<open>i\<close>.\<close>

definition replicated_on :: "u64 \<Rightarrow> RaftNode \<Rightarrow> string set" where
  "replicated_on i n = (if i \<le> LastIndex (log n) then {node_id n} else {}) \<union>
     fst ` {p \<in> set (peers n). i \<le> MatchIndex (snd p)}"

lemma card_replicated_on:
  assumes "peers_ok n"
  shows "card (replicated_on i n) = length (filter (\<lambda>y. i \<le> y) (matchIndexes n))"
proof -
  have d: "distinct (map fst (filter (\<lambda>p. i \<le> MatchIndex (snd p)) (peers n)))"
    using assms by (simp add: peers_ok_def distinct_map_filter)
  have "fst ` {p \<in> set (peers n). i \<le> MatchIndex (snd p)} = set (map fst (filter (\<lambda>p. i \<le> MatchIndex (snd p)) (peers n)))"
    by auto
  then have "card (fst ` {p \<in> set (peers n). i \<le> MatchIndex (snd p)}) = length (filter (\<lambda>p. i \<le> MatchIndex (snd p)) (peers n))"
    using distinct_card [OF d] by simp
  moreover have "node_id n \<notin> fst ` {p \<in> set (peers n). i \<le> MatchIndex (snd p)}"
    using assms by (auto simp: peers_ok_def)
  ultimately show ?thesis
    by (simp add: replicated_on_def matchIndexes_def filter_map comp_def)
qed

definition quorum_match :: "RaftNode \<Rightarrow> u64" where
  "quorum_match n = sort (matchIndexes n) ! (length (matchIndexes n) - quorum n)"

lemma length_matchIndexes: "quorum n \<le> length (matchIndexes n)" "0 < quorum n"
  using quorum_le [of n] quorum_bounds(3) [of n] by (simp_all add: matchIndexes_def)

lemma quorum_match_iff: "peers_ok n \<Longrightarrow> v \<le> quorum_match n \<longleftrightarrow> node_quorum n (replicated_on v n)"
proof -
  assume ok: "peers_ok n"
  have "replicated_on v n \<subseteq> cluster_ids n"
    by (auto simp: replicated_on_def cluster_ids_def)
  then show ?thesis
    using ok quorum_value [OF length_matchIndexes(2) [of n] length_matchIndexes(1), of v]
    by (simp add: quorum_match_def node_quorum_def card_replicated_on)
qed

definition can_commit :: "RaftNode \<Rightarrow> bool" where
  "can_commit n \<longleftrightarrow> state n = Leader \<and> commitIndex (log n) < quorum_match n \<and>
     unat (quorum_match n) < length (entries (log n)) \<and>
     le_Term (entries (log n) ! unat (quorum_match n)) = currentTerm n"

lemma maybeCommit_eq:
  "maybeCommit n = Some (if can_commit n
     then spawn GoApply (n\<lparr>log := (log n)\<lparr>commitIndex := quorum_match n\<rparr>\<rparr>) else n)"
proof (cases "state n = Leader")
  case True
  have "go_index (sort (matchIndexes n)) (length (matchIndexes n) - quorum n) = Some (quorum_match n)"
    using length_matchIndexes [of n] by (simp add: go_index_def quorum_match_def)
  moreover have "\<not> quorum n > length (matchIndexes n)"
    using length_matchIndexes [of n] by simp
  ultimately show ?thesis
    using True unfolding maybeCommit_def matchIndexes_def [symmetric] can_commit_def
    by (auto simp: CommitIndex_def GetEntry_def CommitTo_def Let_def not_le not_less split: sum.split)
qed (simp add: maybeCommit_def can_commit_def)

lemma maybeCommit_total: "\<exists>n'. maybeCommit n = Some n'"
  by (simp add: maybeCommit_eq)

lemma maybeCommit_frame:
  assumes "maybeCommit n = Some n'"
  shows "node_id n' = node_id n" "currentTerm n' = currentTerm n" "votedFor n' = votedFor n" "state n' = state n"
    "peers n' = peers n" "wal n' = wal n" "entries (log n') = entries (log n)" "lastApplied (log n') = lastApplied (log n)"
    "commitIndex (log n) \<le> commitIndex (log n')" "electionTimer n' = electionTimer n" "config n' = config n"
    "results n' = results n" "proposals n' = proposals n" "leaderID n' = leaderID n" "stopped n' = stopped n"
  using assms by (auto simp: maybeCommit_eq can_commit_def split: if_splits)

lemma node_log_ok_maybeCommit [wf_intros]:
  assumes "maybeCommit n = Some n'" and "node_log_ok n"
  shows "node_log_ok n'"
proof -
  have "unat (commitIndex (log n')) < length (entries (log n))"
    using assms by (auto simp: maybeCommit_eq can_commit_def node_log_ok_def log_ok_def split: if_splits)
  then show ?thesis
    using assms(2) maybeCommit_frame [OF assms(1)]
    by (auto simp: node_log_ok_def log_ok_def LastTerm_def intro: order_trans)
qed

lemma node_durable_maybeCommit [wf_intros]:
  "maybeCommit n = Some n' \<Longrightarrow> node_durable n \<Longrightarrow> node_durable n'"
  by (simp add: node_durable_def maybeCommit_frame)

lemma advances_maybeCommit:
  assumes "maybeCommit n = Some n'"
  shows "advances n n'"
  using maybeCommit_frame [OF assms] by (auto simp: advances_def started_def committed_len_def u64_le_iff)

text \<open>
  A leader commits an index only when an entry of its own term at that index is on a quorum,
  and it commits the highest such index.
\<close>

lemma maybeCommit_sound:
  assumes "maybeCommit n = Some n'" and "peers_ok n" and "node_log_ok n" and "commitIndex (log n') \<noteq> commitIndex (log n)"
  shows "state n = Leader \<and> commitIndex (log n) < commitIndex (log n') \<and> node_quorum n (replicated_on (commitIndex (log n')) n)
     \<and> unat (commitIndex (log n')) < length (entries (log n))
     \<and> le_Term (entries (log n) ! unat (commitIndex (log n'))) = currentTerm n"
  using assms quorum_match_iff [OF assms(2), of "quorum_match n"]
  by (auto simp: maybeCommit_eq can_commit_def split: if_splits)

lemma quorum_match_le_LastIndex:
  assumes "peers_ok n" and "\<forall>p \<in> set (peers n). MatchIndex (snd p) \<le> LastIndex (log n)"
  shows "quorum_match n \<le> LastIndex (log n)"
proof -
  have "replicated_on (quorum_match n) n \<noteq> {}"
    using quorum_match_iff [OF assms(1), of "quorum_match n"] node_q.quorum_nonempty by blast
  then show ?thesis
    using assms(2) by (auto simp: replicated_on_def split: if_splits intro: order_trans)
qed

lemma maybeCommit_complete:
  assumes run: "maybeCommit n = Some n'" and ldr: "state n = Leader" and ok: "node_log_ok n" "peers_ok n"
    and match: "\<forall>p \<in> set (peers n). MatchIndex (snd p) \<le> LastIndex (log n)"
    and quorum: "node_quorum n (replicated_on i n)" and i: "unat i < length (entries (log n))"
    and tm: "le_Term (entries (log n) ! unat i) = currentTerm n"
  shows "i \<le> commitIndex (log n')"
proof -
  let ?q = "quorum_match n" and ?es = "entries (log n)"
  have log: "log_ok (log n)"
    using ok(1) by (simp add: node_log_ok_def)
  have iq: "i \<le> ?q"
    using quorum quorum_match_iff [OF ok(2)] by simp
  have q: "unat ?q < length ?es"
    using quorum_match_le_LastIndex [OF ok(2) match] le_LastIndex_iff [OF log] by simp
  have "map le_Term ?es ! unat i \<le> map le_Term ?es ! unat ?q"
    using iq q ok(1) by (intro sorted_nth_mono) (auto simp: node_log_ok_def u64_le_iff)
  then have "le_Term (?es ! unat ?q) = currentTerm n"
    using tm i q node_log_ok_terms [OF ok(1), of "?es ! unat ?q"] by simp
  then show ?thesis
    using run iq q ldr by (auto simp: maybeCommit_eq can_commit_def split: if_splits intro: order_trans)
qed

section \<open>The leader's view of its peers\<close>

lemma set_peer_simps [simp]:
  "node_id (set_peer p x n) = node_id n" "config (set_peer p x n) = config n" "currentTerm (set_peer p x n) = currentTerm n"
  "votedFor (set_peer p x n) = votedFor n" "state (set_peer p x n) = state n" "log (set_peer p x n) = log n"
  "wal (set_peer p x n) = wal n" "electionTimer (set_peer p x n) = electionTimer n" "leaderID (set_peer p x n) = leaderID n"
  "results (set_peer p x n) = results n" "proposals (set_peer p x n) = proposals n" "stopped (set_peer p x n) = stopped n"
  "peers (set_peer p x n) = AList.update p x (peers n)"
  by (simp_all add: set_peer_def)

lemma keys_update_present: "map_of m k = Some v \<Longrightarrow> map fst (AList.update k w m) = map fst m"
  by (induction m) (auto split: if_splits)

lemma advances_set_peer: "map_of (peers n) p = Some x \<Longrightarrow> advances n (set_peer p y n)"
  by (simp add: advances_def started_def keys_update_present)

lemma replicateTo_finish_cases:
  assumes "replicateTo_finish e p req resp n = Some n'"
  shows "n' = n \<or> n' = follow e (ar_Term resp) '''' n \<or>
     (\<exists>x y. map_of (peers n) p = Some x \<and> (n' = set_peer p y n \<or> maybeCommit (set_peer p y n) = Some n'))"
  using assms
  by (auto simp: replicateTo_finish_def becomeFollower_eq bind_eq_Some_conv Let_def split: if_splits)

lemma advances_replicateTo_finish:
  assumes "replicateTo_finish e p req resp n = Some n'"
  shows "advances n n'"
  using replicateTo_finish_cases [OF assms]
  by (auto intro: advances_follow advances_set_peer advances_trans [OF advances_set_peer advances_maybeCommit])

lemma node_log_ok_set_peer [simp]: "node_log_ok (set_peer p x n) = node_log_ok n"
  by (simp add: node_log_ok_def)

lemma node_durable_set_peer [simp]: "node_durable (set_peer p x n) = node_durable n"
  by (simp add: node_durable_def)

lemma node_log_ok_replicateTo_finish [wf_intros]:
  "replicateTo_finish e p req resp n = Some n' \<Longrightarrow> node_log_ok n \<Longrightarrow> node_log_ok n'"
  by (drule replicateTo_finish_cases) (auto intro: node_log_ok_follow node_log_ok_maybeCommit)

lemma node_durable_replicateTo_finish [wf_intros]:
  "replicateTo_finish e p req resp n = Some n' \<Longrightarrow> node_durable n \<Longrightarrow> node_durable n'"
  by (drule replicateTo_finish_cases) (auto intro: node_durable_follow node_durable_maybeCommit)

text \<open>A success raises \<open>MatchIndex\<close> to the end of the request and never lowers it.\<close>

lemma replicateTo_finish_success:
  assumes "state n = Leader" and "currentTerm n = aq_Term req" and "\<not> ar_Term resp > currentTerm n"
    and "ar_Success resp" and "map_of (peers n) p = Some x"
  defines "m \<equiv> max (MatchIndex x) (aq_PrevLogIndex req + word_of_nat (length (aq_Entries req)))"
  obtains n' where "replicateTo_finish e p req resp n = Some n'"
    and "map_of (peers n') p = Some (x\<lparr>MatchIndex := m, NextIndex := m + 1\<rparr>)"
proof -
  have m: "(if aq_PrevLogIndex req + word_of_nat (length (aq_Entries req)) > MatchIndex x
      then aq_PrevLogIndex req + word_of_nat (length (aq_Entries req)) else MatchIndex x) = m"
    by (auto simp: m_def max_def)
  obtain n' where n': "maybeCommit (set_peer p (x\<lparr>MatchIndex := m, NextIndex := m + 1\<rparr>) n) = Some n'"
    using maybeCommit_total by blast
  show thesis
    using assms(1-5) m n' maybeCommit_frame(5) [OF n']
    by (intro that [of n']) (auto simp: replicateTo_finish_def Let_def update_conv)
qed

section \<open>Backing up after a rejection\<close>

lemma find_last_term_absent:
  assumes "unat i < length (entries l)" and "\<forall>j. 0 < j \<and> j \<le> unat i \<longrightarrow> le_Term (entries l ! j) \<noteq> ct"
  shows "find_last_term l ct d i = d"
  using assms
proof (induction l ct d i rule: find_last_term.induct)
  case (1 l ct d i)
  show ?case
  proof (cases "i \<ge> 1")
    case True
    then have i: "0 < unat i" by (simp add: u64_le_iff)
    have get: "GetEntry i l = Inr (entries l ! unat i)"
      using "1.prems" by (simp add: GetEntry_def)
    have "find_last_term l ct d (i - 1) = d"
      using "1.prems" i unat_u64_pred_less [of i] by (intro "1.IH" [OF True get]) auto
    then show ?thesis
      using True get "1.prems" i by (subst find_last_term.simps) auto
  qed (subst find_last_term.simps, simp)
qed

lemma find_last_term_present:
  assumes "unat i < length (entries l)" and "0 < j" and "j \<le> unat i" and "le_Term (entries l ! j) = ct"
    and "\<forall>k. j < k \<and> k \<le> unat i \<longrightarrow> le_Term (entries l ! k) \<noteq> ct"
  shows "find_last_term l ct d i = word_of_nat j + 1"
  using assms
proof (induction l ct d i rule: find_last_term.induct)
  case (1 l ct d i)
  have i: "i \<ge> 1" "0 < unat i"
    using "1.prems" by (auto simp: u64_le_iff)
  have get: "GetEntry i l = Inr (entries l ! unat i)"
    using "1.prems" by (simp add: GetEntry_def)
  show ?case
  proof (cases "j = unat i")
    case True
    then show ?thesis
      using i get "1.prems" by (subst find_last_term.simps) auto
  next
    case False
    then have "find_last_term l ct d (i - 1) = word_of_nat j + 1"
      using "1.prems" i unat_u64_pred_pos [of i] by (intro "1.IH" [OF i(1) get]) auto
    then show ?thesis
      using False i get "1.prems" by (subst find_last_term.simps) auto
  qed
qed

lemma backtrack_present:
  assumes "log_ok l" and "ar_ConflictTerm resp > 0" and "0 < j" and "j < length (entries l)"
    and "le_Term (entries l ! j) = ar_ConflictTerm resp"
    and "\<forall>k. j < k \<and> k < length (entries l) \<longrightarrow> le_Term (entries l ! k) \<noteq> ar_ConflictTerm resp"
  shows "backtrack resp l = word_of_nat j + 1"
proof -
  have "find_last_term l (ar_ConflictTerm resp) (ar_ConflictTerm resp) (LastIndex l) = word_of_nat j + 1"
    using assms unat_LastIndex [OF assms(1)] by (intro find_last_term_present) auto
  moreover have "unat (word_of_nat j + 1 :: u64) = Suc j"
    using assms(4) log_ok_length [OF assms(1)] unat_word_of_nat_u64 [of "Suc j"] by (simp add: add.commute)
  ultimately show ?thesis
    using assms(2) by (simp add: backtrack_def Let_def u64_less_iff)
qed

lemma backtrack_absent:
  assumes "log_ok l" and "ar_ConflictTerm resp > 0"
    and "\<forall>k. 0 < k \<and> k < length (entries l) \<longrightarrow> le_Term (entries l ! k) \<noteq> ar_ConflictTerm resp"
  shows "backtrack resp l = ar_ConflictTerm resp"
proof -
  have "find_last_term l (ar_ConflictTerm resp) (ar_ConflictTerm resp) (LastIndex l) = ar_ConflictTerm resp"
    using assms unat_LastIndex [OF assms(1)] log_ok_length [OF assms(1)] by (intro find_last_term_absent) auto
  then show ?thesis
    using assms(2) by (auto simp: backtrack_def Let_def u64_less_iff)
qed

section \<open>Applying\<close>

lemma collect_upt:
  assumes "b \<le> length (entries l)" and "b < 2 ^ 64"
  shows "collect (map word_of_nat [a..<b]) l = map ((!) (entries l)) [a..<b]"
  using assms
proof (induction "b - a" arbitrary: a)
  case (Suc d)
  then have "[a..<b] = a # [Suc a..<b]"
    by (simp add: upt_conv_Cons)
  then show ?case
    using Suc by (simp add: GetEntry_def)
qed simp

lemma apply_collect_eq:
  assumes "log_ok (log n)"
  shows "apply_collect n = drop (Suc (unat (lastApplied (log n)))) (take (Suc (unat (commitIndex (log n)))) (entries (log n)))"
proof -
  let ?a = "Suc (unat (lastApplied (log n)))" and ?b = "Suc (unat (commitIndex (log n)))"
  have b: "?b \<le> length (entries (log n))" "?b < 2 ^ 64"
    using assms by (auto simp: log_ok_def)
  have "map ((!) (entries (log n))) [?a..<?b] = drop ?a (take ?b (entries (log n)))"
    using b(1) by (intro nth_equalityI) (auto simp del: upt_Suc)
  then show ?thesis
    using collect_upt [OF b, of ?a] b
    by (auto simp: apply_collect_def CommitIndex_def LastApplied_def Let_def u64_le_iff simp del: upt_Suc)
qed

lemma notifyProposal_simps [simp]:
  "node_id (notifyProposal i r n) = node_id n" "config (notifyProposal i r n) = config n"
  "currentTerm (notifyProposal i r n) = currentTerm n" "votedFor (notifyProposal i r n) = votedFor n"
  "state (notifyProposal i r n) = state n" "log (notifyProposal i r n) = log n" "wal (notifyProposal i r n) = wal n"
  "peers (notifyProposal i r n) = peers n" "commitCh (notifyProposal i r n) = commitCh n"
  "electionTimer (notifyProposal i r n) = electionTimer n" "stopped (notifyProposal i r n) = stopped n"
  "leaderID (notifyProposal i r n) = leaderID n"
  by (auto simp: notifyProposal_def split: option.split)

lemma apply_send_simps [simp]:
  "node_id (apply_send x n) = node_id n" "currentTerm (apply_send x n) = currentTerm n" "votedFor (apply_send x n) = votedFor n"
  "log (apply_send x n) = log n" "wal (apply_send x n) = wal n" "peers (apply_send x n) = peers n"
  "commitCh (apply_send x n) = commitCh n @ [x]" "electionTimer (apply_send x n) = electionTimer n"
  "config (apply_send x n) = config n"
  by (simp_all add: apply_send_def)

lemma apply_mark_simps [simp]:
  "node_id (apply_mark x n) = node_id n" "currentTerm (apply_mark x n) = currentTerm n" "votedFor (apply_mark x n) = votedFor n"
  "wal (apply_mark x n) = wal n" "peers (apply_mark x n) = peers n" "commitCh (apply_mark x n) = commitCh n"
  "log (apply_mark x n) = SetLastApplied (le_Index x) (log n)" "electionTimer (apply_mark x n) = electionTimer n"
  "config (apply_mark x n) = config n"
  by (simp_all add: apply_mark_def)

lemma SetLastApplied_simps [simp]:
  "entries (SetLastApplied i l) = entries l" "commitIndex (SetLastApplied i l) = commitIndex l"
  "lastApplied (SetLastApplied i l) = i"
  by (simp_all add: SetLastApplied_def)

lemma advances_apply_mark: "advances n (apply_mark x n)"
  by (simp add: advances_def started_def committed_len_def)

lemma advances_apply_send: "advances n (apply_send x n)"
  by (simp add: advances_def started_def)

text \<open>With room in the channel the loop delivers everything it collected, in order.\<close>

lemma apply_loop_delivers:
  "length (commitCh n) + length es \<le> commitCh_cap \<Longrightarrow>
   \<exists>n'. apply_loop es n = ([], n') \<and> commitCh n' = commitCh n @ es \<and> entries (log n') = entries (log n) \<and>
     commitIndex (log n') = commitIndex (log n) \<and> node_id n' = node_id n \<and> currentTerm n' = currentTerm n \<and>
     votedFor n' = votedFor n \<and> wal n' = wal n \<and>
     lastApplied (log n') = (if es = [] then lastApplied (log n) else le_Index (last es))"
proof (induction es arbitrary: n)
  case (Cons x es)
  then show ?case
    using Cons.IH [of "apply_mark x (apply_send x n)"] by (auto simp: apply_can_send_def)
qed simp

lemma applyCommitted_delivers:
  assumes "log_ok (log n)" and "length (commitCh n) + (unat (commitIndex (log n)) - unat (lastApplied (log n))) \<le> commitCh_cap"
  obtains n' where "applyCommitted n = ([], n')"
    and "commitCh n' = commitCh n @ drop (Suc (unat (lastApplied (log n)))) (take (Suc (unat (commitIndex (log n)))) (entries (log n)))"
    and "lastApplied (log n') = commitIndex (log n)" and "commitIndex (log n') = commitIndex (log n)"
    and "entries (log n') = entries (log n)"
proof -
  let ?l = "log n"
  let ?es = "apply_collect n"
  have len: "length ?es = unat (commitIndex ?l) - unat (lastApplied ?l)"
    using assms(1) by (auto simp: apply_collect_eq log_ok_def u64_le_iff)
  have "lastApplied ?l = commitIndex ?l" if "?es = []"
    using that len assms(1) by (simp add: log_ok_def u64_le_iff u64_eq_iff)
  moreover have "le_Index (last ?es) = commitIndex ?l" if "?es \<noteq> []"
  proof -
    have "last ?es = entries ?l ! unat (commitIndex ?l)"
      using that assms(1) len by (simp add: apply_collect_eq last_conv_nth log_ok_def) 
    then show ?thesis
      using entry_Index [OF assms(1), of "unat (commitIndex ?l)"] assms(1) by (simp add: log_ok_def)
  qed
  ultimately show thesis
    using apply_loop_delivers [of n ?es] assms(2) len that
    by (auto simp: applyCommitted_def apply_collect_eq [OF assms(1), symmetric])
qed

section \<open>Properties of replication\<close>

text \<open>
  C5. Refinement of the append handler. A well-formed request of a current leader that passes
  the consistency check and contradicts no committed entry is accepted: the follower's log
  becomes the merge of its old log with the leader's entries, its file mirrors the new log, it
  follows the sender in the sender's term, and its commit index becomes the leader's, limited
  to its own last entry, and never smaller than before.
\<close>

theorem append_entries_accepted:
  assumes "started n" and "node_log_ok n" and "node_durable n" and "aq_wf req" and "currentTerm n \<le> aq_Term req"
    and "prev_match req (log n)" and "merge_safe (Suc (unat (aq_PrevLogIndex req))) (aq_Entries req) (log n)"
  shows "\<exists>n'. handleAppendEntries e req n = Some (n', append_reply True 0 0 n') \<and> node_durable n' \<and>
     currentTerm n' = aq_Term req \<and> state n' = Follower \<and> leaderID n' = aq_LeaderID req \<and>
     entries (log n') = merge_at (Suc (unat (aq_PrevLogIndex req))) (aq_Entries req) (entries (log n)) \<and>
     commitIndex (log n') = max (commitIndex (log n)) (min (aq_LeaderCommit req) (LastIndex (log n')))"
  using handleAppendEntries_refines [OF assms(1-6), of e] assms(7) by simp

definition sample_append :: AppendEntriesRequest where
  "sample_append = \<lparr>aq_Term = 3, aq_LeaderID = ''a'', aq_PrevLogIndex = 0, aq_PrevLogTerm = 0, aq_Entries = [sample_entry],
     aq_LeaderCommit = 1\<rparr>"

lemma sample_append_wf: "aq_wf sample_append"
  by (simp add: aq_wf_def sample_append_def sample_entry_def EntryNormal_def word_le_nat_alt)

theorem append_entries_accepted_witness:
  "\<exists>n n'. log n = NewRaftLog \<and> handleAppendEntries sample_env sample_append n = Some (n', append_reply True 0 0 n') \<and>
     node_durable n' \<and> entries (log n') = merge_at (Suc (unat (aq_PrevLogIndex sample_append))) (aq_Entries sample_append) (entries (log n))"
proof -
  obtain n where n: "started n" "node_log_ok n" "node_durable n" "currentTerm n = 0" "log n = NewRaftLog"
    using sample_voter by metis
  have pre: "currentTerm n \<le> aq_Term sample_append" "prev_match sample_append (log n)"
      "merge_safe (Suc (unat (aq_PrevLogIndex sample_append))) (aq_Entries sample_append) (log n)"
    by (simp_all add: n(4,5) prev_match_def sample_append_def NewRaftLog_def merge_safe_def merge_at_def)
  from append_entries_accepted [OF n(1-3) sample_append_wf pre, of sample_env] n(5) show ?thesis
    by blast
qed

lemma merge_at_idem: "k \<le> length old \<Longrightarrow> merge_at k es (merge_at k es old) = merge_at k es old"
  by (simp add: merge_at_def merge_tail_idem)

lemma merge_at_term:
  assumes "k \<le> length old" and "j < length es"
  shows "k + j < length (merge_at k es old)" and "le_Term (merge_at k es old ! (k + j)) = le_Term (es ! j)"
proof -
  let ?t = "merge_tail (drop k old) es"
  have pre: "map le_Term (take (length es) ?t) = map le_Term es"
    by (rule merge_tail_prefix)
  then have len: "length es \<le> length ?t"
    by (metis length_map length_take min.cobounded1)
  then show "k + j < length (merge_at k es old)"
    using assms by (simp add: merge_at_def)
  have "le_Term (?t ! j) = le_Term (es ! j)"
    using arg_cong [OF pre, of "\<lambda>xs. xs ! j"] assms(2) len by simp
  then show "le_Term (merge_at k es old ! (k + j)) = le_Term (es ! j)"
    using assms(1) by (simp add: merge_at_def nth_append)
qed

text \<open>
  After an accepted request the follower has, at every position of the request, an entry
  with the leader's term; the same request delivered a second time is accepted again and
  changes neither the log nor the commit index.
\<close>

theorem append_entries_idempotent:
  assumes "started n" and "node_log_ok n" and "node_durable n" and "aq_wf req" and "currentTerm n \<le> aq_Term req"
    and "prev_match req (log n)" and "merge_safe (Suc (unat (aq_PrevLogIndex req))) (aq_Entries req) (log n)"
    and "handleAppendEntries e req n = Some (n1, r1)"
  shows "(\<forall>j < length (aq_Entries req). le_Term (entries (log n1) ! (Suc (unat (aq_PrevLogIndex req)) + j)) = le_Term (aq_Entries req ! j)) \<and>
     (\<exists>n2. handleAppendEntries e' req n1 = Some (n2, append_reply True 0 0 n2) \<and>
        entries (log n2) = entries (log n1) \<and> commitIndex (log n2) = commitIndex (log n1))"
proof -
  let ?k = "Suc (unat (aq_PrevLogIndex req))" and ?es = "aq_Entries req"
  have k: "?k \<le> length (entries (log n))"
    using assms(6) by (simp add: prev_match_def)
  have n1: "node_durable n1" "currentTerm n1 = aq_Term req" "entries (log n1) = merge_at ?k ?es (entries (log n))"
      "commitIndex (log n1) = max (commitIndex (log n)) (min (aq_LeaderCommit req) (LastIndex (log n1)))"
    using handleAppendEntries_refines [OF assms(1-6), of e] assms(7,8) by auto
  have prev: "prev_match req (log n1)"
    using assms(6) k by (auto simp: prev_match_def n1(3) merge_at_def nth_append)
  have same: "merge_at ?k ?es (entries (log n1)) = entries (log n1)"
    using merge_at_idem [OF k] by (simp add: n1(3))
  have "started n1" "node_log_ok n1"
    using advances_handleAppendEntries [OF assms(8)] node_log_ok_handleAppendEntries [OF assms(8,2,4)] assms(1)
    by (auto simp: advances_def)
  from handleAppendEntries_refines [OF this n1(1) assms(4) _ prev, of e']
  obtain n2 where n2: "handleAppendEntries e' req n1 = Some (n2, append_reply True 0 0 n2)" "entries (log n2) = entries (log n1)"
      "commitIndex (log n2) = max (commitIndex (log n1)) (min (aq_LeaderCommit req) (LastIndex (log n2)))"
    using n1(2) by (auto simp: merge_safe_def same)
  have "LastIndex (log n2) = LastIndex (log n1)"
    using n2(2) by (simp add: LastIndex_def)
  then have "commitIndex (log n2) = commitIndex (log n1)"
    unfolding n2(3) by (subst (2) n1(4), subst (1) n1(4)) (simp add: max.assoc)
  then show ?thesis
    using n2 merge_at_term(2) [OF k] by (auto simp: n1(3))
qed

lemma sample_append_pre:
  obtains n where "started n" and "node_log_ok n" and "node_durable n" and "currentTerm n \<le> aq_Term sample_append"
    and "prev_match sample_append (log n)" and "log n = NewRaftLog"
    and "merge_safe (Suc (unat (aq_PrevLogIndex sample_append))) (aq_Entries sample_append) (log n)"
proof -
  obtain n where "started n" "node_log_ok n" "node_durable n" "currentTerm n = 0" "log n = NewRaftLog"
    using sample_voter by metis
  then show thesis
    by (intro that [of n]) (simp_all add: prev_match_def sample_append_def NewRaftLog_def merge_safe_def merge_at_def)
qed

theorem append_entries_idempotent_witness:
  "\<exists>n1 n2. handleAppendEntries sample_env sample_append n1 = Some (n2, append_reply True 0 0 n2) \<and>
     le_Term (entries (log n1) ! (Suc (unat (aq_PrevLogIndex sample_append)) + 0)) = le_Term (aq_Entries sample_append ! 0) \<and>
     entries (log n2) = entries (log n1) \<and> commitIndex (log n2) = commitIndex (log n1)"
proof -
  obtain n where n: "started n" "node_log_ok n" "node_durable n" "currentTerm n \<le> aq_Term sample_append"
      "prev_match sample_append (log n)" "merge_safe (Suc (unat (aq_PrevLogIndex sample_append))) (aq_Entries sample_append) (log n)"
    using sample_append_pre by metis
  obtain n1 r where run: "handleAppendEntries sample_env sample_append n = Some (n1, r)"
    using handleAppendEntries_refines [OF n(1-3) sample_append_wf n(4,5), of sample_env] n(6) by auto
  have "0 < length (aq_Entries sample_append)"
    by (simp add: sample_append_def)
  with append_entries_idempotent [OF n(1-3) sample_append_wf n(4-6) run, of sample_env] show ?thesis
    by blast
qed

text \<open>The entries from \<open>a\<close> to \<open>b\<close> have term \<open>t\<close>, and the one before \<open>a\<close>, if there is one, has not.\<close>

definition term_run :: "RaftLog \<Rightarrow> u64 \<Rightarrow> u64 \<Rightarrow> u64 \<Rightarrow> bool" where
  "term_run l t a b \<longleftrightarrow> 0 < a \<and> a \<le> b \<and> (\<forall>j \<in> {unat a..unat b}. le_Term (entries l ! j) = t) \<and>
     (a = 1 \<or> le_Term (entries l ! (unat a - 1)) \<noteq> t)"

lemma term_run_conflict_start:
  assumes "0 < unat i" and "unat i < length (entries l)"
  shows "term_run l (le_Term (entries l ! unat i)) (conflict_start l (le_Term (entries l ! unat i)) i) i"
  using conflict_start_run [OF assms refl] unfolding term_run_def Ball_def atLeastAtMost_iff by blast

text \<open>
  A request whose \<open>PrevLogIndex\<close> lies beyond the follower's log is answered with the
  follower's last index plus one; one whose \<open>PrevLogTerm\<close> differs is answered with the
  follower's term there and the first index of the run of entries of that term, found by a
  loop that ends. In both cases the follower's log and file keep their entries.
\<close>

theorem append_conflict_hint:
  assumes "started n" and "node_log_ok n" and "currentTerm n \<le> aq_Term req" and "0 < aq_PrevLogIndex req"
    and "\<not> prev_match req (log n)"
  shows "\<exists>n' r. handleAppendEntries e req n = Some (n', r) \<and> \<not> ar_Success r \<and> log n' = log n \<and>
     (if aq_PrevLogIndex req > LastIndex (log n)
      then ar_ConflictTerm r = 0 \<and> ar_ConflictIndex r = LastIndex (log n) + 1
      else ar_ConflictTerm r = le_Term (entries (log n) ! unat (aq_PrevLogIndex req)) \<and>
        term_run (log n) (ar_ConflictTerm r) (ar_ConflictIndex r) (aq_PrevLogIndex req))"
proof -
  let ?i = "aq_PrevLogIndex req" and ?l = "log n" and ?m = "follow e (aq_Term req) (aq_LeaderID req) n"
  have ok: "log_ok ?l"
    using assms(2) by (simp add: node_log_ok_def)
  have beyond: "?i > LastIndex ?l \<longleftrightarrow> length (entries ?l) \<le> unat ?i"
    using le_LastIndex_iff [OF ok, of ?i] by auto
  have pos: "0 < unat ?i"
    using assms(4) by (simp add: u64_less_iff)
  show ?thesis
  proof (cases "?i > LastIndex ?l")
    case True
    then have "handleAppendEntries e req n = Some (?m, append_reply False 0 (LastIndex ?l + 1) ?m)"
      using assms(1,3,4) beyond by (simp add: handleAppendEntries_cases leD)
    then show ?thesis
      using True by (simp add: append_reply_def)
  next
    case False
    let ?t = "le_Term (entries ?l ! unat ?i)"
    have "handleAppendEntries e req n = Some (?m, append_reply False ?t (conflict_start ?l ?t ?i) ?m)"
      using assms False beyond by (auto simp: handleAppendEntries_cases prev_match_def)
    then show ?thesis
      using False beyond term_run_conflict_start [OF pos, of ?l] by (simp add: append_reply_def)
  qed
qed

theorem append_conflict_hint_witness:
  "\<exists>n n' r. log n = NewRaftLog \<and> handleAppendEntries sample_env (sample_append\<lparr>aq_PrevLogIndex := 4\<rparr>) n = Some (n', r) \<and>
     \<not> ar_Success r \<and> log n' = log n"
proof -
  obtain n where n: "started n" "node_log_ok n" "currentTerm n \<le> aq_Term sample_append" "log n = NewRaftLog"
    using sample_append_pre by metis
  let ?req = "sample_append\<lparr>aq_PrevLogIndex := 4\<rparr>"
  have "currentTerm n \<le> aq_Term ?req" "0 < aq_PrevLogIndex ?req" "\<not> prev_match ?req (log n)"
    using n(3) by (simp_all add: prev_match_def n(4) NewRaftLog_def)
  from append_conflict_hint [OF n(1,2) this, of sample_env] n(4) show ?thesis
    by blast
qed

text \<open>
  C20. A request that contradicts a committed entry is refused and the log in memory stays as it
  was, but the file has been cut below the commit index by then: after the refusal the file
  holds fewer entries than the node has committed.
\<close>

theorem append_refused_cuts_file:
  assumes "started n" and "node_log_ok n" and "node_durable n" and "aq_wf req" and "currentTerm n \<le> aq_Term req"
    and "prev_match req (log n)" and "\<not> merge_safe (Suc (unat (aq_PrevLogIndex req))) (aq_Entries req) (log n)"
  shows "\<exists>n' es. handleAppendEntries e req n = Some (n', append_reply False 0 0 n') \<and> log n' = log n \<and>
     wal_durable (wal n') (currentTerm n', votedFor n', es) \<and> length es < unat (commitIndex (log n))"
proof -
  obtain n' j where "handleAppendEntries e req n = Some (n', append_reply False 0 0 n')" "log n' = log n"
      "0 < j" "j \<le> unat (commitIndex (log n))" "wal_durable (wal n') (currentTerm n', votedFor n', tl (take j (entries (log n))))"
    using handleAppendEntries_refines [OF assms(1-6), of e] assms(7) by auto
  moreover have "length (tl (take j (entries (log n)))) < unat (commitIndex (log n))"
  proof -
    have "length (tl (take j (entries (log n)))) \<le> j - 1" by simp
    then show ?thesis
      using \<open>0 < j\<close> \<open>j \<le> unat (commitIndex (log n))\<close> by linarith
  qed
  ultimately show ?thesis by blast
qed

lemma sample_committed:
  obtains n where "started n" and "node_log_ok n" and "node_durable n" and "currentTerm n = 3"
    and "entries (log n) = [sentinel, sample_entry]" and "commitIndex (log n) = 1" and "state n = Follower"
proof -
  obtain n where n: "started n" "node_log_ok n" "node_durable n" "currentTerm n \<le> aq_Term sample_append"
      "prev_match sample_append (log n)" "log n = NewRaftLog"
      "merge_safe (Suc (unat (aq_PrevLogIndex sample_append))) (aq_Entries sample_append) (log n)"
    using sample_append_pre by metis
  obtain m where m: "handleAppendEntries sample_env sample_append n = Some (m, append_reply True 0 0 m)" "node_durable m"
      "currentTerm m = aq_Term sample_append" "state m = Follower"
      "entries (log m) = merge_at (Suc (unat (aq_PrevLogIndex sample_append))) (aq_Entries sample_append) (entries (log n))"
      "commitIndex (log m) = max (commitIndex (log n)) (min (aq_LeaderCommit sample_append) (LastIndex (log m)))"
    using handleAppendEntries_refines [OF n(1-3) sample_append_wf n(4,5), of sample_env] n(7) by auto
  have es: "entries (log m) = [sentinel, sample_entry]"
    by (simp add: m(5) n(6) NewRaftLog_def sample_append_def merge_at_def)
  then have "commitIndex (log m) = 1"
    unfolding m(6) by (simp add: n(6) NewRaftLog_def sample_append_def LastIndex_def sample_entry_def)
  moreover have "started m" "node_log_ok m"
    using advances_handleAppendEntries [OF m(1)] node_log_ok_handleAppendEntries [OF m(1) n(2) sample_append_wf] n(1)
    by (auto simp: advances_def)
  ultimately show thesis
    using m es by (intro that [of m]) (auto simp: sample_append_def)
qed

theorem append_refused_cuts_file_witness:
  "\<exists>n req n' es. commitIndex (log n) = 1 \<and> handleAppendEntries sample_env req n = Some (n', append_reply False 0 0 n') \<and>
     log n' = log n \<and> wal_durable (wal n') (currentTerm n', votedFor n', es) \<and> length es < unat (commitIndex (log n))"
proof -
  obtain n where n: "started n" "node_log_ok n" "node_durable n" "currentTerm n = 3"
      "entries (log n) = [sentinel, sample_entry]" "commitIndex (log n) = 1"
    using sample_committed by metis
  let ?req = "sample_append\<lparr>aq_Entries := [sample_entry\<lparr>le_Term := 2\<rparr>]\<rparr>"
  have wf: "aq_wf ?req"
    by (simp add: aq_wf_def sample_append_def sample_entry_def EntryNormal_def word_le_nat_alt)
  have "currentTerm n \<le> aq_Term ?req" "prev_match ?req (log n)"
      "\<not> merge_safe (Suc (unat (aq_PrevLogIndex ?req))) (aq_Entries ?req) (log n)"
    using n(4-6) by (simp_all add: sample_append_def prev_match_def merge_safe_def merge_at_def sample_entry_def)
  from append_refused_cuts_file [OF n(1-3) wf this, of sample_env] n(6) show ?thesis
    by blast
qed

text \<open>
  The request a leader builds for a peer is well formed: the entries right after
  \<open>PrevLogIndex\<close> up to its last one, with the term of the entry before them, and a commit
  index no higher than the last entry sent.
\<close>

theorem replicate_request_wellformed:
  assumes "replicateTo_begin p n = Some (Some req)" and "node_log_ok n" and "fits_all (entries (log n))"
  shows "aq_wf req \<and> aq_Term req = currentTerm n \<and> aq_LeaderCommit req \<le> aq_PrevLogIndex req + word_of_nat (length (aq_Entries req)) \<and>
     aq_PrevLogIndex req + word_of_nat (length (aq_Entries req)) = LastIndex (log n)"
proof -
  have ok: "log_ok (log n)"
    using assms(2) by (simp add: node_log_ok_def)
  obtain k where k: "k < length (entries (log n))" "aq_PrevLogIndex req = word_of_nat k"
      "aq_Entries req = drop (Suc k) (entries (log n))" "aq_Term req = currentTerm n"
    using replicateTo_begin_cases [OF assms(1,2)] by metis
  have "aq_PrevLogIndex req + word_of_nat (length (aq_Entries req)) = word_of_nat (length (entries (log n)) - 1)"
    using k of_nat_add [of k "length (aq_Entries req)", where 'a = u64, symmetric] by simp
  also have "\<dots> = LastIndex (log n)"
    using LastIndex_Suc [OF ok] log_ok_nonempty [OF ok] by (cases "entries (log n)") auto
  finally show ?thesis
    using replicateTo_begin_wf [OF assms] k(4) by simp
qed

theorem replicate_request_wellformed_witness:
  "\<exists>n req. state n = Leader \<and> replicateTo_begin ''b'' n = Some (Some req) \<and> aq_wf req \<and>
     aq_PrevLogIndex req + word_of_nat (length (aq_Entries req)) = LastIndex (log n)"
proof -
  obtain n where n: "node_log_ok n" "state n = Leader"
      "peers n = map (\<lambda>k. (k, \<lparr>p_ID = k, NextIndex = 2, MatchIndex = 0\<rparr>)) [''b'', ''c'']"
      "log n = \<lparr>entries = [sentinel, sample_entry, \<lparr>le_Index = 2, le_Term = 3, le_Type = EntryNormal, le_Data = []\<rparr>],
           commitIndex = 0, lastApplied = 0\<rparr>"
    by (rule sample_leader) blast
  have fits: "fits_all (entries (log n))"
    by (simp add: n(4) sentinel_def sample_entry_def EntryNormal_def)
  have "\<exists>req. replicateTo_begin ''b'' n = Some (Some req)"
    by (simp add: replicateTo_begin_def n(2-4) GetEntry_def GetEntries_def LastIndex_def Let_def word_le_nat_alt)
  then show ?thesis
    using replicate_request_wellformed [OF _ n(1) fits] n(2) by blast
qed

text \<open>
  C6. Commit rule. When \<open>maybeCommit\<close> moves the commit index, the node is leader, the new index
  is higher than the old one, the entry there is of the leader's own term, and a quorum of the
  cluster, counted by the match indexes and the leader itself, has it.
\<close>

theorem commit_needs_quorum:
  assumes "maybeCommit n = Some n'" and "peers_ok n" and "node_log_ok n" and "commitIndex (log n') \<noteq> commitIndex (log n)"
  shows "state n = Leader \<and> commitIndex (log n) < commitIndex (log n') \<and> node_quorum n (replicated_on (commitIndex (log n')) n)
     \<and> unat (commitIndex (log n')) < length (entries (log n))
     \<and> le_Term (entries (log n) ! unat (commitIndex (log n'))) = currentTerm n"
  using assms by (rule maybeCommit_sound)

lemma sample_leader_acked:
  obtains n where "state n = Leader" and "node_log_ok n" and "peers_ok n" and "currentTerm n = 3"
    and "\<forall>p \<in> set (peers n). MatchIndex (snd p) \<le> LastIndex (log n)" and "node_quorum n (replicated_on 2 n)"
    and "entries (log n) = [sentinel, sample_entry, \<lparr>le_Index = 2, le_Term = 3, le_Type = EntryNormal, le_Data = []\<rparr>]"
    and "commitIndex (log n) = 0"
proof -
  obtain m where m: "node_log_ok m" "state m = Leader" "currentTerm m = 3" "node_id m = ''a''"
      "peers m = map (\<lambda>k. (k, \<lparr>p_ID = k, NextIndex = 2, MatchIndex = 0\<rparr>)) [''b'', ''c'']"
      "log m = \<lparr>entries = [sentinel, sample_entry, \<lparr>le_Index = 2, le_Term = 3, le_Type = EntryNormal, le_Data = []\<rparr>],
           commitIndex = 0, lastApplied = 0\<rparr>"
    by (rule sample_leader) blast
  let ?n = "set_peer ''b'' \<lparr>p_ID = ''b'', NextIndex = 3, MatchIndex = 2\<rparr> m"
  have peers: "peers ?n = [(''b'', \<lparr>p_ID = ''b'', NextIndex = 3, MatchIndex = 2\<rparr>), (''c'', \<lparr>p_ID = ''c'', NextIndex = 2, MatchIndex = 0\<rparr>)]"
    by (simp add: m(5))
  have "{p \<in> set (peers ?n). 2 \<le> MatchIndex (snd p)} = {(''b'', \<lparr>p_ID = ''b'', NextIndex = 3, MatchIndex = 2\<rparr>)}"
    unfolding peers by auto
  then have "replicated_on 2 ?n = {''a'', ''b''}"
    by (simp add: replicated_on_def m(4,6) LastIndex_def insert_commute del: set_peer_simps(13))
  moreover have "peers_ok ?n" "quorum ?n = 2" "cluster_ids ?n = {''a'', ''b'', ''c''}"
    by (auto simp: peers_ok_def quorum_def cluster_ids_def m(4) peers simp del: set_peer_simps(13))
  ultimately have "node_quorum ?n (replicated_on 2 ?n)"
    by (simp add: node_quorum_def)
  then show thesis
    using m \<open>peers_ok ?n\<close>
    by (intro that [of ?n]) (simp_all add: LastIndex_def)
qed

theorem commit_needs_quorum_witness:
  "\<exists>n n'. maybeCommit n = Some n' \<and> commitIndex (log n') \<noteq> commitIndex (log n) \<and>
     node_quorum n (replicated_on (commitIndex (log n')) n) \<and> le_Term (entries (log n) ! unat (commitIndex (log n'))) = currentTerm n"
proof -
  obtain n where n: "state n = Leader" "node_log_ok n" "peers_ok n" "currentTerm n = 3"
      "\<forall>p \<in> set (peers n). MatchIndex (snd p) \<le> LastIndex (log n)" "node_quorum n (replicated_on 2 n)"
      "entries (log n) = [sentinel, sample_entry, \<lparr>le_Index = 2, le_Term = 3, le_Type = EntryNormal, le_Data = []\<rparr>]"
      "commitIndex (log n) = 0"
    by (rule sample_leader_acked) blast
  obtain n' where n': "maybeCommit n = Some n'"
    using maybeCommit_total by blast
  have "2 \<le> commitIndex (log n')"
    using maybeCommit_complete [OF n' n(1-3,5,6)] n(4,7) by simp
  then have ne: "commitIndex (log n') \<noteq> commitIndex (log n)"
    by (auto simp: n(8))
  from commit_needs_quorum [OF n' n(3,2) ne] n' ne show ?thesis
    by blast
qed

text \<open>
  C7. Commit progress. \<open>maybeCommit\<close> always returns, and every index that a quorum has and
  whose entry is of the leader's own term is committed afterwards.
\<close>

theorem commit_progress:
  assumes "state n = Leader" and "node_log_ok n" and "peers_ok n"
    and "\<forall>p \<in> set (peers n). MatchIndex (snd p) \<le> LastIndex (log n)"
    and "node_quorum n (replicated_on i n)" and "unat i < length (entries (log n))"
    and "le_Term (entries (log n) ! unat i) = currentTerm n"
  shows "\<exists>n'. maybeCommit n = Some n' \<and> i \<le> commitIndex (log n')"
proof -
  obtain n' where n': "maybeCommit n = Some n'"
    using maybeCommit_total by blast
  with maybeCommit_complete [OF n' assms] show ?thesis by blast
qed

theorem commit_progress_witness:
  "\<exists>n n'. state n = Leader \<and> commitIndex (log n) = 0 \<and> maybeCommit n = Some n' \<and> 2 \<le> commitIndex (log n')"
proof -
  obtain n where n: "state n = Leader" "node_log_ok n" "peers_ok n" "currentTerm n = 3"
      "\<forall>p \<in> set (peers n). MatchIndex (snd p) \<le> LastIndex (log n)" "node_quorum n (replicated_on 2 n)"
      "entries (log n) = [sentinel, sample_entry, \<lparr>le_Index = 2, le_Term = 3, le_Type = EntryNormal, le_Data = []\<rparr>]"
      "commitIndex (log n) = 0"
    by (rule sample_leader_acked) blast
  have "unat (2 :: u64) < length (entries (log n))" "le_Term (entries (log n) ! unat (2 :: u64)) = currentTerm n"
    by (simp_all add: n(4,7))
  from commit_progress [OF n(1-3,5,6) this] n(1,8) show ?thesis
    by blast
qed

text \<open>
  After a rejection that names a term the leader has, the next attempt starts right after
  the leader's last entry of that term.
\<close>

theorem backtrack_to_own_term:
  assumes "log_ok l" and "ar_ConflictTerm resp > 0" and "0 < j" and "j < length (entries l)"
    and "le_Term (entries l ! j) = ar_ConflictTerm resp"
    and "\<forall>k. j < k \<and> k < length (entries l) \<longrightarrow> le_Term (entries l ! k) \<noteq> ar_ConflictTerm resp"
  shows "backtrack resp l = word_of_nat j + 1"
  using assms by (rule backtrack_present)

theorem backtrack_to_own_term_witness:
  "backtrack \<lparr>ar_Term = 3, ar_Success = False, ar_ConflictTerm = 1, ar_ConflictIndex = 1\<rparr> sample_log = word_of_nat 2 + 1"
proof -
  have "log_ok sample_log"
    by (simp add: sample_log_def log_ok_def sentinel_def)
  then show ?thesis
    by (rule backtrack_to_own_term) (simp_all add: sample_log_def)
qed

text \<open>
  After a rejection that names a term the leader does not have, the leader uses that term
  as the next index, whatever conflict index the follower reported.
\<close>

theorem backtrack_uses_term_as_index:
  assumes "log_ok l" and "ar_ConflictTerm resp > 0"
    and "\<forall>k. 0 < k \<and> k < length (entries l) \<longrightarrow> le_Term (entries l ! k) \<noteq> ar_ConflictTerm resp"
  shows "backtrack resp l = ar_ConflictTerm resp"
  using assms by (rule backtrack_absent)

theorem backtrack_uses_term_as_index_witness:
  "backtrack \<lparr>ar_Term = 9, ar_Success = False, ar_ConflictTerm = 8, ar_ConflictIndex = 1\<rparr> sample_log = 8"
proof -
  have "log_ok sample_log"
    by (simp add: sample_log_def log_ok_def sentinel_def)
  moreover have "\<forall>k. 0 < k \<and> k < length (entries sample_log) \<longrightarrow> le_Term (entries sample_log ! k) \<noteq> 8"
    by (auto simp: sample_log_def nth_Cons' less_Suc_eq)
  ultimately show ?thesis
    using backtrack_uses_term_as_index [of sample_log "\<lparr>ar_Term = 9, ar_Success = False, ar_ConflictTerm = 8, ar_ConflictIndex = 1\<rparr>"]
    by simp
qed



text \<open>
  Two goroutines that run \<open>applyCommitted\<close> at the same time can both collect the same
  entries: the second delivers the first entry again and sets \<open>lastApplied\<close> back to it.
\<close>

theorem apply_concurrent_duplicates:
  assumes "log_ok (log n)" and "unat (commitIndex (log n)) = unat (lastApplied (log n)) + 2"
  shows "\<exists>x y. apply_collect n = [x, y] \<and>
     (let n1 = apply_mark y (apply_send y (apply_mark x (apply_send x n))); n2 = apply_mark x (apply_send x n1)
      in commitCh n2 = commitCh n @ [x, y, x] \<and> lastApplied (log n1) = commitIndex (log n) \<and>
         lastApplied (log n2) < lastApplied (log n1))"
proof -
  let ?a = "unat (lastApplied (log n))" and ?es = "entries (log n)"
  have len: "?a + 2 < length ?es"
    using assms by (simp add: log_ok_def)
  have "apply_collect n = [?es ! (?a + 1), ?es ! (?a + 2)]"
  proof (rule nth_equalityI)
    show "length (apply_collect n) = length [?es ! (?a + 1), ?es ! (?a + 2)]"
      using len assms by (simp add: apply_collect_eq)
    show "apply_collect n ! i = [?es ! (?a + 1), ?es ! (?a + 2)] ! i" if "i < length (apply_collect n)" for i
      using that len assms by (auto simp: apply_collect_eq less_2_cases_iff)
  qed
  moreover have "le_Index (?es ! (?a + 2)) = commitIndex (log n)"
    using unat_entry_Index [OF assms(1) len] assms(2) by (simp add: u64_eq_iff)
  moreover have "le_Index (?es ! (?a + 1)) < le_Index (?es ! (?a + 2))"
    using unat_entry_Index [OF assms(1)] len by (simp add: u64_less_iff)
  ultimately show ?thesis
    by (auto simp: Let_def)
qed

theorem apply_concurrent_duplicates_witness:
  "\<exists>n x y. log n = sample_log\<lparr>commitIndex := 2\<rparr> \<and> apply_collect n = [x, y] \<and>
     (let n1 = apply_mark y (apply_send y (apply_mark x (apply_send x n))); n2 = apply_mark x (apply_send x n1)
      in commitCh n2 = commitCh n @ [x, y, x] \<and> lastApplied (log n2) < lastApplied (log n1))"
proof -
  obtain m :: RaftNode where "commitCh m = []"
    using boot_eq [of "[]" 0 "''''" "[]" "''a''" "[]"] by (auto simp: replay_all_def)
  let ?n = "m\<lparr>log := sample_log\<lparr>commitIndex := 2\<rparr>\<rparr>"
  have "log_ok (log ?n)" "unat (commitIndex (log ?n)) = unat (lastApplied (log ?n)) + 2"
    by (simp_all add: sample_log_def log_ok_def sentinel_def)
  from apply_concurrent_duplicates [OF this] show ?thesis
    by (intro exI [of _ ?n]) (auto simp: Let_def)
qed



end
