(* ===== verification/Raft_Steps.thy ===== *)
theory Raft_Steps
  imports Raft_Replication
begin

text \<open>
  The node as a machine. An event is one locked region of one goroutine together with what
  it receives from outside (a message, a tick, a proposal); \<open>step\<close> runs it. Any order of
  events is possible, so a sequence of steps covers every interleaving of the goroutines of
  \<open>src/raft\<close>. \<open>event_ok\<close> states what the surroundings provide.

  \<^item> \<open>node_inv\<close> holds along every run, and no step of such a run panics.
  \<^item> The locale \<open>vote_keeper\<close> gives, for runs with crashes and restarts in them, that terms
    do not go down and that a vote is not changed within a term of the voter.
  \<^item> The locale \<open>commit_log\<close>, interpreted here for the whole node, gives that committed
    entries stay.
\<close>

section \<open>Events\<close>

datatype event =
    EvVote VoteRequest
  | EvAppend AppendEntriesRequest
  | EvCampaign bool
  | EvVoteResponse campaign VoteResponse
  | EvCampaignWon campaign
  | EvCampaignLost
  | EvPropose "byte list"
  | EvHeartbeats
  | EvAppendResponse string AppendEntriesRequest AppendEntriesResponse
  | EvApplySend LogEntry
  | EvApplyMark LogEntry
  | EvTimerFire
  | EvElectionTimeout
  | EvHeartbeatTick
  | EvTimingUpdate
  | EvUpdateTimings duration duration

fun step :: "env \<Rightarrow> event \<Rightarrow> RaftNode \<Rightarrow> RaftNode option" where
  "step e (EvVote req) n = map_option fst (handleRequestVote e req n)"
| "step e (EvAppend req) n = map_option fst (handleAppendEntries e req n)"
| "step e (EvCampaign preVote) n = map_option fst (campaign_start e preVote n)"
| "step e (EvVoteResponse c resp) n = map_option fst (campaign_recv e c resp n)"
| "step e (EvCampaignWon c) n = map_option fst (campaign_won e c n)"
| "step e EvCampaignLost n = campaign_lost e n"
| "step e (EvPropose data) n = Some (fst (Propose data n))"
| "step e EvHeartbeats n = maybeSendHeartbeats n"
| "step e (EvAppendResponse p req resp) n = replicateTo_finish e p req resp n"
| "step e (EvApplySend entry) n = Some (apply_send entry n)"
| "step e (EvApplyMark entry) n = Some (apply_mark entry n)"
| "step e EvTimerFire n = Some (timer_fire n)"
| "step e EvElectionTimeout n = run_election_fired e n"
| "step e EvHeartbeatTick n = Some (run_heartbeat_tick n)"
| "step e EvTimingUpdate n = run_timing_update n"
| "step e (EvUpdateTimings et hb) n = Some (UpdateTimings et hb n)"

text \<open>
  What the surroundings provide: requests are those of leaders and candidates of the same
  code, a leader does not contradict a committed entry, entries and ids fit the file format,
  and terms and indexes have not reached the end of the 64-bit range.
\<close>

fun event_ok :: "event \<Rightarrow> RaftNode \<Rightarrow> bool" where
  "event_ok (EvVote req) n = id_fits (vq_CandidateID req)"
| "event_ok (EvAppend req) n =
     (aq_wf req \<and> (prev_match req (log n) \<longrightarrow> merge_safe (Suc (unat (aq_PrevLogIndex req))) (aq_Entries req) (log n)))"
| "event_ok (EvCampaign preVote) n = (currentTerm n \<noteq> - 1)"
| "event_ok (EvCampaignWon c) n = (currentTerm n \<noteq> - 1 \<and> length (entries (log n)) < 2 ^ 63)"
| "event_ok (EvPropose data) n = (length data < 2 ^ 32 - 22 \<and> length (entries (log n)) < 2 ^ 63)"
| "event_ok (EvAppendResponse p req resp) n = (p \<in> fst ` set (peers n))"
| "event_ok (EvApplySend entry) n = apply_can_send n"
| "event_ok (EvApplyMark entry) n = (le_Index entry \<le> commitIndex (log n))"
| "event_ok EvTimingUpdate n = list_all ((<) 0) (timingUpdateCh n)"
| "event_ok _ n = True"

inductive node_trans :: "RaftNode \<Rightarrow> RaftNode \<Rightarrow> bool" where
  step: "step e ev n = Some n' \<Longrightarrow> event_ok ev n \<Longrightarrow> node_trans n n'"

inductive_cases node_transE: "node_trans n n'"

section \<open>Every step advances\<close>

lemma fold_spawn_simps [simp]:
  "node_id (fold (spawn \<circ> f) xs n) = node_id n" "config (fold (spawn \<circ> f) xs n) = config n"
  "currentTerm (fold (spawn \<circ> f) xs n) = currentTerm n" "votedFor (fold (spawn \<circ> f) xs n) = votedFor n"
  "state (fold (spawn \<circ> f) xs n) = state n" "log (fold (spawn \<circ> f) xs n) = log n" "wal (fold (spawn \<circ> f) xs n) = wal n"
  "peers (fold (spawn \<circ> f) xs n) = peers n" "electionTimer (fold (spawn \<circ> f) xs n) = electionTimer n"
  by (induction xs arbitrary: n) auto

text \<open>Steps that leave term, vote, log, file, peers and identity alone.\<close>

definition quiet :: "RaftNode \<Rightarrow> RaftNode \<Rightarrow> bool" where
  "quiet n n' \<longleftrightarrow> node_id n' = node_id n \<and> currentTerm n' = currentTerm n \<and> votedFor n' = votedFor n \<and>
     log n' = log n \<and> wal n' = wal n \<and> peers n' = peers n \<and>
     NodeID (config n') = NodeID (config n) \<and> Peers (config n') = Peers (config n) \<and> (started n \<longrightarrow> started n')"

lemma quiet_refl [simp]: "quiet n n"
  by (simp add: quiet_def)

lemma quiet_timers:
  "quiet n (timer_fire n)" "quiet n (run_heartbeat_tick n)" "quiet n (UpdateTimings et hb n)"
  "run_election_fired e n = Some n' \<Longrightarrow> quiet n n'" "run_timing_update n = Some n' \<Longrightarrow> quiet n n'"
  "quiet n (apply_send x n)"
  by (auto simp: quiet_def timer_fire_def run_heartbeat_tick_def UpdateTimings_def run_election_fired_def
      resetElectionTimer_eq run_timing_update_def apply_send_def NewTicker_def started_def rearm_def bind_eq_Some_conv Let_def
      split: option.splits if_splits list.splits)

lemma advances_quiet: "quiet n n' \<Longrightarrow> advances n n'"
  by (simp add: quiet_def advances_def)

lemma advances_maybeSendHeartbeats:
  assumes "maybeSendHeartbeats n = Some n'"
  shows "advances n n'"
proof -
  have "advances m (spawn t (fold (spawn \<circ> f) xs m))" for m t f and xs :: "string list"
    by (simp add: advances_def started_def)
  then show ?thesis
    using assms by (auto simp: maybeSendHeartbeats_def bind_eq_Some_conv intro: advances_trans [OF advances_maybeCommit]
        split: if_splits)
qed

lemma advances_step:
  assumes "step e ev n = Some n'" and "event_ok ev n"
  shows "advances n n'"
  using assms
proof (cases ev)
  case (EvApplyMark x)
  then show ?thesis using assms advances_apply_mark by auto
qed (auto intro: advances_handleRequestVote advances_handleAppendEntries advances_campaign_start advances_campaign_recv
      advances_campaign_won advances_campaign_lost advances_Propose advances_maybeSendHeartbeats
      advances_replicateTo_finish advances_apply_send advances_quiet quiet_timers)

interpretation node_commit: commit_log node_trans "entries \<circ> log" "committed_len \<circ> log"
  by unfold_locales (auto elim!: node_transE dest!: advances_step simp: advances_def)

section \<open>The invariant\<close>

definition node_inv :: "RaftNode \<Rightarrow> bool" where
  "node_inv n \<longleftrightarrow> node_log_ok n \<and> node_durable n \<and> started n \<and> peers_ok n \<and> id_fits (NodeID (config n)) \<and>
     node_id n = NodeID (config n) \<and> map fst (peers n) = map fst (build_peers (Peers (config n)) [])"

lemma node_inv_advances:
  assumes "node_inv n" and "advances n n'" and "node_log_ok n'" and "node_durable n'"
  shows "node_inv n'"
proof -
  have keys: "map fst (peers n') = map fst (peers n)" and id: "node_id n' = node_id n"
    using assms(2) by (simp_all add: advances_def)
  have "peers_ok n' \<longleftrightarrow> peers_ok n"
    unfolding peers_ok_def id list.set_map [symmetric] keys by (rule refl)
  then show ?thesis
    using assms keys id by (simp add: node_inv_def advances_def)
qed

lemma quiet_inv: "quiet n n' \<Longrightarrow> node_log_ok n \<Longrightarrow> node_durable n \<Longrightarrow> node_log_ok n' \<and> node_durable n'"
  by (simp add: quiet_def node_log_ok_def node_durable_def)

text \<open>Every event runs to its end without a panic and keeps log and file in order.\<close>

lemma step_vote:
  assumes "node_inv n" and "id_fits (vq_CandidateID req)"
  shows "\<exists>n' r. handleRequestVote e req n = Some (n', r) \<and> node_log_ok n' \<and> node_durable n'"
proof -
  have "started n" using assms(1) by (simp add: node_inv_def)
  then have "\<exists>x. handleRequestVote e req n = Some x"
    by (simp add: handleRequestVote_started Let_def)
  then obtain n' r where run: "handleRequestVote e req n = Some (n', r)"
    by auto
  then show ?thesis
    using assms \<open>started n\<close> node_log_ok_handleRequestVote [OF run] node_durable_handleRequestVote [OF run]
    by (auto simp: node_inv_def)
qed

lemma step_append:
  assumes "node_inv n" and "event_ok (EvAppend req) n"
  shows "\<exists>n' r. handleAppendEntries e req n = Some (n', r) \<and> node_log_ok n' \<and> node_durable n'"
proof -
  have inv: "started n" "node_log_ok n" "node_durable n"
    using assms(1) by (simp_all add: node_inv_def)
  have log: "log_ok (log n)"
    using inv(2) by (simp add: node_log_ok_def)
  have "\<exists>n' r. handleAppendEntries e req n = Some (n', r) \<and> node_durable n'"
  proof (cases "currentTerm n \<le> aq_Term req \<and> prev_match req (log n)")
    case True
    then show ?thesis
      using handleAppendEntries_refines [OF inv, of req e] assms(2) by auto
  next
    case False
    moreover have "0 < aq_PrevLogIndex req" if "\<not> prev_match req (log n)"
      using that log_ok_length [OF log] by (cases "aq_PrevLogIndex req = 0") (auto simp: prev_match_def word_neq_0_conv)
    ultimately show ?thesis
      using inv node_durable_follow [OF inv(3)]
      by (auto simp: handleAppendEntries_cases [OF inv(1)] prev_match_def not_le)
  qed
  then show ?thesis
    using node_log_ok_handleAppendEntries inv(2) assms(2) by fastforce
qed

lemma step_campaign:
  assumes "node_inv n" and "currentTerm n \<noteq> - 1"
  shows "\<exists>n' next. campaign_start e pv n = Some (n', next) \<and> node_log_ok n' \<and> node_durable n'"
proof -
  have "node_log_ok (n\<lparr>state := PreCandidate\<rparr>)" "node_durable (n\<lparr>state := PreCandidate\<rparr>)"
    using assms by (simp_all add: node_inv_def node_log_ok_def node_durable_def)
  then show ?thesis
    using assms by (auto simp: campaign_start_def becomeCandidate_eq node_inv_def Let_def intro: wf_intros)
qed

lemma step_campaign_recv:
  assumes "node_inv n"
  shows "\<exists>n' next. campaign_recv e c resp n = Some (n', next) \<and> node_log_ok n' \<and> node_durable n'"
  using assms
  by (auto simp: campaign_recv_def becomeFollower_eq node_inv_def Let_def intro: node_log_ok_follow node_durable_follow)

lemma step_campaign_won:
  assumes "node_inv n" and "currentTerm n \<noteq> - 1" and "length (entries (log n)) < 2 ^ 63"
  shows "\<exists>n' next. campaign_won e c n = Some (n', next) \<and> node_log_ok n' \<and> node_durable n'"
proof (cases "cp_preVote c")
  case True
  then show ?thesis
    using step_campaign [OF assms(1,2)] by (simp add: campaign_won_def)
next
  case False
  have "entries (log n) \<noteq> []"
    using assms(1) by (simp add: node_inv_def node_log_ok_def log_ok_nonempty)
  then show ?thesis
    using False assms(1,3)
    by (auto simp: campaign_won_def becomeLeader_eq node_inv_def started_def intro: node_log_ok_lead node_durable_lead)
qed

lemma step_campaign_lost:
  assumes "node_inv n"
  shows "\<exists>n'. campaign_lost e n = Some n' \<and> node_log_ok n' \<and> node_durable n'"
  using assms by (auto simp: campaign_lost_def becomeFollower_eq node_inv_def intro: node_log_ok_follow node_durable_follow)

lemma step_propose:
  assumes "node_inv n" and "length data < 2 ^ 32 - 22" and "length (entries (log n)) < 2 ^ 63"
  shows "node_log_ok (fst (Propose data n)) \<and> node_durable (fst (Propose data n))"
proof -
  have inv: "node_log_ok n" "node_durable n"
    using assms(1) by (simp_all add: node_inv_def)
  have "node_durable (fst (Propose data n))"
  proof (cases "state n = Leader")
    case True
    then show ?thesis
      using Propose_durable [OF inv(2,1) _ assms(2)] by fastforce
  qed (simp add: Propose_def inv(2))
  then show ?thesis
    using node_log_ok_Propose [OF inv(1) assms(3)] by blast
qed

lemma step_heartbeats:
  assumes "node_inv n"
  shows "\<exists>n'. maybeSendHeartbeats n = Some n' \<and> node_log_ok n' \<and> node_durable n'"
proof -
  obtain m where m: "maybeCommit n = Some m"
    using maybeCommit_total by blast
  then have "node_log_ok m" "node_durable m"
    using assms by (auto simp: node_inv_def intro: node_log_ok_maybeCommit node_durable_maybeCommit)
  then show ?thesis
    using m assms by (auto simp: maybeSendHeartbeats_def node_inv_def node_log_ok_def node_durable_def)
qed

lemma step_append_response:
  assumes "node_inv n" and "p \<in> fst ` set (peers n)"
  shows "\<exists>n'. replicateTo_finish e p req resp n = Some n' \<and> node_log_ok n' \<and> node_durable n'"
proof -
  obtain x where x: "map_of (peers n) p = Some x"
    using assms(2) by (metis domIff dom_map_of_conv_image_fst option.exhaust)
  have "\<exists>n'. replicateTo_finish e p req resp n = Some n'"
    using assms(1) x by (simp add: replicateTo_finish_def becomeFollower_eq node_inv_def maybeCommit_total Let_def)
  then obtain n' where run: "replicateTo_finish e p req resp n = Some n'"
    by blast
  then show ?thesis
    using assms(1) by (auto simp: node_inv_def intro: node_log_ok_replicateTo_finish node_durable_replicateTo_finish)
qed

lemma step_inv:
  assumes "node_inv n" and "event_ok ev n"
  shows "\<exists>n'. step e ev n = Some n' \<and> node_inv n'"
proof -
  have inv: "node_log_ok n" "node_durable n" "started n"
    using assms(1) by (simp_all add: node_inv_def)
  have "\<exists>n'. step e ev n = Some n' \<and> node_log_ok n' \<and> node_durable n'"
  proof (cases ev)
    case (EvApplyMark x)
    then show ?thesis
      using inv assms(2) log_ok_SetLastApplied
      by (auto simp: node_log_ok_def node_durable_def LastTerm_def)
  next
    case EvElectionTimeout
    have "\<exists>n'. run_election_fired e n = Some n'"
      using inv(3) by (auto simp: run_election_fired_def resetElectionTimer_eq started_def Let_def)
    then show ?thesis
      using EvElectionTimeout inv quiet_inv quiet_timers(4) by fastforce
  next
    case EvTimingUpdate
    have "\<exists>n'. run_timing_update n = Some n'"
      using assms(2) EvTimingUpdate by (auto simp: run_timing_update_def NewTicker_def split: list.split)
    then show ?thesis
      using EvTimingUpdate inv quiet_inv quiet_timers(5) by fastforce
  next
    case (EvVote req)
    then show ?thesis using step_vote [OF assms(1)] assms(2) by fastforce
  next
    case (EvAppend req)
    then show ?thesis using step_append [OF assms(1)] assms(2) by fastforce
  next
    case (EvCampaign pv)
    then show ?thesis using step_campaign [OF assms(1)] assms(2) by fastforce
  next
    case (EvVoteResponse c r)
    then show ?thesis using step_campaign_recv [OF assms(1)] by fastforce
  next
    case (EvCampaignWon c)
    then show ?thesis using step_campaign_won [OF assms(1)] assms(2) by fastforce
  next
    case EvCampaignLost
    then show ?thesis using step_campaign_lost [OF assms(1)] by fastforce
  next
    case (EvPropose d)
    then show ?thesis using step_propose [OF assms(1)] assms(2) by simp
  next
    case EvHeartbeats
    then show ?thesis using step_heartbeats [OF assms(1)] by simp
  next
    case (EvAppendResponse p req r)
    then show ?thesis using step_append_response [OF assms(1)] assms(2) by simp
  qed (use quiet_inv [OF _ inv(1,2)] quiet_timers in simp_all)
  then show ?thesis
    using node_inv_advances [OF assms(1)] advances_step [OF _ assms(2)] by blast
qed

lemma node_trans_inv: "node_trans n n' \<Longrightarrow> node_inv n \<Longrightarrow> node_inv n'"
  by (erule node_transE) (metis option.inject step_inv)

section \<open>Crashes and restarts\<close>

text \<open>
  A process that dies and is started again on what the disk holds, with the same identity
  and peers.
\<close>

inductive restarts :: "RaftNode \<Rightarrow> RaftNode \<Rightarrow> bool" where
  restart: "crash_image (wal n) f \<Longrightarrow> NodeID cfg = NodeID (config n) \<Longrightarrow> Peers cfg = Peers (config n) \<Longrightarrow>
    NewRaftNode cfg True f = Some (Inr m) \<Longrightarrow> Start e m = Some n' \<Longrightarrow> restarts n n'"

inductive_cases restartsE: "restarts n n'"

lemma NewRaftNode_config:
  "NewRaftNode cfg ok f = Some (Inr m) \<Longrightarrow> config m = cfg \<and> node_id m = NodeID cfg \<and> peers m = build_peers (Peers cfg) []"
  by (auto simp: NewRaftNode_def Append_def bind_eq_Some_conv split: sum.split_asm option.split_asm if_split_asm)

lemma restarts_durable:
  assumes "restarts n n'" and "node_inv n"
  shows "node_inv n' \<and> currentTerm n' = currentTerm n \<and> votedFor n' = votedFor n \<and> state n' = Follower \<and>
     entries (log n') = entries (log n) \<and> node_id n' = node_id n"
  using assms(1)
proof (rule restartsE)
  fix f cfg m e
  assume r: "crash_image (wal n) f" "NodeID cfg = NodeID (config n)" "Peers cfg = Peers (config n)"
    "NewRaftNode cfg True f = Some (Inr m)" "Start e m = Some n'"
  have inv: "node_durable n" "node_log_ok n"
    using assms(2) by (simp_all add: node_inv_def)
  obtain m' where m': "NewRaftNode cfg True f = Some (Inr m')" "node_durable m'" "currentTerm m' = currentTerm n"
      "votedFor m' = votedFor n" "state m' = Follower" "entries (log m') = entries (log n)" "commitIndex (log m') = 0"
      "lastApplied (log m') = 0"
    using restart_durable [OF inv r(1), of cfg] by blast
  have n': "n' = spawn GoRun (rearm e m')" and started: "started n'"
    using r(4,5) m'(1) by (auto simp: Start_eq started_def rearm_def split: if_splits)
  have cfg: "config m' = cfg" "node_id m' = NodeID cfg" "peers m' = build_peers (Peers cfg) []"
    using NewRaftNode_config [OF m'(1)] by auto
  have "node_log_ok n'"
    using inv(2) m' by (auto simp: n' node_log_ok_def log_ok_def LastTerm_def)
  moreover have "peers_ok n'"
  proof -
    have "map fst (peers n') = map fst (peers n)" and "node_id n' = node_id n"
      using assms(2) r(2,3) cfg by (simp_all add: n' node_inv_def)
    then show ?thesis
      using assms(2) unfolding node_inv_def peers_ok_def by (metis list.set_map)
  qed
  ultimately show ?thesis
    using assms(2) m' r(2,3) cfg started by (auto simp: n' node_inv_def node_durable_def)
qed

section \<open>Votes along runs with crashes\<close>

text \<open>What an election relies on in each voter.\<close>

locale vote_keeper =
  fixes trans :: "'n \<Rightarrow> 'n \<Rightarrow> bool"
    and tm :: "'n \<Rightarrow> u64"
    and vote :: "'n \<Rightarrow> string"
  assumes tm_mono: "trans n n' \<Longrightarrow> tm n \<le> tm n'"
    and vote_kept: "trans n n' \<Longrightarrow> tm n' = tm n \<Longrightarrow> vote n \<noteq> '''' \<Longrightarrow> vote n' = vote n"
begin

lemma run_tm_mono: "trans\<^sup>*\<^sup>* n n' \<Longrightarrow> tm n \<le> tm n'"
  by (induction rule: rtranclp_induct) (auto intro: order_trans dest: tm_mono)

lemma run_vote_kept:
  assumes "trans\<^sup>*\<^sup>* n n'" and "tm n' = tm n" and "vote n \<noteq> ''''"
  shows "vote n' = vote n"
  using assms
proof (induction rule: rtranclp_induct)
  case (step m n')
  have "tm m = tm n"
    using run_tm_mono [OF step.hyps(1)] tm_mono [OF step.hyps(2)] step.prems(1) by simp
  then show ?case
    using step vote_kept by metis
qed simp

end

text \<open>Runs of the node: steps in any order, with crashes and restarts at any point.\<close>

definition machine :: "RaftNode \<Rightarrow> RaftNode \<Rightarrow> bool" where
  "machine n n' \<longleftrightarrow> node_inv n \<and> (node_trans n n' \<or> restarts n n')"

lemma machine_inv: "machine n n' \<Longrightarrow> node_inv n'"
  by (auto simp: machine_def dest: node_trans_inv restarts_durable)

lemma run_machine_inv: "machine\<^sup>*\<^sup>* n n' \<Longrightarrow> node_inv n \<Longrightarrow> node_inv n'"
  by (induction rule: rtranclp_induct) (auto intro: machine_inv)

interpretation node_votes: vote_keeper machine currentTerm votedFor
proof
  fix n n' assume "machine n n'"
  then consider "advances n n'" | "currentTerm n' = currentTerm n" "votedFor n' = votedFor n"
    by (auto simp: machine_def dest: restarts_durable elim: node_transE dest: advances_step)
  note cases = this
  from cases show "currentTerm n \<le> currentTerm n'"
    by cases (auto simp: advances_def)
  from cases show "votedFor n' = votedFor n" if "currentTerm n' = currentTerm n" "votedFor n \<noteq> ''''"
    using that by cases (auto simp: advances_def)
qed

lemma machine_vote:
  "node_inv n \<Longrightarrow> id_fits (vq_CandidateID req) \<Longrightarrow> handleRequestVote e req n = Some (n', r) \<Longrightarrow> machine n n'"
  using node_trans.step [of e "EvVote req" n n'] by (simp add: machine_def)

lemma granted_once_per_own_term:
  assumes "node_inv n" and "handleRequestVote e1 req1 n = Some (n1, r1)" and "vr_VoteGranted r1"
    and "machine\<^sup>*\<^sup>* n1 n2" and "currentTerm n2 = currentTerm n1" and "vq_CandidateID req1 \<noteq> ''''"
    and "handleRequestVote e2 req2 n2 = Some (n3, r2)" and "vr_VoteGranted r2"
  shows "vq_CandidateID req2 = vq_CandidateID req1"
proof -
  have "votedFor n1 = vq_CandidateID req1"
    using handleRequestVote_granted(2) [OF assms(2)] assms(3) by simp
  then have "votedFor n2 = vq_CandidateID req1"
    using node_votes.run_vote_kept [OF assms(4,5)] assms(6) by simp
  moreover have "may_vote req2 n2"
    using handleRequestVote_granted(1) [OF assms(7)] assms(8) by simp
  ultimately show ?thesis
    using assms(6) by (simp add: may_vote_def)
qed

section \<open>Properties of runs\<close>

lemma sample_voter_inv:
  obtains n where "node_inv n" and "currentTerm n = 0" and "votedFor n = ''''" and "log n = NewRaftLog" and "started n"
    and "node_id n = ''c''" and "config n = sample_cfg ''c'' [''a'', ''b'']"
proof -
  obtain n where n: "started n" "node_durable n" "node_log_ok n" "currentTerm n = 0" "votedFor n = ''''" "log n = NewRaftLog"
      "node_id n = ''c''" "config n = sample_cfg ''c'' [''a'', ''b'']"
      "peers n = build_peers (Peers (sample_cfg ''c'' [''a'', ''b''])) []"
    by (rule sample_voter) blast
  then have "node_inv n"
    by (simp add: node_inv_def peers_ok_def sample_cfg_def DefaultConfig_def id_fits_def)
  with n show thesis by (intro that)
qed






lemma sample_vote_run:
  obtains n n1 r where "node_inv n" and "handleRequestVote sample_env (sample_vote_request 0 ''a'') n = Some (n1, r)"
    and "vr_VoteGranted r" and "machine n n1" and "currentTerm n1 = 0"
proof -
  obtain n where n: "node_inv n" "started n" "currentTerm n = 0" "votedFor n = ''''" "log n = NewRaftLog"
    by (rule sample_voter_inv) blast
  have may: "may_vote (sample_vote_request 0 ''a'') n"
    using n by (simp add: may_vote_def sample_vote_request_def logIsUpToDate_def NewRaftLog_def LastTerm_def LastIndex_def sentinel_def)
  then obtain n1 r where run: "handleRequestVote sample_env (sample_vote_request 0 ''a'') n = Some (n1, r)" "vr_VoteGranted r"
    by (simp add: handleRequestVote_started [OF n(2)] vote_reply_def Let_def)
  have "machine n n1"
    by (rule machine_vote [OF n(1) _ run(1)]) (simp add: sample_vote_request_def id_fits_def)
  moreover have "currentTerm n1 = 0"
    using n(3) handleRequestVote_keeps(1) [OF run(1)] by simp
  ultimately show thesis
    by (rule that [OF n(1) run])
qed




end
