(* ===== verification/Raft_Cluster.thy ===== *)
theory Raft_Cluster
  imports Raft_Steps
begin

text \<open>
  Several nodes at once. One round of a campaign with one voter is the composition of the
  candidate's locked regions with the voter's handler (\<open>src/raft/election.go\<close>); the quorum of a
  cluster of three is the candidate and one voter. One round of replication is the composition
  of the leader's two regions of \<open>replicateTo\<close> with the follower's append handler
  (\<open>src/raft/replication.go\<close>).
\<close>

section \<open>Rounds with one voter\<close>

text \<open>The pre-vote round: the candidate asks, and on a granted pre-vote starts the real campaign.\<close>

definition prevote_round :: "env \<Rightarrow> RaftNode \<Rightarrow> RaftNode \<Rightarrow> (RaftNode \<times> campaign) option" where
  "prevote_round e n v = do {
     (n1, next) \<leftarrow> campaign_start e True n;
     (case next of
        CampWait c \<Rightarrow> do {
          (n2, next2) \<leftarrow> campaign_recv e c (snd (handlePreVote (campaign_request n1 c) v)) n1;
          (case next2 of
             CampWon c2 \<Rightarrow> do {
               (n3, next3) \<leftarrow> campaign_won e c2 n2;
               (case next3 of CampWait c3 \<Rightarrow> Some (n3, c3) | _ \<Rightarrow> None) }
           | _ \<Rightarrow> None) }
      | _ \<Rightarrow> None) }"

text \<open>The vote round: the candidate asks, and on a granted vote becomes leader.\<close>

definition vote_round :: "env \<Rightarrow> RaftNode \<Rightarrow> campaign \<Rightarrow> RaftNode \<Rightarrow> (RaftNode \<times> RaftNode) option" where
  "vote_round e n c v = do {
     (v1, r) \<leftarrow> handleRequestVote e (campaign_request n c) v;
     (n1, next) \<leftarrow> campaign_recv e c r n;
     (case next of CampWon c' \<Rightarrow> do { (n2, _) \<leftarrow> campaign_won e c' n1; Some (n2, v1) } | _ \<Rightarrow> None) }"

section \<open>A round in a cluster of three\<close>

definition idle :: "RaftNode \<Rightarrow> bool" where
  "idle n \<longleftrightarrow> started n \<and> state n = Follower \<and> leaderID n = '''' \<and> length (peers n) = 2"

definition alike :: "RaftNode \<Rightarrow> RaftNode \<Rightarrow> bool" where
  "alike n m \<longleftrightarrow> currentTerm n = currentTerm m \<and> RaftNode.log n = RaftNode.log m"

text \<open>The local variables of a campaign in a cluster of three.\<close>

definition camp :: "bool \<Rightarrow> RaftNode \<Rightarrow> campaign" where
  "camp pv n = \<lparr>cp_preVote = pv, cp_term = currentTerm n + 1, cp_lastLogIndex = LastIndex (RaftNode.log n),
     cp_lastLogTerm = LastTerm (RaftNode.log n), cp_peers = map fst (peers n), cp_votes = 1, cp_needed = 2, cp_left = 2\<rparr>"

lemma campaign_start_three:
  assumes "state n \<noteq> Leader" and "started n" and "length (peers n) = 2"
  shows "campaign_start e pv n = Some (if pv then n\<lparr>state := PreCandidate\<rparr> else stand e n, CampWait (camp pv n))"
proof -
  have "peers n \<noteq> []" using assms(3) by auto
  then show ?thesis
    using assms by (simp add: campaign_start_def becomeCandidate_eq camp_def quorum_def Let_def)
qed

lemma campaign_recv_three:
  assumes "cp_preVote c \<longleftrightarrow> state n = PreCandidate" and "\<not> cp_preVote c \<Longrightarrow> state n = Candidate \<and> currentTerm n = cp_term c"
    and "vr_Term r \<le> currentTerm n" and "vr_VoteGranted r" and "cp_votes c = 1" and "cp_needed c = 2"
  shows "campaign_recv e c r n = Some (n, CampWon (c\<lparr>cp_votes := 2, cp_left := cp_left c - 1\<rparr>))"
  using assms by (auto simp: campaign_recv_def Let_def)

lemma prevote_round_idle:
  assumes "idle n" and "leaderID v = ''''" and "alike n v" and "currentTerm n < currentTerm n + 1"
  shows "prevote_round e n v = Some (stand e (n\<lparr>state := PreCandidate\<rparr>), camp False n)"
proof -
  let ?n1 = "n\<lparr>state := PreCandidate\<rparr>" and ?c = "camp True n"
  have start: "campaign_start e True n = Some (?n1, CampWait ?c)"
    using assms(1) campaign_start_three [of n e True] by (simp add: idle_def)
  have "snd (handlePreVote (campaign_request ?n1 ?c) v) = vote_reply True v"
    using assms(2-4) by (auto simp: handlePreVote_def campaign_request_def camp_def alike_def isLogUpToDate_eq logIsUpToDate_refl)
  then have recv: "campaign_recv e ?c (snd (handlePreVote (campaign_request ?n1 ?c) v)) ?n1 =
      Some (?n1, CampWon (?c\<lparr>cp_votes := 2, cp_left := cp_left ?c - 1\<rparr>))"
    using assms(3) by (intro campaign_recv_three) (simp_all add: camp_def vote_reply_def alike_def)
  have "started ?n1" using assms(1) by (simp add: idle_def started_def)
  then have "campaign_won e (?c\<lparr>cp_votes := 2, cp_left := cp_left ?c - 1\<rparr>) ?n1 = Some (stand e ?n1, CampWait (camp False ?n1))"
    using assms(1) campaign_start_three [of ?n1 e False] by (simp add: campaign_won_def camp_def idle_def)
  moreover have "camp False ?n1 = camp False n"
    by (simp add: camp_def)
  ultimately show ?thesis
    using start recv by (simp add: prevote_round_def)
qed

lemma vote_round_idle:
  assumes "idle n" and "started v" and "votedFor v = ''''" and "alike n v" and "currentTerm n < currentTerm n + 1"
  shows "vote_round e (stand e (n\<lparr>state := PreCandidate\<rparr>)) (camp False n) v =
    Some (lead (stand e (n\<lparr>state := PreCandidate\<rparr>)), cast_vote e (node_id n) (follow e (currentTerm v) '''' v))"
proof -
  let ?n = "stand e (n\<lparr>state := PreCandidate\<rparr>)" and ?c = "camp False n"
  let ?v = "follow e (currentTerm v) '''' v"
  have req: "handleRequestVote e (campaign_request ?n ?c) v = Some (cast_vote e (node_id n) ?v, vote_reply True ?v)"
    using assms(2-5)
    by (simp add: handleRequestVote_started may_vote_def campaign_request_def camp_def alike_def logIsUpToDate_refl Let_def less_imp_le)
  have recv: "campaign_recv e ?c (vote_reply True ?v) ?n = Some (?n, CampWon (?c\<lparr>cp_votes := 2, cp_left := cp_left ?c - 1\<rparr>))"
    using assms(4,5) by (intro campaign_recv_three) (simp_all add: camp_def vote_reply_def alike_def less_imp_le)
  have "electionTimer ?n \<noteq> None"
    by (simp add: stand_def rearm_def)
  then show ?thesis
    using req recv by (simp add: vote_round_def campaign_won_def becomeLeader_eq camp_def)
qed

section \<open>Two leaders of one term\<close>

text \<open>
  C12. Election safety fails. Three idle nodes of the same term and log, no vote cast yet: the first
  wins pre-vote and vote of the third and leads the next term. The third recorded that vote under
  its old term, so when its own timer fires it stands for the same term again, wins the second
  node, and leads that term as well.
\<close>

theorem two_leaders_one_term:
  assumes "idle a" and "idle b" and "idle c" and "alike a c" and "alike c b" and "votedFor b = ''''" and "votedFor c = ''''"
    and "currentTerm a \<noteq> - 1"
  shows "\<exists>a1 ca a2 c1 c2 cc c3 b1.
    prevote_round e a c = Some (a1, ca) \<and> vote_round e a1 ca c = Some (a2, c1) \<and>
    prevote_round e c1 b = Some (c2, cc) \<and> vote_round e c2 cc b = Some (c3, b1) \<and>
    state a2 = Leader \<and> state c3 = Leader \<and> currentTerm a2 = currentTerm a + 1 \<and> currentTerm c3 = currentTerm a + 1"
proof -
  have more: "currentTerm a < currentTerm a + 1" "currentTerm c = currentTerm a" "currentTerm b = currentTerm a"
    using assms(4,5,8) by (auto simp: alike_def u64_less_Suc)
  define c1 where "c1 = cast_vote e (node_id a) (follow e (currentTerm c) '''' c)"
  have c1: "idle c1" "alike c1 b" "currentTerm c1 = currentTerm a"
    using assms(3,5) more by (auto simp: c1_def idle_def alike_def)
  have voters: "leaderID c = ''''" "leaderID b = ''''" "started c" "started b"
    using assms(2,3) by (auto simp: idle_def)
  have "currentTerm c1 < currentTerm c1 + 1"
    using more c1(3) by simp
  note second = prevote_round_idle [OF c1(1) voters(2) c1(2) this, of e] vote_round_idle [OF c1(1) voters(4) assms(6) c1(2) this, of e]
  note first = prevote_round_idle [OF assms(1) voters(1) assms(4) more(1), of e]
    vote_round_idle [OF assms(1) voters(3) assms(7,4) more(1), of e, folded c1_def]
  show ?thesis
    by (intro exI conjI, rule first(1), rule first(2), rule second(1), rule second(2)) (simp_all add: c1(3))
qed

theorem two_leaders_one_term_witness:
  "\<exists>a b c a1 ca a2 c1 c2 cc c3 b1. boot ''a'' [''b'', ''c''] [] = Some a \<and> boot ''b'' [''a'', ''c''] [] = Some b \<and>
     boot ''c'' [''a'', ''b''] [] = Some c \<and>
     prevote_round sample_env a c = Some (a1, ca) \<and> vote_round sample_env a1 ca c = Some (a2, c1) \<and>
     prevote_round sample_env c1 b = Some (c2, cc) \<and> vote_round sample_env c2 cc b = Some (c3, b1) \<and>
     state a2 = Leader \<and> state c3 = Leader \<and> currentTerm a2 = 1 \<and> currentTerm c3 = 1"
proof -
  have fresh: "\<exists>n. boot i ps [] = Some n \<and> idle n \<and> votedFor n = '''' \<and> currentTerm n = 0 \<and> RaftNode.log n = NewRaftLog\<lparr>entries := [sentinel]\<rparr>"
    if "length (build_peers (Peers (sample_cfg i ps)) []) = 2" for i ps
    by (rule boot_eq [of "[]" 0 "''''" "[]" i ps]) (use that in \<open>auto simp: replay_all_def idle_def\<close>)
  obtain a where a: "boot ''a'' [''b'', ''c''] [] = Some a" "idle a" "currentTerm a = 0" "RaftNode.log a = NewRaftLog\<lparr>entries := [sentinel]\<rparr>"
    using fresh [of "''a''" "[''b'', ''c'']"] by (auto simp: sample_cfg_def)
  obtain b where b: "boot ''b'' [''a'', ''c''] [] = Some b" "idle b" "votedFor b = ''''" "currentTerm b = 0"
      "RaftNode.log b = NewRaftLog\<lparr>entries := [sentinel]\<rparr>"
    using fresh [of "''b''" "[''a'', ''c'']"] by (auto simp: sample_cfg_def)
  obtain c where c: "boot ''c'' [''a'', ''b''] [] = Some c" "idle c" "votedFor c = ''''" "currentTerm c = 0"
      "RaftNode.log c = NewRaftLog\<lparr>entries := [sentinel]\<rparr>"
    using fresh [of "''c''" "[''a'', ''b'']"] by (auto simp: sample_cfg_def)
  have "alike a c" "alike c b" "currentTerm a \<noteq> - 1"
    using a b c by (simp_all add: alike_def)
  from two_leaders_one_term [OF a(2) b(2) c(2) this(1,2) b(3) c(3) this(3), of sample_env] a(1,3) b(1) c(1) show ?thesis
    by auto
qed

section \<open>Replication rounds\<close>

text \<open>One run of \<open>replicateTo\<close> whose request and response arrive: leader \<open>n\<close>, follower \<open>f\<close>.\<close>

definition replicate_round :: "env \<Rightarrow> string \<Rightarrow> RaftNode \<times> RaftNode \<Rightarrow> (RaftNode \<times> RaftNode) option" where
  "replicate_round e p = (\<lambda>(n, f). do {
     r \<leftarrow> replicateTo_begin p n;
     (case r of
        None \<Rightarrow> Some (n, f)
      | Some req \<Rightarrow> do {
          (f', resp) \<leftarrow> handleAppendEntries e req f;
          n' \<leftarrow> replicateTo_finish e p req resp n;
          Some (n', f') }) })"

primrec rounds :: "env \<Rightarrow> string \<Rightarrow> nat \<Rightarrow> RaftNode \<times> RaftNode \<Rightarrow> (RaftNode \<times> RaftNode) option" where
  "rounds e p 0 s = Some s"
| "rounds e p (Suc k) s = do { s' \<leftarrow> replicate_round e p s; rounds e p k s' }"

text \<open>A leader that has position \<open>k\<close> and will send what follows it.\<close>

definition sends_after :: "nat \<Rightarrow> string \<Rightarrow> RaftNode \<Rightarrow> bool" where
  "sends_after k p n \<longleftrightarrow> node_log_ok n \<and> state n = Leader \<and> k < length (entries (RaftNode.log n)) \<and>
     (\<exists>x. map_of (peers n) p = Some x \<and> NextIndex x = word_of_nat (Suc k))"

lemma replicateTo_begin_sends:
  assumes "sends_after k p n"
  obtains req where "replicateTo_begin p n = Some (Some req)" and "aq_PrevLogIndex req = word_of_nat k"
    and "unat (aq_PrevLogIndex req) = k" and "aq_PrevLogTerm req = le_Term (entries (RaftNode.log n) ! k)"
    and "aq_Entries req = drop (Suc k) (entries (RaftNode.log n))" and "aq_Term req = currentTerm n"
proof -
  obtain x where x: "map_of (peers n) p = Some x" "NextIndex x = word_of_nat (Suc k)" and n: "state n = Leader" "node_log_ok n"
      and k: "k < length (entries (RaftNode.log n))"
    using assms by (auto simp: sends_after_def)
  have ok: "log_ok (RaftNode.log n)" using n(2) by (simp add: node_log_ok_def)
  note len = log_ok_length [OF ok]
  have "Suc k < 2 ^ 64" using k len by simp
  from unat_word_of_nat_u64 [OF this] have prev: "NextIndex x - 1 = word_of_nat k" "unat (word_of_nat k :: u64) = k" "unat (word_of_nat (Suc k) :: u64) = Suc k"
    using x(2) k len by (simp_all del: of_nat_Suc) simp
  have "\<exists>req. replicateTo_begin p n = Some (Some req)"
    using k len prev unat_LastIndex_Suc [OF ok]
    by (simp add: replicateTo_begin_def n(1) x le_LastIndex_iff [OF ok] GetEntry_def GetEntries_def Let_def u64_less_iff
        del: of_nat_Suc)
  then obtain req where req: "replicateTo_begin p n = Some (Some req)" by blast
  obtain k' y where k': "k' < length (entries (RaftNode.log n))" "map_of (peers n) p = Some y" "NextIndex y = word_of_nat (Suc k')"
      "aq_PrevLogIndex req = word_of_nat k'" "aq_PrevLogTerm req = le_Term (entries (RaftNode.log n) ! k')"
      "aq_Entries req = drop (Suc k') (entries (RaftNode.log n))" "aq_Term req = currentTerm n"
    using replicateTo_begin_cases [OF req n(2)] by metis
  have "unat (word_of_nat (Suc k') :: u64) = Suc k'"
    using k'(1) len by (intro unat_word_of_nat_u64) simp
  moreover have "word_of_nat (Suc k') = (word_of_nat (Suc k) :: u64)"
    using k'(2,3) x by (simp del: of_nat_Suc)
  ultimately have "k' = k"
    using prev(3) by (metis nat.inject)
  then show thesis
    using k' prev(2) req by (intro that) simp_all
qed

section \<open>Replication can get stuck\<close>

text \<open>
  The leader has no entry of the term \<open>tm\<close>, the follower has one at index \<open>tm - 1\<close>, and \<open>tm\<close> is the
  next index for it.
\<close>

definition stuck :: "nat \<Rightarrow> string \<Rightarrow> RaftNode \<times> RaftNode \<Rightarrow> bool" where
  "stuck tm p = (\<lambda>(n, f). 1 < tm \<and> sends_after (tm - 1) p n \<and>
     (\<forall>k. 0 < k \<and> k < length (entries (RaftNode.log n)) \<longrightarrow> le_Term (entries (RaftNode.log n) ! k) \<noteq> word_of_nat tm) \<and>
     started f \<and> currentTerm f \<le> currentTerm n \<and> tm - 1 < length (entries (RaftNode.log f)) \<and>
     le_Term (entries (RaftNode.log f) ! (tm - 1)) = word_of_nat tm)"

lemma stuck_round:
  assumes "stuck tm p (n, f)"
  obtains n' f' where "replicate_round e p (n, f) = Some (n', f')" and "stuck tm p (n', f')"
    and "RaftNode.log f' = RaftNode.log f" and "RaftNode.log n' = RaftNode.log n"
proof -
  let ?T = "word_of_nat tm :: u64"
  have n: "1 < tm" "sends_after (tm - 1) p n" "node_log_ok n" "log_ok (RaftNode.log n)" "state n = Leader"
      "tm - 1 < length (entries (RaftNode.log n))"
      "\<forall>k. 0 < k \<and> k < length (entries (RaftNode.log n)) \<longrightarrow> le_Term (entries (RaftNode.log n) ! k) \<noteq> ?T"
    and f: "started f" "currentTerm f \<le> currentTerm n" "tm - 1 < length (entries (RaftNode.log f))"
      "le_Term (entries (RaftNode.log f) ! (tm - 1)) = ?T"
    using assms by (auto simp: stuck_def sends_after_def node_log_ok_def)
  obtain x where x: "map_of (peers n) p = Some x"
    using n(2) by (auto simp: sends_after_def)
  obtain req where req: "replicateTo_begin p n = Some (Some req)" "unat (aq_PrevLogIndex req) = tm - 1"
      "aq_PrevLogTerm req = le_Term (entries (RaftNode.log n) ! (tm - 1))" "aq_Term req = currentTerm n"
    by (rule replicateTo_begin_sends [OF n(2)])
  let ?f = "follow e (aq_Term req) (aq_LeaderID req) f"
  let ?r = "append_reply False ?T (conflict_start (RaftNode.log f) ?T (aq_PrevLogIndex req)) ?f"
  have "tm \<le> length (entries (RaftNode.log n))"
    using n(1,6) by arith
  then have "tm < 2 ^ 64"
    using log_ok_length [OF n(4)] by simp
  from unat_word_of_nat_u64 [OF this] have T: "0 < ?T"
    using n(1) by (simp add: u64_less_iff)
  have "aq_PrevLogIndex req > 0" "aq_PrevLogTerm req \<noteq> ?T"
    using req(2,3) n(1,6,7) by (simp_all add: u64_less_iff)
  then have handle: "handleAppendEntries e req f = Some (?f, ?r)"
    using f req by (simp add: handleAppendEntries_cases)
  have "backtrack ?r (RaftNode.log n) = ?T"
    using backtrack_absent [OF n(4), of ?r] n(7) T by (simp add: append_reply_def)
  then have finish: "replicateTo_finish e p req ?r n = Some (set_peer p (x\<lparr>NextIndex := ?T\<rparr>) n)"
    using n(5) req(4) x f(2) by (simp add: replicateTo_finish_def append_reply_def max_def)
  have "stuck tm p (set_peer p (x\<lparr>NextIndex := ?T\<rparr>) n, ?f)"
    using assms f req(4) n(1,3,5,6,7) by (simp add: stuck_def sends_after_def update_conv max_def)
  then show thesis
    using req(1) handle finish by (intro that [of "set_peer p (x\<lparr>NextIndex := ?T\<rparr>) n" ?f]) (simp_all add: replicate_round_def)
qed

text \<open>
  C17. Replication can get stuck for ever. When a rejection names a term \<open>tm\<close> that the leader does not
  have, the leader takes the term for an index; if the follower has an entry of that term just
  before that index, any number of further rounds ends in the same rejection: the follower's log
  and the next index never change.
\<close>

theorem replication_livelock:
  assumes "stuck tm p (n, f)"
  shows "\<exists>n' f'. rounds e p k (n, f) = Some (n', f') \<and> RaftNode.log f' = RaftNode.log f \<and>
    (\<exists>x. map_of (peers n') p = Some x \<and> NextIndex x = word_of_nat tm)"
  using assms
proof (induction k arbitrary: n f)
  case 0
  then show ?case by (auto simp: stuck_def sends_after_def)
next
  case (Suc k)
  obtain n1 f1 where r: "replicate_round e p (n, f) = Some (n1, f1)" "stuck tm p (n1, f1)" "RaftNode.log f1 = RaftNode.log f"
    by (rule stuck_round [OF Suc.prems])
  from Suc.IH [OF r(2)] r(1,3) show ?case by auto
qed


lemma sample_stuck:
  obtains n f where "stuck 2 ''b'' (n, f)"
proof -
  define e1 where "e1 = sample_entry\<lparr>le_Term := 2\<rparr>"
  have rs: "list_all rec_ok [RState 2 '''', REntry sample_entry]" "replay_all [RState 2 '''', REntry sample_entry] = (2, '''', [sample_entry])"
    and rs': "list_all rec_ok [RState 2 '''', REntry e1]" "replay_all [RState 2 '''', REntry e1] = (2, '''', [e1])"
    by (simp_all add: id_fits_def sample_entry_def EntryNormal_def replay_all_def e1_def)
  obtain m where m: "boot ''a'' [''b'', ''c''] [RState 2 '''', REntry sample_entry] = Some m" "started m" "currentTerm m = 2"
      "RaftNode.log m = NewRaftLog\<lparr>entries := [sentinel, sample_entry]\<rparr>"
      "peers m = build_peers (Peers (sample_cfg ''a'' [''b'', ''c''])) []"
    by (rule boot_eq [OF rs])
  obtain f where f: "boot ''b'' [''a'', ''c''] [RState 2 '''', REntry e1] = Some f" "started f" "currentTerm f = 2"
      "RaftNode.log f = NewRaftLog\<lparr>entries := [sentinel, e1]\<rparr>"
    by (rule boot_eq [OF rs'])
  have ok: "node_log_ok m"
    by (rule boot_log_ok [OF rs _ _ _ _ m(1)]) (simp_all add: sample_entry_def word_le_nat_alt)
  let ?n = "lead (stand sample_env m)"
  have "node_log_ok ?n"
    using ok m by (intro node_log_ok_lead node_log_ok_stand) (simp_all add: NewRaftLog_def)
  moreover have "map_of (peers ?n) ''b'' = Some \<lparr>p_ID = ''b'', NextIndex = 2, MatchIndex = 0\<rparr>"
    by (simp add: m(4,5) sample_cfg_def reset_peer_def LastIndex_def NewRaftLog_def sample_entry_def)
  moreover have "entries (RaftNode.log ?n) = [sentinel, sample_entry, noop_entry (stand sample_env m)]"
    by (simp add: m(4))
  moreover have "\<forall>k. 0 < k \<and> k < length [sentinel, sample_entry, noop_entry (stand sample_env m)] \<longrightarrow>
      le_Term ([sentinel, sample_entry, noop_entry (stand sample_env m)] ! k) \<noteq> 2"
    by (auto simp: less_Suc_eq sample_entry_def noop_entry_def m(3))
  moreover have "currentTerm f \<le> currentTerm ?n"
    by (simp add: f(3) m(3) word_le_nat_alt)
  ultimately have "stuck 2 ''b'' (?n, f)"
    using f(2,4) by (simp add: stuck_def sends_after_def e1_def)
  then show thesis by (rule that)
qed

theorem replication_livelock_witness:
  "\<exists>n f n' f'. stuck 2 ''b'' (n, f) \<and> rounds sample_env ''b'' 1000 (n, f) = Some (n', f') \<and> RaftNode.log f' = RaftNode.log f"
proof -
  obtain n f where s: "stuck 2 ''b'' (n, f)" by (rule sample_stuck)
  with replication_livelock [OF s, of sample_env 1000] show ?thesis by blast
qed

section \<open>A follower that is only behind catches up\<close>

lemma merge_at_prefix: "merge_at (Suc k) (drop (Suc k) es) (take j es) = es" if "k < j" for es :: "LogEntry list"
proof -
  have "merge_tail (take i xs) xs = xs" for i and xs :: "LogEntry list"
    by (induction xs arbitrary: i) (auto simp: take_Cons split: nat.split)
  from this [of "j - Suc k" "drop (Suc k) es"] that show ?thesis
    by (simp add: merge_at_def take_drop)
qed

text \<open>The log of the follower is the first \<open>j\<close> entries of the leader's.\<close>

definition behind :: "nat \<Rightarrow> nat \<Rightarrow> string \<Rightarrow> RaftNode \<times> RaftNode \<Rightarrow> bool" where
  "behind k j p = (\<lambda>(n, f). sends_after k p n \<and> fits_all (entries (RaftNode.log n)) \<and>
     (\<forall>x. map_of (peers n) p = Some x \<longrightarrow> MatchIndex x \<le> LastIndex (RaftNode.log n)) \<and>
     started f \<and> node_log_ok f \<and> node_durable f \<and> currentTerm f \<le> currentTerm n \<and>
     0 < j \<and> j \<le> length (entries (RaftNode.log n)) \<and> entries (RaftNode.log f) = take j (entries (RaftNode.log n)))"

lemma LastIndex_word: "log_ok l \<Longrightarrow> LastIndex l = word_of_nat (length (entries l) - 1)"
  using arg_cong [OF unat_LastIndex [of l], of "word_of_nat :: nat \<Rightarrow> u64"] by simp

text \<open>The follower has the position before the request and takes over the leader's log.\<close>

lemma behind_follower:
  assumes "behind k j p (n, f)" and "k < j" and "replicateTo_begin p n = Some (Some req)" and "unat (aq_PrevLogIndex req) = k"
    and "aq_PrevLogTerm req = le_Term (entries (RaftNode.log n) ! k)" and "aq_Entries req = drop (Suc k) (entries (RaftNode.log n))"
    and "aq_Term req = currentTerm n"
  obtains f' where "handleAppendEntries e req f = Some (f', append_reply True 0 0 f')" and "node_durable f'" and "node_log_ok f'"
    and "started f'" and "currentTerm f' = currentTerm n" and "entries (RaftNode.log f') = entries (RaftNode.log n)"
proof -
  let ?es = "entries (RaftNode.log n)"
  have n: "node_log_ok n" "fits_all ?es"
    and f: "started f" "node_log_ok f" "node_durable f" "currentTerm f \<le> currentTerm n" "entries (RaftNode.log f) = take j ?es"
    and j: "j \<le> length ?es"
    using assms(1) by (auto simp: behind_def sends_after_def)
  have wf: "aq_wf req"
    by (rule replicateTo_begin_wf(1) [OF assms(3) n])
  have prev: "prev_match req (RaftNode.log f)"
    using assms(2,4,5) j f(5) by (simp add: prev_match_def)
  have "unat (commitIndex (RaftNode.log f)) < j"
    using f(2,5) j by (simp add: node_log_ok_def log_ok_def)
  then have safe: "merge_safe (Suc k) (aq_Entries req) (RaftNode.log f)"
    using assms(2,6) f(5) by (simp add: merge_safe_def merge_at_prefix)
  obtain f' where f': "handleAppendEntries e req f = Some (f', append_reply True 0 0 f')" "node_durable f'"
      "currentTerm f' = currentTerm n" "entries (RaftNode.log f') = ?es"
    using handleAppendEntries_refines [OF f(1-3) wf, of e] safe prev f(4,5) assms(2,4,6,7) by (auto simp: merge_at_prefix)
  have "node_log_ok f'" "started f'"
    using node_log_ok_handleAppendEntries [OF f'(1) f(2) wf] advances_handleAppendEntries [OF f'(1)] f(1) by (auto simp: advances_def)
  with f' show thesis
    by (intro that)
qed

lemma behind_accepts:
  assumes "behind k j p (n, f)" and "k < j"
  obtains n' f' where "replicate_round e p (n, f) = Some (n', f')"
    and "behind (length (entries (RaftNode.log n)) - 1) (length (entries (RaftNode.log n))) p (n', f')"
    and "entries (RaftNode.log n') = entries (RaftNode.log n)"
    and "\<exists>x. map_of (peers n') p = Some x \<and> MatchIndex x = LastIndex (RaftNode.log n)"
proof -
  let ?es = "entries (RaftNode.log n)" and ?L = "LastIndex (RaftNode.log n)"
  have n: "sends_after k p n" "node_log_ok n" "log_ok (RaftNode.log n)" "state n = Leader" "fits_all ?es" "k < length ?es"
    using assms by (auto simp: behind_def sends_after_def node_log_ok_def)
  obtain x where x: "map_of (peers n) p = Some x" "MatchIndex x \<le> ?L"
    using assms(1) by (auto simp: behind_def sends_after_def)
  obtain req where req: "replicateTo_begin p n = Some (Some req)" "aq_PrevLogIndex req = word_of_nat k" "unat (aq_PrevLogIndex req) = k"
      "aq_PrevLogTerm req = le_Term (?es ! k)" "aq_Entries req = drop (Suc k) ?es" "aq_Term req = currentTerm n"
    by (rule replicateTo_begin_sends [OF n(1)])
  obtain f' where f': "handleAppendEntries e req f = Some (f', append_reply True 0 0 f')" "node_durable f'" "node_log_ok f'" "started f'"
      "currentTerm f' = currentTerm n" "entries (RaftNode.log f') = ?es"
    by (rule behind_follower [OF assms req(1,3-6)])
  have "aq_PrevLogIndex req + word_of_nat (length (aq_Entries req)) = ?L"
    using n(6) of_nat_add [of k "length ?es - Suc k", where 'a = u64, symmetric] by (simp add: req(2,5) LastIndex_word [OF n(3)])
  then obtain n' where n': "replicateTo_finish e p req (append_reply True 0 0 f') n = Some n'"
      "map_of (peers n') p = Some (x\<lparr>MatchIndex := ?L, NextIndex := ?L + 1\<rparr>)"
    using replicateTo_finish_success [of n req "append_reply True 0 0 f'" p x e] n(4) req(6) f'(5) x
    by (auto simp: append_reply_def max_def)
  have frame: "entries (RaftNode.log n') = ?es" "state n' = Leader" "currentTerm n' = currentTerm n"
    using n'(1) n(4) req(6) f'(5) x(1) maybeCommit_frame
    by (auto simp: replicateTo_finish_def append_reply_def Let_def)
  have "?L + 1 = word_of_nat (Suc (length ?es - 1))"
    using LastIndex_Suc [OF n(3)] n(6) by simp
  then have "behind (length ?es - 1) (length ?es) p (n', f')"
    using node_log_ok_replicateTo_finish [OF n'(1) n(2)] frame f' n'(2) n(5,6) by (auto simp: behind_def sends_after_def LastIndex_def)
  then show thesis
    using req(1) f'(1) n' frame(1) by (intro that [of n' f']) (simp_all add: replicate_round_def)
qed

lemma behind_backs_up:
  assumes "behind k j p (n, f)" and "j \<le> k"
  obtains n' f' where "replicate_round e p (n, f) = Some (n', f')" and "behind (j - 1) j p (n', f')"
    and "RaftNode.log n' = RaftNode.log n"
proof -
  let ?es = "entries (RaftNode.log n)"
  have n: "sends_after k p n" "node_log_ok n" "log_ok (RaftNode.log n)" "state n = Leader" "fits_all ?es" "k < length ?es"
    and f: "started f" "node_log_ok f" "node_durable f" "currentTerm f \<le> currentTerm n" "entries (RaftNode.log f) = take j ?es"
      "log_ok (RaftNode.log f)"
    and j: "0 < j" "j \<le> length ?es"
    using assms by (auto simp: behind_def sends_after_def node_log_ok_def)
  obtain x where x: "map_of (peers n) p = Some x" "MatchIndex x \<le> LastIndex (RaftNode.log n)"
    using assms(1) by (auto simp: behind_def sends_after_def)
  obtain req where req: "replicateTo_begin p n = Some (Some req)" "unat (aq_PrevLogIndex req) = k" "aq_Term req = currentTerm n"
    by (rule replicateTo_begin_sends [OF n(1)])
  let ?f = "follow e (currentTerm n) (aq_LeaderID req) f"
  let ?r = "append_reply False 0 (word_of_nat j) ?f"
  have "LastIndex (RaftNode.log f) + 1 = word_of_nat j"
    using LastIndex_Suc [OF f(6)] f(5) j(2) by simp
  then have handle: "handleAppendEntries e req f = Some (?f, ?r)"
    using f(1,4,5) req(2,3) assms(2) j by (auto simp: handleAppendEntries_cases u64_less_iff u64_le_iff)
  have "unat (word_of_nat j :: u64) = j"
    using j(2) log_ok_length [OF n(3)] by (intro unat_word_of_nat_u64) simp
  then have "backtrack ?r (RaftNode.log n) = word_of_nat j"
    using j(1) by (simp add: backtrack_def append_reply_def u64_less_iff)
  then have finish: "replicateTo_finish e p req ?r n = Some (set_peer p (x\<lparr>NextIndex := word_of_nat j\<rparr>) n)"
    using n(4) req(3) x f(4) by (simp add: replicateTo_finish_def append_reply_def max_def)
  have "behind (j - 1) j p (set_peer p (x\<lparr>NextIndex := word_of_nat j\<rparr>) n, ?f)"
    using assms(1) n j f x by (auto simp: behind_def sends_after_def update_conv max_def node_log_ok_follow node_durable_follow)
  then show thesis
    using req(1) handle finish by (intro that [of "set_peer p (x\<lparr>NextIndex := word_of_nat j\<rparr>) n" ?f]) (simp_all add: replicate_round_def)
qed

text \<open>
  C16. A follower whose log is a prefix of the leader's catches up in two rounds, however far the
  leader's next index is off: afterwards its log is the leader's, on disk too, and the leader
  knows it.
\<close>

theorem replication_catches_up:
  assumes "behind k j p (n, f)"
  shows "\<exists>n' f' x. rounds e p 2 (n, f) = Some (n', f') \<and> entries (RaftNode.log f') = entries (RaftNode.log n) \<and> node_durable f' \<and>
    map_of (peers n') p = Some x \<and> MatchIndex x = LastIndex (RaftNode.log n)"
proof -
  let ?len = "length (entries (RaftNode.log n))"
  obtain n1 f1 k1 j1 where r1: "replicate_round e p (n, f) = Some (n1, f1)" "behind k1 j1 p (n1, f1)" "k1 < j1"
      "entries (RaftNode.log n1) = entries (RaftNode.log n)"
  proof (cases "k < j")
    case True
    have "?len - 1 < ?len" using assms by (auto simp: behind_def sends_after_def)
    then show thesis
      using behind_accepts [OF assms True, of e] that by metis
  next
    case False
    have "j - 1 < j" using assms by (auto simp: behind_def)
    then show thesis
      using behind_backs_up [OF assms, of e] False that by (metis not_less)
  qed
  obtain n2 f2 where r2: "replicate_round e p (n1, f1) = Some (n2, f2)" "behind (?len - 1) ?len p (n2, f2)"
      "entries (RaftNode.log n2) = entries (RaftNode.log n)" "\<exists>x. map_of (peers n2) p = Some x \<and> MatchIndex x = LastIndex (RaftNode.log n1)"
    using behind_accepts [OF r1(2,3), of e] r1(4) by metis
  have "rounds e p 2 (n, f) = Some (n2, f2)"
    using r1(1) r2(1) by (simp add: numeral_2_eq_2)
  then show ?thesis
    using r2(2-4) r1(4) by (auto simp: behind_def LastIndex_def)
qed



theorem replication_catches_up_witness:
  "\<exists>n f n' f'. behind 1 1 ''b'' (n, f) \<and> rounds sample_env ''b'' 2 (n, f) = Some (n', f') \<and>
     length (entries (RaftNode.log f)) = 1 \<and> length (entries (RaftNode.log f')) = 3"
proof -
  obtain n where n: "node_log_ok n" "state n = Leader" "currentTerm n = 3"
      "peers n = map (\<lambda>k. (k, \<lparr>p_ID = k, NextIndex = 2, MatchIndex = 0\<rparr>)) [''b'', ''c'']"
      "RaftNode.log n = \<lparr>entries = [sentinel, sample_entry, \<lparr>le_Index = 2, le_Term = 3, le_Type = EntryNormal, le_Data = []\<rparr>],
           commitIndex = 0, lastApplied = 0\<rparr>"
    by (rule sample_leader) blast
  obtain f where f: "started f" "node_durable f" "node_log_ok f" "currentTerm f = 0" "RaftNode.log f = NewRaftLog"
    by (rule sample_voter) blast
  have "behind 1 1 ''b'' (n, f)"
    using f n(1-3)
    by (simp add: behind_def sends_after_def n(4,5) NewRaftLog_def sentinel_def sample_entry_def EntryNormal_def LastIndex_def)
  from replication_catches_up [OF this, of sample_env] this f(5) n(5) show ?thesis
    by (fastforce simp: NewRaftLog_def)
qed

end
