(* ===== verification/Raft_Divergence.thy ===== *)
theory Raft_Divergence
  imports Raft_Cluster
begin

text \<open>
  What two leaders of one term do to the data. Both are elected as in \<open>two_leaders_one_term\<close>, both
  accept a write, and one follower acknowledges both: the append handler compares only the terms of
  entries (\<open>src/raft/replication.go\<close>), so it keeps the first write and reports success for the second.
\<close>

section \<open>The run\<close>

definition diverging_run ::
    "env \<Rightarrow> byte list \<Rightarrow> byte list \<Rightarrow> RaftNode \<Rightarrow> RaftNode \<Rightarrow> RaftNode \<Rightarrow> (RaftNode \<times> RaftNode \<times> RaftNode) option" where
  "diverging_run e x y a b c = do {
     (a1, ca) \<leftarrow> prevote_round e a c;
     (a2, c1) \<leftarrow> vote_round e a1 ca c;
     (c2, cc) \<leftarrow> prevote_round e c1 b;
     (c3, b1) \<leftarrow> vote_round e c2 cc b;
     (a4, b2) \<leftarrow> replicate_round e ''b'' (fst (Propose x a2), b1);
     (c4, b3) \<leftarrow> replicate_round e ''b'' (fst (Propose y c3), b2);
     Some (a4, b3, c4) }"

section \<open>New nodes and their logs\<close>

definition newborn :: "string \<Rightarrow> string list \<Rightarrow> RaftNode \<Rightarrow> bool" where
  "newborn i ps n \<longleftrightarrow> node_inv n \<and> idle n \<and> currentTerm n = 0 \<and> RaftNode.log n = NewRaftLog \<and> node_id n = i \<and> map fst (peers n) = ps"

definition wrote :: "byte list \<Rightarrow> LogEntry list" where
  "wrote d = [\<lparr>le_Index = 1, le_Term = 1, le_Type = EntryNormal, le_Data = []\<rparr>, \<lparr>le_Index = 2, le_Term = 1, le_Type = EntryNormal, le_Data = d\<rparr>]"

lemma boot_newborn:
  assumes "boot i [p, q] [] = Some n" and "distinct [i, p, q]" and "id_fits i"
  shows "newborn i [p, q] n" and "votedFor n = ''''"
proof -
  obtain m where m: "boot i [p, q] [] = Some m" "started m" "node_durable m" "node_id m = i" "currentTerm m = 0" "votedFor m = ''''"
      "state m = Follower" "leaderID m = ''''" "RaftNode.log m = NewRaftLog\<lparr>entries := [sentinel]\<rparr>" "config m = sample_cfg i [p, q]"
      "peers m = build_peers (Peers (sample_cfg i [p, q])) []"
    by (rule boot_eq [of "[]" 0 "''''" "[]" i "[p, q]"]) (auto simp: replay_all_def)
  have n: "n = m" and log: "RaftNode.log m = NewRaftLog"
    using m(1,9) assms(1) by (simp_all add: NewRaftLog_def)
  have "node_log_ok m"
    using m(5) log by (simp add: node_log_ok_def LastTerm_def NewRaftLog_def sentinel_def log_ok_def)
  then show "newborn i [p, q] n" "votedFor n = ''''"
    using m log assms by (auto simp: n newborn_def node_inv_def idle_def peers_ok_def sample_cfg_def DefaultConfig_def)
qed

text \<open>A leader of term 1 that has written \<open>d\<close> and knows nothing of its peers yet.\<close>

definition fresh_leader :: "byte list \<Rightarrow> RaftNode \<Rightarrow> bool" where
  "fresh_leader d n \<longleftrightarrow> state n = Leader \<and> currentTerm n = 1 \<and> node_log_ok n \<and> peers_ok n \<and> length (peers n) = 2 \<and>
     entries (RaftNode.log n) = sentinel # wrote d \<and> commitIndex (RaftNode.log n) = 0 \<and> fits_all (entries (RaftNode.log n)) \<and>
     (\<forall>p \<in> set (peers n). NextIndex (snd p) = 1 \<and> MatchIndex (snd p) = 0)"

lemma Propose_frame:
  "state (fst (Propose d n)) = state n" "currentTerm (fst (Propose d n)) = currentTerm n" "peers (fst (Propose d n)) = peers n"
  "node_id (fst (Propose d n)) = node_id n" "commitIndex (RaftNode.log (fst (Propose d n))) = commitIndex (RaftNode.log n)"
  by (auto simp: Propose_def Append_def Let_def split: prod.split option.split)

lemma leader_keys: "fst ` set (peers (fst (Propose d (lead (stand e (n\<lparr>state := PreCandidate\<rparr>)))))) = fst ` set (peers n)"
  by (simp add: Propose_frame image_image case_prod_beta)

lemma elected_writes:
  assumes "node_inv n" and "idle n" and "currentTerm n = 0" and "RaftNode.log n = NewRaftLog" and "length d < 2 ^ 32 - 22"
  shows "fresh_leader d (fst (Propose d (lead (stand e (n\<lparr>state := PreCandidate\<rparr>)))))"
proof -
  let ?s = "stand e (n\<lparr>state := PreCandidate\<rparr>)"
  let ?p = "fst (Propose d (lead ?s))"
  have inv: "node_log_ok n" "node_durable n" "peers_ok n" "id_fits (node_id n)" "length (peers n) = 2"
    using assms(1,2) by (simp_all add: node_inv_def idle_def)
  have "node_log_ok (n\<lparr>state := PreCandidate\<rparr>)" "node_durable (n\<lparr>state := PreCandidate\<rparr>)"
    using inv by (simp_all add: node_log_ok_def node_durable_def)
  then have s: "node_log_ok ?s" "node_durable ?s"
    using inv(4) assms(3) by (simp_all add: node_log_ok_stand node_durable_stand)
  then have lead: "node_log_ok (lead ?s)" "node_durable (lead ?s)"
    using assms(4) by (simp_all add: node_log_ok_lead node_durable_lead NewRaftLog_def)
  have "LastIndex (RaftNode.log (lead ?s)) = 1" "entries (RaftNode.log (lead ?s)) = [sentinel, \<lparr>le_Index = 1, le_Term = 1, le_Type = EntryNormal, le_Data = []\<rparr>]"
    by (simp_all add: assms(3,4) NewRaftLog_def noop_entry_def LastIndex_def sentinel_def)
  moreover obtain p where "Propose d (lead ?s) = (p, Inr (LastIndex (RaftNode.log (lead ?s)) + 1, currentTerm (lead ?s), next_ch (lead ?s)))"
      "entries (RaftNode.log p) = entries (RaftNode.log (lead ?s)) @ [\<lparr>le_Index = LastIndex (RaftNode.log (lead ?s)) + 1,
         le_Term = currentTerm (lead ?s), le_Type = EntryNormal, le_Data = d\<rparr>]"
    by (rule Propose_durable [OF lead(2,1) lead_simps(5) assms(5)])
  ultimately have l: "entries (RaftNode.log ?p) = sentinel # wrote d"
    by (simp add: wrote_def assms(3) del: lead_simps(7))
  have "node_log_ok ?p"
    using node_log_ok_Propose [OF lead(1)] assms(4) by (simp add: NewRaftLog_def)
  moreover have "fits_all (sentinel # wrote d)"
    using assms(5) by (simp add: wrote_def sentinel_def EntryNormal_def)
  moreover have "peers_ok ?p" "length (peers ?p) = 2" "\<forall>p \<in> set (peers ?p). NextIndex (snd p) = 1 \<and> MatchIndex (snd p) = 0"
    using inv(3,5) by (auto simp: Propose_frame peers_ok_def comp_def case_prod_beta image_image reset_peer_def assms(4) NewRaftLog_def LastIndex_def sentinel_def)
  ultimately show ?thesis
    using l by (simp add: fresh_leader_def Propose_frame assms(3,4) NewRaftLog_def)
qed

text \<open>A follower whose entries behind the sentinel, if any, are of term 1 too.\<close>

definition fresh_follower :: "LogEntry list \<Rightarrow> RaftNode \<Rightarrow> bool" where
  "fresh_follower es f \<longleftrightarrow> started f \<and> node_log_ok f \<and> node_durable f \<and> currentTerm f \<le> 1 \<and>
     commitIndex (RaftNode.log f) = 0 \<and> entries (RaftNode.log f) = sentinel # es"

lemma fresh_request:
  assumes "fresh_leader d n" and "p \<in> fst ` set (peers n)"
  obtains req x where "replicateTo_begin p n = Some (Some req)" and "aq_PrevLogIndex req = 0" and "aq_Entries req = wrote d"
    and "aq_Term req = 1" and "aq_LeaderCommit req = 0" and "aq_wf req" and "map_of (peers n) p = Some x" and "MatchIndex x = 0"
proof -
  obtain x where x: "(p, x) \<in> set (peers n)" "map_of (peers n) p = Some x"
    using assms by (metis (no_types, lifting) image_iff map_of_SomeD prod.collapse domIff dom_map_of_conv_image_fst option.exhaust)
  have n: "sends_after 0 p n" "node_log_ok n" "fits_all (entries (RaftNode.log n))" "MatchIndex x = 0"
    using assms(1) x by (auto simp: fresh_leader_def sends_after_def)
  obtain req where req: "replicateTo_begin p n = Some (Some req)" "aq_PrevLogIndex req = word_of_nat 0"
      "aq_Entries req = drop (Suc 0) (entries (RaftNode.log n))" "aq_Term req = currentTerm n"
    by (rule replicateTo_begin_sends [OF n(1)])
  have "aq_LeaderCommit req = commitIndex (RaftNode.log n)"
    by (rule replicateTo_begin_cases [OF req(1) n(2)])
  then show thesis
    using req x(2) n(4) replicateTo_begin_wf(1) [OF req(1) n(2,3)] assms(1) by (intro that [of req x]) (simp_all add: fresh_leader_def)
qed

lemma fresh_handle:
  assumes "fresh_follower es f" and "aq_PrevLogIndex req = 0" and "aq_Term req = 1" and "aq_LeaderCommit req = 0" and "aq_wf req"
  obtains f' where "handleAppendEntries e req f = Some (f', append_reply True 0 0 f')" and "fresh_follower (merge_tail es (aq_Entries req)) f'"
    and "currentTerm f' = 1"
proof -
  have f: "started f" "node_log_ok f" "node_durable f" "currentTerm f \<le> aq_Term req" "entries (RaftNode.log f) = sentinel # es"
      "commitIndex (RaftNode.log f) = 0"
    using assms(1,3) by (simp_all add: fresh_follower_def)
  have prev: "prev_match req (RaftNode.log f)" and safe: "merge_safe (Suc (unat (aq_PrevLogIndex req))) (aq_Entries req) (RaftNode.log f)"
    by (simp_all add: prev_match_def merge_safe_def merge_at_def assms(2) f(5,6))
  obtain f' where f': "handleAppendEntries e req f = Some (f', append_reply True 0 0 f')" "node_durable f'" "currentTerm f' = 1"
      "entries (RaftNode.log f') = sentinel # merge_tail es (aq_Entries req)" "commitIndex (RaftNode.log f') = 0"
    using handleAppendEntries_refines [OF f(1-3) assms(5) f(4) prev, of e] safe
    by (auto simp: merge_at_def assms(2-4) f(5,6))
  moreover have "node_log_ok f'" "started f'"
    using node_log_ok_handleAppendEntries [OF f'(1) f(2) assms(5)] advances_handleAppendEntries [OF f'(1)] f(1) by (auto simp: advances_def)
  ultimately show thesis
    by (intro that [of f']) (simp_all add: fresh_follower_def)
qed

text \<open>One acknowledgement is a quorum with the leader: everything is committed.\<close>

lemma fresh_commit:
  assumes "fresh_leader d n" and "map_of (peers n) p = Some x" and "MatchIndex x = 0"
    and "aq_Term req = 1" "aq_PrevLogIndex req = 0" "aq_Entries req = wrote d" "ar_Term resp = 1" "ar_Success resp"
  obtains n' where "replicateTo_finish e p req resp n = Some n'" and "entries (RaftNode.log n') = sentinel # wrote d"
    and "commitIndex (RaftNode.log n') = 2"
proof -
  let ?n = "set_peer p (x\<lparr>MatchIndex := 2, NextIndex := 3\<rparr>) n"
  have n: "state n = Leader" "currentTerm n = 1" "node_log_ok n" "peers_ok n" "length (peers n) = 2"
      "entries (RaftNode.log n) = sentinel # wrote d" "\<forall>p \<in> set (peers n). MatchIndex (snd p) = 0"
    using assms(1) by (simp_all add: fresh_leader_def)
  obtain n' where n': "maybeCommit ?n = Some n'"
    using maybeCommit_total by blast
  have fin: "replicateTo_finish e p req resp n = Some n'"
    using n' n(1,2) assms(2-8) by (simp add: replicateTo_finish_def wrote_def Let_def)
  have ents: "entries (RaftNode.log n') = sentinel # wrote d"
    using maybeCommit_frame(7) [OF n'] n(6) by simp
  have keys: "map fst (peers ?n) = map fst (peers n)"
    using assms(2) by (auto simp: update_keys set_peer_def map_of_eq_None_iff dest: map_of_SomeD intro: rev_image_eqI)
  have "peers_ok ?n \<longleftrightarrow> peers_ok n"
    unfolding peers_ok_def list.set_map [symmetric] keys by simp
  then have ok: "peers_ok ?n" "node_log_ok ?n" "state ?n = Leader" "length (peers ?n) = 2"
    using n arg_cong [OF keys, of length] by (simp_all add: set_peer_def node_log_ok_def)
  have mem: "(p, x\<lparr>MatchIndex := 2, NextIndex := 3\<rparr>) \<in> set (peers ?n)"
    by (intro map_of_SomeD) (simp add: update_conv)
  have match: "\<forall>q \<in> set (peers ?n). MatchIndex (snd q) \<le> LastIndex (RaftNode.log ?n)"
    using n(6,7) by (auto simp: set_peer_def LastIndex_def wrote_def dest!: update_member)
  have "p \<in> fst ` {q \<in> set (peers ?n). 2 \<le> MatchIndex (snd q)}"
    using mem by (intro image_eqI [of _ fst "(p, x\<lparr>MatchIndex := 2, NextIndex := 3\<rparr>)"]) simp_all
  then have "{node_id ?n, p} \<subseteq> replicated_on 2 ?n" "node_id ?n \<noteq> p" "replicated_on 2 ?n \<subseteq> cluster_ids ?n"
    using ok(1) n(6) by (auto simp: replicated_on_def LastIndex_def wrote_def peers_ok_def cluster_ids_def)
  then have "node_quorum ?n (replicated_on 2 ?n)"
    using ok(1,4) card_mono [of "replicated_on 2 ?n" "{node_id ?n, p}"] by (simp add: node_quorum_def quorum_def replicated_on_def)
  from maybeCommit_complete [OF n' ok(3,2,1) match this] have "2 \<le> commitIndex (RaftNode.log n')"
    using n(2,6) by (simp add: set_peer_def wrote_def)
  moreover have "log_ok (RaftNode.log n')"
    using node_log_ok_maybeCommit [OF n' ok(2)] by (simp add: node_log_ok_def)
  ultimately have "commitIndex (RaftNode.log n') = 2"
    using ents by (auto simp: log_ok_def wrote_def u64_eq_iff u64_le_iff)
  with fin ents show thesis by (intro that)
qed

lemma fresh_round:
  assumes "fresh_leader d n" and "fresh_follower es f" and "p \<in> fst ` set (peers n)"
  obtains n' f' where "replicate_round e p (n, f) = Some (n', f')" and "entries (RaftNode.log n') = sentinel # wrote d"
    and "commitIndex (RaftNode.log n') = 2" and "fresh_follower (merge_tail es (wrote d)) f'"
proof -
  obtain req x where req: "replicateTo_begin p n = Some (Some req)" "aq_PrevLogIndex req = 0" "aq_Entries req = wrote d"
      "aq_Term req = 1" "aq_LeaderCommit req = 0" "aq_wf req" "map_of (peers n) p = Some x" "MatchIndex x = 0"
    by (rule fresh_request [OF assms(1,3)])
  obtain f' where f': "handleAppendEntries e req f = Some (f', append_reply True 0 0 f')" "fresh_follower (merge_tail es (aq_Entries req)) f'"
      "currentTerm f' = 1"
    by (rule fresh_handle [OF assms(2) req(2,4-6)])
  have "ar_Term (append_reply True 0 0 f') = 1" "ar_Success (append_reply True 0 0 f')"
    by (simp_all add: append_reply_def f'(3))
  then obtain n' where "replicateTo_finish e p req (append_reply True 0 0 f') n = Some n'" "entries (RaftNode.log n') = sentinel # wrote d"
      "commitIndex (RaftNode.log n') = 2"
    by (rule fresh_commit [OF assms(1) req(7,8,4,2,3)])
  then show thesis
    using req(1,3) f' by (intro that [of n' f']) (simp_all add: replicate_round_def)
qed

text \<open>What a vote in the first election leaves.\<close>

lemma voted_newborn:
  fixes e :: env
  assumes "newborn i ps v" and "votedFor v = ''''" and "id_fits cand"
  defines "w \<equiv> cast_vote e cand (follow e (currentTerm v) '''' v)"
  shows "node_inv w" and "idle w" and "currentTerm w = 0" and "RaftNode.log w = NewRaftLog" and "peers w = peers v" and "fresh_follower [] w"
proof -
  have v: "node_inv v" "started v" "currentTerm v = 0" "RaftNode.log v = NewRaftLog" "idle v"
    using assms(1) by (simp_all add: newborn_def idle_def)
  let ?req = "\<lparr>vq_Term = 1, vq_CandidateID = cand, vq_LastLogIndex = 0, vq_LastLogTerm = 0, vq_PreVote = False\<rparr>"
  have "may_vote ?req v"
    using v assms(2) by (simp add: may_vote_def logIsUpToDate_def NewRaftLog_def LastTerm_def LastIndex_def sentinel_def)
  then have "step e (EvVote ?req) v = Some w"
    by (simp add: handleRequestVote_started [OF v(2)] w_def v(3) Let_def)
  moreover have "event_ok (EvVote ?req) v"
    using assms(3) by simp
  ultimately show inv: "node_inv w"
    using step_inv [OF v(1)] by (metis option.inject)
  show "idle w" "currentTerm w = 0" "RaftNode.log w = NewRaftLog" "peers w = peers v"
    using v by (simp_all add: w_def idle_def)
  with inv show "fresh_follower [] w"
    by (simp add: fresh_follower_def node_inv_def NewRaftLog_def)
qed

section \<open>Two committed writes at one index\<close>

text \<open>
  C13. State machine safety fails. Three new nodes, no crash, no lost message: \<open>a\<close> and \<open>c\<close> are elected for
  term 1, each accepts a write at index 2, and \<open>b\<close> acknowledges both. Both writes are committed, so
  the first replica applies \<open>x\<close> and the other one \<open>y\<close> at the same index.
\<close>

theorem committed_writes_diverge:
  assumes "boot ''a'' [''b'', ''c''] [] = Some a" and "boot ''b'' [''a'', ''c''] [] = Some b" and "boot ''c'' [''a'', ''b''] [] = Some c"
    and "length x < 2 ^ 32 - 22" and "length y < 2 ^ 32 - 22"
  shows "\<exists>a' b' c' ea ec. diverging_run e x y a b c = Some (a', b', c') \<and> commitIndex (RaftNode.log a') = 2 \<and> commitIndex (RaftNode.log c') = 2 \<and>
    GetEntry 2 (RaftNode.log a') = Inr ea \<and> GetEntry 2 (RaftNode.log c') = Inr ec \<and> le_Data ea = x \<and> le_Data ec = y \<and> le_Term ea = le_Term ec"
proof -
  have ids: "id_fits ''a''" "id_fits ''b''" "id_fits ''c''"
    by (simp_all add: id_fits_def)
  have nodes: "newborn ''a'' [''b'', ''c''] a" "newborn ''b'' [''a'', ''c''] b" "newborn ''c'' [''a'', ''b''] c"
    and votes: "votedFor b = ''''" "votedFor c = ''''"
    using boot_newborn [OF assms(1) _ ids(1)] boot_newborn [OF assms(2) _ ids(2)] boot_newborn [OF assms(3) _ ids(3)] by simp_all
  define a2 where "a2 = lead (stand e (a\<lparr>state := PreCandidate\<rparr>))"
  define c1 where "c1 = cast_vote e (node_id a) (follow e (currentTerm c) '''' c)"
  define c3 where "c3 = lead (stand e (c1\<lparr>state := PreCandidate\<rparr>))"
  define b1 where "b1 = cast_vote e (node_id c1) (follow e (currentTerm b) '''' b)"
  have a: "idle a" "node_inv a" "currentTerm a = 0" "RaftNode.log a = NewRaftLog" "map fst (peers a) = [''b'', ''c'']"
    and b: "leaderID b = ''''" "started b" "currentTerm b = 0" "RaftNode.log b = NewRaftLog"
    and c: "leaderID c = ''''" "started c" "currentTerm c = 0" "RaftNode.log c = NewRaftLog" "map fst (peers c) = [''a'', ''b'']"
    using nodes by (auto simp: newborn_def idle_def)
  note c1 = voted_newborn [OF nodes(3) votes(2), of "node_id a" e, folded c1_def]
  note b1 = voted_newborn [OF nodes(2) votes(1), of "node_id c1" e, folded b1_def]
  have fits: "id_fits (node_id a)" "id_fits (node_id c1)"
    using nodes ids by (simp_all add: newborn_def c1_def)
  have e1: "prevote_round e a c = Some (stand e (a\<lparr>state := PreCandidate\<rparr>), camp False a)"
      "vote_round e (stand e (a\<lparr>state := PreCandidate\<rparr>)) (camp False a) c = Some (a2, c1)"
    using prevote_round_idle [OF a(1) c(1), of e] vote_round_idle [OF a(1) c(2) votes(2), of e] a(3,4) c(3,4)
    unfolding a2_def c1_def by (simp_all add: alike_def)
  have e2: "prevote_round e c1 b = Some (stand e (c1\<lparr>state := PreCandidate\<rparr>), camp False c1)"
      "vote_round e (stand e (c1\<lparr>state := PreCandidate\<rparr>)) (camp False c1) b = Some (c3, b1)"
    using prevote_round_idle [OF c1(2) b(1), of e] vote_round_idle [OF c1(2) b(2) votes(1), of e] c1(3,4) b(3,4) fits
    unfolding c3_def b1_def by (simp_all add: alike_def)
  have keys: "''b'' \<in> fst ` set (peers a)" "''b'' \<in> fst ` set (peers c1)"
    using arg_cong [OF a(5), of set] arg_cong [OF c(5), of set] c1(5) fits by simp_all
  have l1: "fresh_leader x (fst (Propose x a2))" "''b'' \<in> fst ` set (peers (fst (Propose x a2)))"
    using elected_writes [OF a(2,1,3,4) assms(4), of e] keys(1) unfolding a2_def leader_keys by simp_all
  have l2: "fresh_leader y (fst (Propose y c3))" "''b'' \<in> fst ` set (peers (fst (Propose y c3)))"
    using elected_writes [OF c1(1-4) assms(5), of e] keys(2) fits unfolding c3_def leader_keys by simp_all
  obtain a4 b2 where r1: "replicate_round e ''b'' (fst (Propose x a2), b1) = Some (a4, b2)" "entries (RaftNode.log a4) = sentinel # wrote x"
      "commitIndex (RaftNode.log a4) = 2" "fresh_follower (merge_tail [] (wrote x)) b2"
    by (rule fresh_round [OF l1(1) b1(6) [OF fits(2)] l1(2)])
  obtain c4 b3 where r2: "replicate_round e ''b'' (fst (Propose y c3), b2) = Some (c4, b3)" "entries (RaftNode.log c4) = sentinel # wrote y"
      "commitIndex (RaftNode.log c4) = 2"
    by (rule fresh_round [OF l2(1) r1(4) l2(2)])
  have "diverging_run e x y a b c = Some (a4, b3, c4)"
    using e1 e2 r1(1) r2(1) by (simp add: diverging_run_def)
  then show ?thesis
    using r1(2,3) r2(2,3) by (simp add: GetEntry_Inr wrote_def)
qed

theorem committed_writes_diverge_witness:
  "\<exists>a b c a' b' c' ea ec. boot ''a'' [''b'', ''c''] [] = Some a \<and> diverging_run sample_env [1] [2] a b c = Some (a', b', c') \<and>
     commitIndex (RaftNode.log a') = 2 \<and> commitIndex (RaftNode.log c') = 2 \<and>
     GetEntry 2 (RaftNode.log a') = Inr ea \<and> GetEntry 2 (RaftNode.log c') = Inr ec \<and> ea \<noteq> ec"
proof -
  have "\<exists>n. boot i ps [] = Some n" for i ps
    by (rule boot_eq [of "[]" 0 "''''" "[]" i ps]) (auto simp: replay_all_def)
  then obtain a b c where abc: "boot ''a'' [''b'', ''c''] [] = Some a" "boot ''b'' [''a'', ''c''] [] = Some b" "boot ''c'' [''a'', ''b''] [] = Some c"
    by metis
  from committed_writes_diverge [OF this, of "[1]" "[2]" sample_env]
  obtain a' b' c' ea ec where r: "diverging_run sample_env [1] [2] a b c = Some (a', b', c')" "commitIndex (RaftNode.log a') = 2"
      "commitIndex (RaftNode.log c') = 2" "GetEntry 2 (RaftNode.log a') = Inr ea" "GetEntry 2 (RaftNode.log c') = Inr ec"
      "le_Data ea = [1]" "le_Data ec = [2]"
    by auto
  moreover from r(6,7) have "ea \<noteq> ec" by auto
  ultimately show ?thesis
    using abc(1) by blast
qed

end
