(* ===== verification/Net_Proxy.thy ===== *)
theory Net_Proxy
  imports Complex_Main Raft_Prelude
begin

text \<open>
  The fault-injecting proxy in front of every outbound message, \<open>src/transport/proxy.go\<close>.
  The two random numbers that one evaluation may draw are inputs. A float64 is modelled by the
  rational number it stands for.
\<close>

section \<open>Rules\<close>

datatype ProxyAction = ActionPass | ActionDrop | ActionDelay | ActionLoss | ActionOther int

fun ProxyAction_String :: "ProxyAction \<Rightarrow> string" where
  "ProxyAction_String ActionPass = ''pass''"
| "ProxyAction_String ActionDrop = ''drop''"
| "ProxyAction_String ActionDelay = ''delay''"
| "ProxyAction_String ActionLoss = ''loss''"
| "ProxyAction_String (ActionOther _) = ''unknown''"

text \<open>The dynamic values of the \<open>interface{}\<close> parameters that the code tests for.\<close>

datatype param = PInt int | PFloat rat | POther

record ProxyRule =
  r_ID :: string
  FromNode :: string
  ToNode :: string
  r_Action :: ProxyAction
  Params :: "(string \<times> param) list"

record NetworkProxy =
  rules :: "ProxyRule list"

section \<open>Operations\<close>

definition NewNetworkProxy :: NetworkProxy where
  "NewNetworkProxy = \<lparr>rules = []\<rparr>"

definition AddRule :: "ProxyRule \<Rightarrow> NetworkProxy \<Rightarrow> NetworkProxy" where
  "AddRule rule p = p\<lparr>rules := rules p @ [rule]\<rparr>"

definition RemoveRule :: "string \<Rightarrow> NetworkProxy \<Rightarrow> NetworkProxy" where
  "RemoveRule i p = p\<lparr>rules := filter (\<lambda>rule. r_ID rule \<noteq> i) (rules p)\<rparr>"

definition ClearRules :: "NetworkProxy \<Rightarrow> NetworkProxy" where
  "ClearRules p = p\<lparr>rules := []\<rparr>"

definition Rules :: "NetworkProxy \<Rightarrow> ProxyRule list" where
  "Rules p = rules p"

definition matches :: "ProxyRule \<Rightarrow> string \<Rightarrow> string \<Rightarrow> bool" where
  "matches rule src dst \<longleftrightarrow> (FromNode rule = '''' \<or> FromNode rule = src) \<and> (ToNode rule = '''' \<or> ToNode rule = dst)"

definition int_param :: "string \<Rightarrow> ProxyRule \<Rightarrow> int option" where
  "int_param k rule = (case map_of (Params rule) k of Some (PInt v) \<Rightarrow> Some v | _ \<Rightarrow> None)"

definition float_param :: "string \<Rightarrow> ProxyRule \<Rightarrow> rat option" where
  "float_param k rule = (case map_of (Params rule) k of Some (PFloat v) \<Rightarrow> Some v | _ \<Rightarrow> None)"

record draw =
  d_int :: int
  d_float :: rat

text \<open>The \<open>switch\<close> of one matching rule; \<open>None\<close> is an action outside the list, which falls through.\<close>

definition rule_verdict :: "draw \<Rightarrow> ProxyRule \<Rightarrow> (bool \<times> duration) option" where
  "rule_verdict d rule =
     (case r_Action rule of
        ActionDrop \<Rightarrow> Some (False, 0)
      | ActionDelay \<Rightarrow>
          let ms = (case int_param ''delay_ms'' rule of Some v \<Rightarrow> v | None \<Rightarrow> 0);
              jitter = (case int_param ''jitter_ms'' rule of Some v \<Rightarrow> if v > 0 then d_int d mod v else 0 | None \<Rightarrow> 0)
          in Some (True, wrap64 (wrap64 (ms + jitter) * 1000000))
      | ActionLoss \<Rightarrow>
          let rate = (case float_param ''loss_rate'' rule of Some v \<Rightarrow> v | None \<Rightarrow> 0)
          in Some (if d_float d < rate then (False, 0) else (True, 0))
      | ActionPass \<Rightarrow> Some (True, 0)
      | ActionOther _ \<Rightarrow> None)"

fun eval_rules :: "draw \<Rightarrow> ProxyRule list \<Rightarrow> string \<Rightarrow> string \<Rightarrow> bool \<times> duration" where
  "eval_rules d [] src dst = (True, 0)"
| "eval_rules d (rule # rs) src dst =
     (if \<not> matches rule src dst then eval_rules d rs src dst
      else (case rule_verdict d rule of Some v \<Rightarrow> v | None \<Rightarrow> eval_rules d rs src dst))"

definition ShouldDeliver :: "draw \<Rightarrow> string \<Rightarrow> string \<Rightarrow> NetworkProxy \<Rightarrow> bool \<times> duration" where
  "ShouldDeliver d src dst p = eval_rules d (rules p) src dst"

section \<open>First match wins\<close>

definition decides :: "draw \<Rightarrow> string \<Rightarrow> string \<Rightarrow> ProxyRule \<Rightarrow> bool" where
  "decides d src dst rule \<longleftrightarrow> matches rule src dst \<and> rule_verdict d rule \<noteq> None"

lemma eval_rules_skip: "\<forall>r \<in> set rs. \<not> decides d src dst r \<Longrightarrow> eval_rules d (rs @ rs') src dst = eval_rules d rs' src dst"
  by (induction rs) (auto simp: decides_def split: option.split)

lemma eval_rules_first:
  "\<forall>r \<in> set rs. \<not> decides d src dst r \<Longrightarrow> matches rule src dst \<Longrightarrow> rule_verdict d rule = Some v \<Longrightarrow>
   eval_rules d (rs @ rule # rs') src dst = v"
  using eval_rules_skip [of rs d src dst "rule # rs'"] by simp

lemma eval_rules_none: "\<forall>r \<in> set rs. \<not> decides d src dst r \<Longrightarrow> eval_rules d rs src dst = (True, 0)"
  using eval_rules_skip [of rs d src dst "[]"] by simp

lemma eval_rules_append_decided:
  "\<exists>r \<in> set rs. decides d src dst r \<Longrightarrow> eval_rules d (rs @ rs') src dst = eval_rules d rs src dst"
  by (induction rs) (auto simp: decides_def split: option.split)

lemma decides_drop: "r_Action rule = ActionDrop \<Longrightarrow> decides d src dst rule \<longleftrightarrow> matches rule src dst"
  by (simp add: decides_def rule_verdict_def)


lemma RemoveRule_AddRule:
  "\<forall>r \<in> set (rules p). r_ID r \<noteq> r_ID rule \<Longrightarrow> RemoveRule (r_ID rule) (AddRule rule p) = p"
  by (simp add: RemoveRule_def AddRule_def filter_True)

lemma RemoveRule_commute: "RemoveRule i (RemoveRule j p) = RemoveRule j (RemoveRule i p)"
  by (simp add: RemoveRule_def conj_commute)

section \<open>Properties of the proxy\<close>

text \<open>
  Rules are evaluated in order and the first deciding one wins: rules before it that do not
  match, or carry an unknown action, and all rules after it have no influence; when none
  decides the message is delivered at once.
\<close>

theorem proxy_first_match_wins:
  assumes "\<forall>r \<in> set rs. \<not> (matches r src dst \<and> rule_verdict d r \<noteq> None)"
  shows "ShouldDeliver d src dst \<lparr>rules = rs\<rparr> = (True, 0) \<and>
     (matches rule src dst \<and> rule_verdict d rule = Some v \<longrightarrow> ShouldDeliver d src dst \<lparr>rules = rs @ rule # rs'\<rparr> = v)"
  using assms eval_rules_none [of rs d src dst] eval_rules_first [of rs d src dst rule v rs']
  by (simp add: ShouldDeliver_def decides_def)

theorem proxy_first_match_wins_witness:
  "ShouldDeliver \<lparr>d_int = 3, d_float = 0\<rparr> ''a'' ''b'' \<lparr>rules = [] @
      \<lparr>r_ID = ''x'', FromNode = ''a'', ToNode = '''', r_Action = ActionDrop, Params = []\<rparr> # []\<rparr> = (False, 0)"
  using proxy_first_match_wins [of "[]" "''a''" "''b''" "\<lparr>d_int = 3, d_float = 0\<rparr>"
      "\<lparr>r_ID = ''x'', FromNode = ''a'', ToNode = '''', r_Action = ActionDrop, Params = []\<rparr>" "(False, 0)" "[]"]
  by (simp add: matches_def rule_verdict_def)

text \<open>
  What the proxy adds to a message: a delay rule holds it for at least the base delay and
  less than base plus jitter, a loss rule with rate 0 always delivers and with rate 1 never does.
\<close>

theorem proxy_delay_and_loss_bounds:
  assumes "0 \<le> ms" and "0 < j" and "ms + j < 2 ^ 40" and "0 \<le> d_float d" and "d_float d < 1"
  shows "(\<exists>t. rule_verdict d (rule\<lparr>r_Action := ActionDelay, Params := [(''delay_ms'', PInt ms), (''jitter_ms'', PInt j)]\<rparr>) = Some (True, t) \<and>
       ms * 1000000 \<le> t \<and> t < (ms + j) * 1000000) \<and>
     rule_verdict d (rule\<lparr>r_Action := ActionLoss, Params := [(''loss_rate'', PFloat 0)]\<rparr>) = Some (True, 0) \<and>
     rule_verdict d (rule\<lparr>r_Action := ActionLoss, Params := [(''loss_rate'', PFloat 1)]\<rparr>) = Some (False, 0)"
proof -
  define x where "x = d_int d mod j"
  have x: "0 \<le> x" "x < j"
    using assms(2) by (simp_all add: x_def)
  then have "wrap64 (ms + x) = ms + x" "wrap64 ((ms + x) * 1000000) = (ms + x) * 1000000"
    using assms by (auto intro!: wrap64_id)
  then show ?thesis
    using assms x by (auto simp: rule_verdict_def int_param_def float_param_def Let_def x_def [symmetric])
qed

theorem proxy_delay_and_loss_bounds_witness:
  "\<exists>t. rule_verdict \<lparr>d_int = 7, d_float = 1 / 2\<rparr> (\<lparr>r_ID = ''x'', FromNode = '''', ToNode = '''', r_Action = ActionPass, Params = []\<rparr>
        \<lparr>r_Action := ActionDelay, Params := [(''delay_ms'', PInt 20), (''jitter_ms'', PInt 5)]\<rparr>) = Some (True, t) \<and>
     20 * 1000000 \<le> t \<and> t < (20 + 5) * 1000000"
  using proxy_delay_and_loss_bounds [of 20 5 "\<lparr>d_int = 7, d_float = 1 / 2\<rparr>"
      "\<lparr>r_ID = ''x'', FromNode = '''', ToNode = '''', r_Action = ActionPass, Params = []\<rparr>"] by simp

end
