(* ===== verification/Net_Transport.thy ===== *)
theory Net_Transport
  imports Raft_Steps Net_Proxy
begin

text \<open>
  How messages reach the other nodes: the interface \<open>Transport\<close> of \<open>src/raft/transport.go\<close>
  as the locale \<open>rpc\<close>, the in-process implementation of \<open>src/transport/inmem.go\<close>, for which
  the locale is interpreted three times, and the conversions and dispatch of
  \<open>src/transport/grpc.go\<close>, where the gRPC library is a parameter.

  The nodes of an in-process cluster and the shared proxy are one state, \<open>net\<close>.
\<close>

section \<open>The in-process network\<close>

record net =
  net_nodes :: "string \<rightharpoonup> RaftNode"
  net_proxy :: NetworkProxy

text \<open>
  What one call meets: the random draws of the proxy, whether the context ends before the
  proxy's delay is over, and the surroundings of the handler.
\<close>

record call =
  c_draw :: draw
  ctx_first :: bool
  c_env :: env

definition NewInMemRegistry :: "string \<rightharpoonup> RaftNode" where
  "NewInMemRegistry = Map.empty"

definition registry_add :: "string \<Rightarrow> RaftNode \<Rightarrow> net \<Rightarrow> net" where
  "registry_add i n s = s\<lparr>net_nodes := (net_nodes s)(i \<mapsto> n)\<rparr>"

definition registry_get :: "string \<Rightarrow> net \<Rightarrow> RaftNode option" where
  "registry_get i s = net_nodes s i"

definition InMem_Register :: "string \<Rightarrow> RaftNode \<Rightarrow> net \<Rightarrow> net" where
  "InMem_Register nodeID node s = registry_add nodeID node s"

definition applyProxy :: "string \<Rightarrow> call \<Rightarrow> string \<Rightarrow> net \<Rightarrow> error option" where
  "applyProxy nodeID c peerID s =
     (let (deliver, delay) = ShouldDeliver (c_draw c) nodeID peerID (net_proxy s) in
      if \<not> deliver then Some (''proxy: message to '' @ peerID @ '' dropped'')
      else if delay > 0 \<and> ctx_first c then Some ''context done''
      else None)"

text \<open>The three \<open>Send\<close> methods; \<open>None\<close> is a panic in the handler.\<close>

definition SendRequestVote :: "string \<Rightarrow> call \<Rightarrow> string \<Rightarrow> VoteRequest \<Rightarrow> net \<Rightarrow> (VoteResponse result \<times> net) option" where
  "SendRequestVote nodeID c peerID req s =
     (case applyProxy nodeID c peerID s of
        Some err \<Rightarrow> Some (Inl err, s)
      | None \<Rightarrow>
          (case registry_get peerID s of
             None \<Rightarrow> Some (Inl (''peer '' @ peerID @ '' is not available''), s)
           | Some peer \<Rightarrow> do {
               (n, resp) \<leftarrow> handleRequestVote (c_env c) req peer;
               Some (Inr resp, s\<lparr>net_nodes := (net_nodes s)(peerID \<mapsto> n)\<rparr>) }))"

definition SendPreVote :: "string \<Rightarrow> call \<Rightarrow> string \<Rightarrow> VoteRequest \<Rightarrow> net \<Rightarrow> (VoteResponse result \<times> net) option" where
  "SendPreVote nodeID c peerID req s =
     (case applyProxy nodeID c peerID s of
        Some err \<Rightarrow> Some (Inl err, s)
      | None \<Rightarrow>
          (case registry_get peerID s of
             None \<Rightarrow> Some (Inl (''peer '' @ peerID @ '' not available''), s)
           | Some peer \<Rightarrow>
               (case handlePreVote req peer of
                  (n, resp) \<Rightarrow> Some (Inr resp, s\<lparr>net_nodes := (net_nodes s)(peerID \<mapsto> n)\<rparr>))))"

definition SendAppendEntries ::
    "string \<Rightarrow> call \<Rightarrow> string \<Rightarrow> AppendEntriesRequest \<Rightarrow> net \<Rightarrow> (AppendEntriesResponse result \<times> net) option" where
  "SendAppendEntries nodeID c peerID req s =
     (case applyProxy nodeID c peerID s of
        Some err \<Rightarrow> Some (Inl err, s)
      | None \<Rightarrow>
          (case registry_get peerID s of
             None \<Rightarrow> Some (Inl (''peer '' @ peerID @ '' not available''), s)
           | Some peer \<Rightarrow> do {
               (n, resp) \<leftarrow> handleAppendEntries (c_env c) req peer;
               Some (Inr resp, s\<lparr>net_nodes := (net_nodes s)(peerID \<mapsto> n)\<rparr>) }))"

section \<open>The interface\<close>

text \<open>
  What a node relies on when it sends: an error means that nothing happened, an answer means
  that the peer's handler ran exactly once and that nobody else changed.
\<close>

locale rpc =
  fixes send :: "string \<Rightarrow> call \<Rightarrow> string \<Rightarrow> 'req \<Rightarrow> net \<Rightarrow> ('resp result \<times> net) option"
    and handle :: "env \<Rightarrow> 'req \<Rightarrow> RaftNode \<Rightarrow> (RaftNode \<times> 'resp) option"
  assumes send_error: "send i c p req s = Some (Inl e, s') \<Longrightarrow> s' = s"
    and send_answer: "send i c p req s = Some (Inr r, s') \<Longrightarrow>
      \<exists>n n'. net_nodes s p = Some n \<and> handle (c_env c) req n = Some (n', r) \<and> s' = s\<lparr>net_nodes := (net_nodes s)(p \<mapsto> n')\<rparr>"
    and send_dropped: "\<not> fst (ShouldDeliver (c_draw c) i p (net_proxy s)) \<Longrightarrow> \<exists>e. send i c p req s = Some (Inl e, s)"
begin

lemma send_proxy: "send i c p req s = Some (r, s') \<Longrightarrow> net_proxy s' = net_proxy s"
  by (cases r) (auto dest: send_error send_answer)

lemma send_others: "send i c p req s = Some (r, s') \<Longrightarrow> q \<noteq> p \<Longrightarrow> net_nodes s' q = net_nodes s q"
  by (cases r) (auto dest: send_error send_answer)

text \<open>A property of single nodes that the handler keeps is kept for all nodes of the network.\<close>

lemma send_keeps:
  assumes "send i c p req s = Some (r, s')" and "\<forall>q n. net_nodes s q = Some n \<longrightarrow> P n"
    and "\<And>n n' resp. net_nodes s p = Some n \<Longrightarrow> handle (c_env c) req n = Some (n', resp) \<Longrightarrow> P n \<Longrightarrow> P n'"
  shows "\<forall>q n. net_nodes s' q = Some n \<longrightarrow> P n"
proof (cases r)
  case (Inl e)
  then show ?thesis using assms(1,2) send_error by blast
next
  case (Inr a)
  then obtain n n' where "net_nodes s p = Some n" "handle (c_env c) req n = Some (n', a)"
      "s' = s\<lparr>net_nodes := (net_nodes s)(p \<mapsto> n')\<rparr>"
    using assms(1) send_answer by blast
  then show ?thesis
    using assms(2,3) by auto
qed

end

lemma applyProxy_dropped: "\<not> fst (ShouldDeliver (c_draw c) i p (net_proxy s)) \<Longrightarrow> \<exists>e. applyProxy i c p s = Some e"
  by (auto simp: applyProxy_def split: prod.split)

interpretation inmem_vote: rpc SendRequestVote handleRequestVote
  by unfold_locales
    (auto simp: SendRequestVote_def registry_get_def bind_eq_Some_conv dest: applyProxy_dropped split: option.splits)

interpretation inmem_prevote: rpc SendPreVote "\<lambda>e req n. Some (handlePreVote req n)"
  by unfold_locales
    (auto simp: SendPreVote_def registry_get_def dest: applyProxy_dropped split: option.splits prod.splits)

interpretation inmem_append: rpc SendAppendEntries handleAppendEntries
  by unfold_locales
    (auto simp: SendAppendEntries_def registry_get_def bind_eq_Some_conv dest: applyProxy_dropped split: option.splits)

section \<open>The gRPC transport\<close>

text \<open>
  Wire messages with the field types of the protocol (\<open>Type\<close> is an int32), the conversions,
  the lazily created clients, and both ends of each call. \<open>dial\<close> (can a client be created for
  the address) and \<open>invoke\<close> (what a call on that client returns) stand for the gRPC library.
\<close>

definition wrap32 :: "int \<Rightarrow> int" where
  "wrap32 x = (x + 2 ^ 31) mod 2 ^ 32 - 2 ^ 31"

record pbLogEntry =
  pe_Index :: u64
  pe_Term :: u64
  pe_Type :: int
  pe_Data :: "byte list"

record pbVoteRequest =
  pv_Term :: u64
  pv_CandidateId :: string
  pv_LastLogIndex :: u64
  pv_LastLogTerm :: u64
  pv_PreVote :: bool

record pbVoteResponse =
  pvr_Term :: u64
  pvr_VoteGranted :: bool

record pbAppendEntriesRequest =
  pa_Term :: u64
  pa_LeaderId :: string
  pa_PrevLogIndex :: u64
  pa_PrevLogTerm :: u64
  pa_Entries :: "pbLogEntry list"
  pa_LeaderCommit :: u64

record pbAppendEntriesResponse =
  par_Term :: u64
  par_Success :: bool
  par_ConflictTerm :: u64
  par_ConflictIndex :: u64

definition raftToPbEntries :: "LogEntry list \<Rightarrow> pbLogEntry list" where
  "raftToPbEntries es =
     map (\<lambda>e. \<lparr>pe_Index = le_Index e, pe_Term = le_Term e, pe_Type = wrap32 (le_Type e), pe_Data = le_Data e\<rparr>) es"

definition pbToRaftEntries :: "pbLogEntry list \<Rightarrow> LogEntry list" where
  "pbToRaftEntries es =
     map (\<lambda>e. \<lparr>le_Index = pe_Index e, le_Term = pe_Term e, le_Type = pe_Type e, le_Data = pe_Data e\<rparr>) es"

text \<open>
  A connection, and the client made from it, is the address it was created for, a connection with the mark
  whether it is open. \<open>g_server\<close> is absent until the server is created, then whether it serves.
\<close>

record GRPCTransport =
  g_nodeID :: string
  g_address :: string
  g_peers :: "string \<rightharpoonup> string"
  g_proxy :: NetworkProxy
  g_node :: "RaftNode option"
  g_clients :: "string \<rightharpoonup> string"
  g_conns :: "string \<rightharpoonup> string \<times> bool"
  g_server :: "bool option"

definition NewGRPCTransport :: "string \<Rightarrow> string \<Rightarrow> (string \<rightharpoonup> string) \<Rightarrow> NetworkProxy \<Rightarrow> GRPCTransport" where
  "NewGRPCTransport nodeID address addrs px =
     \<lparr>g_nodeID = nodeID, g_address = address, g_peers = addrs, g_proxy = px, g_node = None,
      g_clients = Map.empty, g_conns = Map.empty, g_server = None\<rparr>"

text \<open>\<open>listen\<close> is the error of opening the socket.\<close>

definition grpc_Start :: "error option \<Rightarrow> GRPCTransport \<Rightarrow> error option \<times> GRPCTransport" where
  "grpc_Start listen t =
     (case listen of
        Some err \<Rightarrow> (Some (''listen on '' @ g_address t @ '': '' @ err), t)
      | None \<Rightarrow> (None, t\<lparr>g_server := Some True\<rparr>))"

definition grpc_Register :: "RaftNode \<Rightarrow> GRPCTransport \<Rightarrow> GRPCTransport" where
  "grpc_Register node t = t\<lparr>g_node := Some node\<rparr>"

text \<open>Closed connections and their clients stay in the maps.\<close>

definition grpc_Close :: "GRPCTransport \<Rightarrow> GRPCTransport" where
  "grpc_Close t =
     t\<lparr>g_server := map_option (\<lambda>_. False) (g_server t), g_conns := (\<lambda>p. map_option (\<lambda>(addr, _). (addr, False)) (g_conns t p))\<rparr>"

definition getClient :: "(string \<Rightarrow> error option) \<Rightarrow> string \<Rightarrow> GRPCTransport \<Rightarrow> string result \<times> GRPCTransport" where
  "getClient dial peerID t =
     (case g_clients t peerID of
        Some client \<Rightarrow> (Inr client, t)
      | None \<Rightarrow>
          (case g_peers t peerID of
             None \<Rightarrow> (Inl (''unknown peer: '' @ peerID), t)
           | Some addr \<Rightarrow>
               (case dial addr of
                  Some err \<Rightarrow> (Inl (''create client for '' @ peerID @ '' ('' @ addr @ ''): '' @ err), t)
                | None \<Rightarrow> (Inr addr, t\<lparr>g_conns := (g_conns t)(peerID \<mapsto> (addr, True)), g_clients := (g_clients t)(peerID \<mapsto> addr)\<rparr>))))"

text \<open>The three outbound methods have one shape: proxy, client, call, conversion of the answer.\<close>

definition grpc_send ::
    "draw \<Rightarrow> (string \<Rightarrow> error option) \<Rightarrow> (string \<Rightarrow> 'pbreq \<Rightarrow> 'pbresp result) \<Rightarrow> ('pbresp \<Rightarrow> 'resp) \<Rightarrow> string \<Rightarrow> 'pbreq \<Rightarrow>
     GRPCTransport \<Rightarrow> 'resp result \<times> GRPCTransport" where
  "grpc_send d dial invoke decode peerID msg t =
     (if \<not> fst (ShouldDeliver d (g_nodeID t) peerID (g_proxy t)) then (Inl (''proxy: message dropped to '' @ peerID), t)
      else (case getClient dial peerID t of
              (Inl err, t') \<Rightarrow> (Inl err, t')
            | (Inr client, t') \<Rightarrow>
                (case invoke client msg of
                   Inl err \<Rightarrow> (Inl err, t')
                 | Inr resp \<Rightarrow> (Inr (decode resp), t'))))"

definition vote_to_pb :: "VoteRequest \<Rightarrow> pbVoteRequest" where
  "vote_to_pb req = \<lparr>pv_Term = vq_Term req, pv_CandidateId = vq_CandidateID req, pv_LastLogIndex = vq_LastLogIndex req,
     pv_LastLogTerm = vq_LastLogTerm req, pv_PreVote = vq_PreVote req\<rparr>"

definition vote_of_pb :: "pbVoteRequest \<Rightarrow> VoteRequest" where
  "vote_of_pb req = \<lparr>vq_Term = pv_Term req, vq_CandidateID = pv_CandidateId req, vq_LastLogIndex = pv_LastLogIndex req,
     vq_LastLogTerm = pv_LastLogTerm req, vq_PreVote = pv_PreVote req\<rparr>"

definition voteresp_of_pb :: "pbVoteResponse \<Rightarrow> VoteResponse" where
  "voteresp_of_pb r = \<lparr>vr_Term = pvr_Term r, vr_VoteGranted = pvr_VoteGranted r\<rparr>"

definition voteresp_to_pb :: "VoteResponse \<Rightarrow> pbVoteResponse" where
  "voteresp_to_pb r = \<lparr>pvr_Term = vr_Term r, pvr_VoteGranted = vr_VoteGranted r\<rparr>"

definition append_to_pb :: "AppendEntriesRequest \<Rightarrow> pbAppendEntriesRequest" where
  "append_to_pb req = \<lparr>pa_Term = aq_Term req, pa_LeaderId = aq_LeaderID req, pa_PrevLogIndex = aq_PrevLogIndex req,
     pa_PrevLogTerm = aq_PrevLogTerm req, pa_Entries = raftToPbEntries (aq_Entries req), pa_LeaderCommit = aq_LeaderCommit req\<rparr>"

definition append_of_pb :: "pbAppendEntriesRequest \<Rightarrow> AppendEntriesRequest" where
  "append_of_pb req = \<lparr>aq_Term = pa_Term req, aq_LeaderID = pa_LeaderId req, aq_PrevLogIndex = pa_PrevLogIndex req,
     aq_PrevLogTerm = pa_PrevLogTerm req, aq_Entries = pbToRaftEntries (pa_Entries req), aq_LeaderCommit = pa_LeaderCommit req\<rparr>"

definition appendresp_of_pb :: "pbAppendEntriesResponse \<Rightarrow> AppendEntriesResponse" where
  "appendresp_of_pb r = \<lparr>ar_Term = par_Term r, ar_Success = par_Success r, ar_ConflictTerm = par_ConflictTerm r,
     ar_ConflictIndex = par_ConflictIndex r\<rparr>"

definition appendresp_to_pb :: "AppendEntriesResponse \<Rightarrow> pbAppendEntriesResponse" where
  "appendresp_to_pb r = \<lparr>par_Term = ar_Term r, par_Success = ar_Success r, par_ConflictTerm = ar_ConflictTerm r,
     par_ConflictIndex = ar_ConflictIndex r\<rparr>"

definition grpc_SendRequestVote where
  "grpc_SendRequestVote d dial invoke peerID req t = grpc_send d dial invoke voteresp_of_pb peerID (vote_to_pb req) t"

definition grpc_SendPreVote where
  "grpc_SendPreVote d dial invoke peerID req t = grpc_send d dial invoke voteresp_of_pb peerID (vote_to_pb req) t"

definition grpc_SendAppendEntries where
  "grpc_SendAppendEntries d dial invoke peerID req t = grpc_send d dial invoke appendresp_of_pb peerID (append_to_pb req) t"

text \<open>
  The inbound side dispatches to the registered node; a call that arrives before
  \<open>Register\<close> dereferences a nil node and panics, which is \<open>None\<close>.
\<close>

definition grpc_RequestVote :: "env \<Rightarrow> pbVoteRequest \<Rightarrow> GRPCTransport \<Rightarrow> (GRPCTransport \<times> pbVoteResponse) option" where
  "grpc_RequestVote e req t = do {
     n \<leftarrow> g_node t;
     (n', resp) \<leftarrow> handleRequestVote e (vote_of_pb req) n;
     Some (t\<lparr>g_node := Some n'\<rparr>, voteresp_to_pb resp) }"

definition grpc_PreVote :: "pbVoteRequest \<Rightarrow> GRPCTransport \<Rightarrow> (GRPCTransport \<times> pbVoteResponse) option" where
  "grpc_PreVote req t = do {
     n \<leftarrow> g_node t;
     let (n', resp) = handlePreVote (vote_of_pb req) n;
     Some (t\<lparr>g_node := Some n'\<rparr>, voteresp_to_pb resp) }"

definition grpc_AppendEntries ::
    "env \<Rightarrow> pbAppendEntriesRequest \<Rightarrow> GRPCTransport \<Rightarrow> (GRPCTransport \<times> pbAppendEntriesResponse) option" where
  "grpc_AppendEntries e req t = do {
     n \<leftarrow> g_node t;
     (n', resp) \<leftarrow> handleAppendEntries e (append_of_pb req) n;
     Some (t\<lparr>g_node := Some n'\<rparr>, appendresp_to_pb resp) }"

lemma wrap32_id: "- (2 ^ 31) \<le> x \<Longrightarrow> x < 2 ^ 31 \<Longrightarrow> wrap32 x = x"
  by (simp add: wrap32_def)

lemma pb_entries_roundtrip:
  "\<forall>e \<in> set es. - (2 ^ 31) \<le> le_Type e \<and> le_Type e < 2 ^ 31 \<Longrightarrow> pbToRaftEntries (raftToPbEntries es) = es"
  by (induction es) (simp_all add: pbToRaftEntries_def raftToPbEntries_def wrap32_id)

lemma pb_roundtrips [simp]:
  "vote_of_pb (vote_to_pb req) = req" "voteresp_of_pb (voteresp_to_pb r) = r" "appendresp_of_pb (appendresp_to_pb a) = a"
  by (simp_all add: vote_of_pb_def vote_to_pb_def voteresp_of_pb_def voteresp_to_pb_def appendresp_of_pb_def appendresp_to_pb_def)

lemma append_of_to_pb:
  assumes "fits_all (aq_Entries req)"
  shows "append_of_pb (append_to_pb req) = req"
proof -
  have "\<forall>e \<in> set (aq_Entries req). - (2 ^ 31) \<le> le_Type e \<and> le_Type e < 2 ^ 31"
    using assms by (fastforce simp: fits_all_def list_all_iff)
  from pb_entries_roundtrip [OF this] show ?thesis
    by (simp add: append_of_pb_def append_to_pb_def)
qed

lemma getClient_stable:
  assumes "getClient dial p t = (Inr a, t')"
  shows "g_clients t' p = Some a \<and> getClient dial' p t' = (Inr a, t') \<and> (\<forall>q. q \<noteq> p \<longrightarrow> g_clients t' q = g_clients t q)"
  using assms by (auto simp: getClient_def split: option.splits)

section \<open>Properties of the transports\<close>


definition sample_call :: call where
  "sample_call = \<lparr>c_draw = \<lparr>d_int = 0, d_float = 0\<rparr>, ctx_first = False, c_env = sample_env\<rparr>"


text \<open>
  A message that the proxy drops has no effect: each of the three calls returns an error and
  every node is exactly as before.
\<close>

theorem dropped_message_has_no_effect:
  assumes "\<not> fst (ShouldDeliver (c_draw c) i p (net_proxy s))"
  shows "(\<exists>e. SendRequestVote i c p vreq s = Some (Inl e, s)) \<and> (\<exists>e. SendPreVote i c p vreq s = Some (Inl e, s)) \<and>
     (\<exists>e. SendAppendEntries i c p areq s = Some (Inl e, s))"
  using inmem_vote.send_dropped [OF assms] inmem_prevote.send_dropped [OF assms] inmem_append.send_dropped [OF assms] by blast

theorem dropped_message_has_no_effect_witness:
  "\<exists>s. \<not> fst (ShouldDeliver (c_draw sample_call) ''a'' ''c'' (net_proxy s)) \<and>
     (\<exists>e. SendAppendEntries ''a'' sample_call ''c'' sample_append s = Some (Inl e, s))"
proof -
  let ?s = "\<lparr>net_nodes = Map.empty, net_proxy = AddRule \<lparr>r_ID = ''x'', FromNode = ''a'', ToNode = '''', r_Action = ActionDrop, Params = []\<rparr> NewNetworkProxy\<rparr>"
  have drop: "\<not> fst (ShouldDeliver (c_draw sample_call) ''a'' ''c'' (net_proxy ?s))"
    by (simp add: ShouldDeliver_def AddRule_def NewNetworkProxy_def matches_def rule_verdict_def)
  from dropped_message_has_no_effect [OF drop, of "sample_vote_request 0 ''a''" sample_append] drop show ?thesis
    by blast
qed

text \<open>
  C29. The gRPC path is transparent. If the library delivers the wire message to the peer's
  inbound method and brings its answer back, the sender receives exactly what the peer's
  handler answers to the original request: no field is lost or changed on the way.
\<close>

theorem grpc_append_transparent:
  assumes "fst (ShouldDeliver d (g_nodeID t) p (g_proxy t))" and "getClient dial p t = (Inr addr, t')"
    and "fits_all (aq_Entries req)" and "grpc_AppendEntries e (append_to_pb req) (grpc_Register n srv) = Some (srv', pr)"
    and "invoke addr (append_to_pb req) = Inr pr"
  shows "\<exists>n' r. handleAppendEntries e req n = Some (n', r) \<and> g_node srv' = Some n' \<and>
    grpc_SendAppendEntries d dial invoke p req t = (Inr r, t')"
  using assms
  by (auto simp: grpc_AppendEntries_def grpc_Register_def append_of_to_pb grpc_SendAppendEntries_def grpc_send_def bind_eq_Some_conv)

theorem grpc_append_transparent_witness:
  "\<exists>t t' invoke n n' r. handleAppendEntries sample_env sample_append n = Some (n', r) \<and>
     grpc_SendAppendEntries (c_draw sample_call) (\<lambda>_. None) invoke ''c'' sample_append t = (Inr r, t')"
proof -
  obtain n :: RaftNode where n: "node_inv n" "currentTerm n = 0" "RaftNode.log n = NewRaftLog"
    by (rule sample_voter_inv) blast
  define t where "t = NewGRPCTransport ''a'' '':7001'' [''c'' \<mapsto> '':7003''] NewNetworkProxy"
  define srv where "srv = NewGRPCTransport ''c'' '':7003'' [''a'' \<mapsto> '':7001''] NewNetworkProxy"
  have fits: "fits_all (aq_Entries sample_append)"
    using sample_append_wf by (simp add: aq_wf_def)
  have "event_ok (EvAppend sample_append) n"
    using sample_append_wf by (simp add: n(3) merge_safe_def merge_at_def NewRaftLog_def sample_append_def)
  from step_inv [OF n(1) this, of sample_env] obtain n' r where run: "handleAppendEntries sample_env sample_append n = Some (n', r)"
    by auto
  then have inbound: "grpc_AppendEntries sample_env (append_to_pb sample_append) (grpc_Register n srv)
      = Some (srv\<lparr>g_node := Some n'\<rparr>, appendresp_to_pb r)"
    by (simp add: grpc_AppendEntries_def grpc_Register_def append_of_to_pb [OF fits])
  have pass: "fst (ShouldDeliver (c_draw sample_call) (g_nodeID t) ''c'' (g_proxy t))"
    by (simp add: t_def NewGRPCTransport_def ShouldDeliver_def NewNetworkProxy_def)
  obtain t' where client: "getClient (\<lambda>_. None) ''c'' t = (Inr '':7003'', t')"
    by (simp add: getClient_def t_def NewGRPCTransport_def)
  have "(\<lambda>addr m. Inr (appendresp_to_pb r)) '':7003'' (append_to_pb sample_append) = Inr (appendresp_to_pb r)"
    by simp
  from grpc_append_transparent [OF pass client fits inbound this] show ?thesis
    by blast
qed

end
