(* ===== verification/Go_Text.thy ===== *)
theory Go_Text
  imports Raft_Prelude "HOL-Library.List_Lexorder" "HOL-Library.Char_ord"
begin

text \<open>
  What the servers use of Go's text functions: decimal numerals (\<open>fmt\<close>'s \<open>%d\<close>,
  \<open>strconv.Itoa\<close> and \<open>strconv.Atoi\<close>), \<open>strings.TrimPrefix\<close>, \<open>strings.Contains\<close>,
  \<open>strings.Split\<close> and the sorted keys of a map. Strings are lists of bytes, as in Go, written as
  \<open>char\<close>; the order of \<open>sort.Strings\<close> is the lexicographic order of the bytes.
\<close>

section \<open>Decimal numerals\<close>

text \<open>The decimal numeral of an \<open>int\<close>, as \<open>%d\<close> prints it.\<close>

definition digit :: "nat \<Rightarrow> char" where
  "digit d = char_of (48 + d)"

fun decimal :: "nat \<Rightarrow> string" where
  "decimal n = (if n < 10 then [digit n] else decimal (n div 10) @ [digit (n mod 10)])"

declare decimal.simps [simp del]

definition itoa :: "int \<Rightarrow> string" where
  "itoa x = (if x < 0 then ''-'' @ decimal (nat (- x)) else decimal (nat x))"

definition undigit :: "char \<Rightarrow> nat" where
  "undigit ch = of_char ch - 48"

lemma of_char_digit: "d < 10 \<Longrightarrow> of_char (digit d) = 48 + d"
  unfolding digit_def of_char_of by (rule mod_less) linarith

lemma undigit_digit: "d < 10 \<Longrightarrow> undigit (digit d) = d"
  by (simp only: undigit_def of_char_digit add_diff_cancel_left')

lemma foldl_decimal: "foldl (\<lambda>a ch. 10 * a + undigit ch) 0 (decimal n) = n"
proof (induction n rule: decimal.induct)
  case (1 n)
  then show ?case
    by (subst decimal.simps) (simp add: undigit_digit)
qed

lemma decimal_inj: "decimal m = decimal n \<Longrightarrow> m = n"
  by (metis foldl_decimal)

lemma digit_not_minus: "d < 10 \<Longrightarrow> digit d \<noteq> CHR ''-''"
proof
  assume "d < 10" and "digit d = CHR ''-''"
  then have "of_char (digit d) = (45 :: nat)" by simp
  then show False using of_char_digit [OF \<open>d < 10\<close>] by simp
qed

lemma minus_notin_decimal: "CHR ''-'' \<notin> set (decimal n)"
proof (induction n rule: decimal.induct)
  case (1 n)
  then show ?case
    using digit_not_minus [of n] digit_not_minus [of "n mod 10"]
    by (subst decimal.simps) (auto simp: eq_commute)
qed

lemma takeWhile_not_minus:
  "takeWhile (\<lambda>ch. ch \<noteq> CHR ''-'') (rev (decimal n) @ CHR ''-'' # xs) = rev (decimal n)"
  using minus_notin_decimal [of n] by (subst takeWhile_append2) auto

text \<open>\<open>strconv.Atoi\<close>: an optional sign, digits, and a value in the range of \<open>int\<close>.\<close>

definition decimal_digit :: "char \<Rightarrow> bool" where
  "decimal_digit c \<longleftrightarrow> 48 \<le> (of_char c :: nat) \<and> of_char c \<le> (57 :: nat)"

definition undecimal :: "string \<Rightarrow> nat" where
  "undecimal s = foldl (\<lambda>a ch. 10 * a + undigit ch) 0 s"

definition Atoi :: "string \<Rightarrow> int option" where
  "Atoi s =
     (let (neg, ds) = (case s of c # r \<Rightarrow> if c = CHR ''-'' then (True, r) else if c = CHR ''+'' then (False, r) else (False, s) | [] \<Rightarrow> (False, s));
          v = (if neg then - int (undecimal ds) else int (undecimal ds))
      in if ds \<noteq> [] \<and> list_all decimal_digit ds \<and> - (2 ^ 63) \<le> v \<and> v < 2 ^ 63 then Some v else None)"

lemma decimal_digit_digit: "d < 10 \<Longrightarrow> decimal_digit (digit d)"
  by (simp add: decimal_digit_def of_char_digit)

lemma decimal_digits: "list_all decimal_digit (decimal n)"
proof (induction n rule: decimal.induct)
  case (1 n)
  then show ?case
    by (subst decimal.simps) (simp add: decimal_digit_digit)
qed

lemma decimal_not_Nil [simp]: "decimal n \<noteq> []"
  by (subst decimal.simps) simp

lemma Atoi_itoa:
  assumes "- (2 ^ 63) \<le> x" and "x < 2 ^ 63"
  shows "Atoi (itoa x) = Some x"
proof (cases "x < 0")
  case True
  then show ?thesis
    using assms decimal_digits [of "nat (- x)"] by (simp add: Atoi_def itoa_def undecimal_def foldl_decimal)
next
  case False
  obtain c r where d: "decimal (nat x) = c # r"
    by (cases "decimal (nat x)") auto
  then have "decimal_digit c"
    using decimal_digits [of "nat x"] by simp
  then have "c \<noteq> CHR ''-''" "c \<noteq> CHR ''+''"
    by (auto simp: decimal_digit_def)
  then show ?thesis
    using False assms d decimal_digits [of "nat x"] foldl_decimal [of "nat x"]
    by (simp add: Atoi_def itoa_def undecimal_def)
qed

section \<open>Substrings\<close>

definition TrimPrefix :: "string \<Rightarrow> string \<Rightarrow> string" where
  "TrimPrefix s p = (if take (length p) s = p then drop (length p) s else s)"

fun Contains :: "string \<Rightarrow> string \<Rightarrow> bool" where
  "Contains [] p = (p = [])"
| "Contains (c # s) p = (take (length p) (c # s) = p \<or> Contains s p)"

lemma TrimPrefix_append [simp]: "TrimPrefix (p @ s) p = s"
  by (simp add: TrimPrefix_def)

lemma Contains_append: "Contains (p @ s) p"
proof (cases "p @ s")
  case (Cons a t)
  then have "take (length p) (a # t) = p"
    by (metis append_eq_conv_conj)
  then show ?thesis
    by (simp add: Cons)
qed simp

text \<open>\<open>strings.Split\<close> at a one-byte separator and \<open>strings.SplitN\<close> with the limit 2.\<close>

fun Split :: "char \<Rightarrow> string \<Rightarrow> string list" where
  "Split c [] = [[]]"
| "Split c (x # s) = (if x = c then [] # Split c s else (case Split c s of [] \<Rightarrow> [[x]] | p # ps \<Rightarrow> (x # p) # ps))"

definition SplitN2 :: "char \<Rightarrow> string \<Rightarrow> string list" where
  "SplitN2 c s = (if c \<in> set s then [takeWhile ((\<noteq>) c) s, tl (dropWhile ((\<noteq>) c) s)] else [s])"

lemma Split_not_Nil [simp]: "Split c s \<noteq> []"
  by (induction s) (auto split: list.split)

lemma Split_append: "c \<notin> set p \<Longrightarrow> Split c (p @ c # s) = p # Split c s"
  by (induction p) auto

lemma Split_single: "c \<notin> set p \<Longrightarrow> Split c p = [p]"
  by (induction p) auto

lemma SplitN2_append: "c \<notin> set p \<Longrightarrow> SplitN2 c (p @ c # s) = [p, s]"
proof -
  assume "c \<notin> set p"
  then have "\<forall>x \<in> set p. c \<noteq> x" by auto
  then show ?thesis
    by (simp add: SplitN2_def takeWhile_append2 dropWhile_append2)
qed

definition newline :: string where
  "newline = [CHR 0x0A]"

section \<open>Sorted keys\<close>

text \<open>A Go map as an association list with distinct keys; iteration order does not matter after sorting.\<close>

definition sorted_keys :: "(string \<times> 'a) list \<Rightarrow> string list" where
  "sorted_keys m = sort (map fst m)"

lemma sorted_keys_set [simp]: "set (sorted_keys m) = fst ` set m"
  by (simp add: sorted_keys_def)

lemma sorted_keys_distinct [simp]: "distinct (sorted_keys m) \<longleftrightarrow> distinct (map fst m)"
  by (simp add: sorted_keys_def)

lemma sorted_keys_order:
  assumes "distinct (map fst m)" and "distinct (map fst m')" and "set m = set m'"
  shows "sorted_keys m = sorted_keys m'"
  using assms by (intro sorted_distinct_set_unique) (simp_all add: sorted_keys_def)

end
