(* ===== verification/Net_Chaos.thy ===== *)
theory Net_Chaos
  imports Net_Transport Go_Text
begin

text \<open>
  The chaos control plane, \<open>src/chaos\<close>: every injection adds rules with fresh ids to the shared
  proxy, every healing removes rules by id, crashing stops a node and restarting recreates it
  through the caller's factory.

  Times are inputs. A line of the observation log keeps its arguments, its rendering by
  \<open>Sprintf\<close> is not modelled. A goroutine that heals after a duration is an entry of
  \<open>ci_timers\<close>; \<open>timed_heal\<close> is what it does when it wakes up.
\<close>

section \<open>State\<close>

datatype obs =
    ObsText string
  | ObsPartition string duration
  | ObsPartitionHealed string duration
  | ObsLoss rat string duration
  | ObsDelay int int string duration

record InjectionResult =
  ir_Action :: string
  AffectedNodes :: "string list"
  StartTime :: int
  EndTime :: "int option"
  RuleIDs :: "string list"
  ir_Observations :: "string list"

record heal_timer =
  ht_ids :: "string list"
  ht_after :: duration
  ht_obs :: obs

record ChaosInjector =
  ci_proxy :: NetworkProxy
  ci_nodes :: "string \<rightharpoonup> RaftNode"
  observations :: "(int \<times> obs) list"
  ruleCounter :: int
  ci_timers :: "heal_timer list"

definition NewChaosInjector :: "NetworkProxy \<Rightarrow> (string \<rightharpoonup> RaftNode) \<Rightarrow> ChaosInjector" where
  "NewChaosInjector px ns = \<lparr>ci_proxy = px, ci_nodes = ns, observations = [], ruleCounter = 0, ci_timers = []\<rparr>"

definition RecordObservation :: "int \<Rightarrow> obs \<Rightarrow> ChaosInjector \<Rightarrow> ChaosInjector" where
  "RecordObservation t ob c = c\<lparr>observations := observations c @ [(t, ob)]\<rparr>"

definition Heal :: "int \<Rightarrow> ChaosInjector \<Rightarrow> ChaosInjector" where
  "Heal t c = RecordObservation t (ObsText ''HEAL: All network chaos rules removed'') (c\<lparr>ci_proxy := ClearRules (ci_proxy c)\<rparr>)"

definition nextID :: "string \<Rightarrow> ChaosInjector \<Rightarrow> string \<times> ChaosInjector" where
  "nextID pre c =
     (let k = wrap64 (ruleCounter c + 1) in (pre @ ''-'' @ itoa k, c\<lparr>ruleCounter := k\<rparr>))"

definition add_rule :: "ProxyRule \<Rightarrow> ChaosInjector \<Rightarrow> ChaosInjector" where
  "add_rule rule c = c\<lparr>ci_proxy := AddRule rule (ci_proxy c)\<rparr>"

text \<open>Two ids, then a rule for what the node sends and a rule for what it receives.\<close>

definition inject_pair ::
    "string \<Rightarrow> ProxyAction \<Rightarrow> (string \<times> param) list \<Rightarrow> string \<Rightarrow> ChaosInjector \<Rightarrow> string \<times> string \<times> ChaosInjector" where
  "inject_pair name act params nodeID c =
     (let (id1, c1) = nextID (name @ ''-from-'' @ nodeID) c;
          (id2, c2) = nextID (name @ ''-to-'' @ nodeID) c1;
          c3 = add_rule \<lparr>r_ID = id1, FromNode = nodeID, ToNode = '''', r_Action = act, Params = params\<rparr> c2;
          c4 = add_rule \<lparr>r_ID = id2, FromNode = '''', ToNode = nodeID, r_Action = act, Params = params\<rparr> c3
      in (id1, id2, c4))"

definition schedule_heal :: "duration \<Rightarrow> string list \<Rightarrow> obs \<Rightarrow> ChaosInjector \<Rightarrow> ChaosInjector" where
  "schedule_heal d ids ob c =
     (if d > 0 then c\<lparr>ci_timers := ci_timers c @ [\<lparr>ht_ids = ids, ht_after = d, ht_obs = ob\<rparr>]\<rparr> else c)"

section \<open>Injections\<close>

definition new_result :: "string \<Rightarrow> string list \<Rightarrow> int \<Rightarrow> InjectionResult" where
  "new_result act ns t = \<lparr>ir_Action = act, AffectedNodes = ns, StartTime = t, EndTime = None, RuleIDs = [], ir_Observations = []\<rparr>"

definition PartitionNode :: "int \<Rightarrow> string \<Rightarrow> duration \<Rightarrow> ChaosInjector \<Rightarrow> InjectionResult \<times> ChaosInjector" where
  "PartitionNode t nodeID d c =
     (let (fromID, toID, c1) = inject_pair ''part'' ActionDrop [] nodeID c;
          c2 = RecordObservation t (ObsPartition nodeID d) c1
      in ((new_result (''full-partition: '' @ nodeID) [nodeID] t)\<lparr>RuleIDs := [fromID, toID]\<rparr>,
          schedule_heal d [fromID, toID] (ObsPartitionHealed nodeID d) c2))"

definition drop_rule :: "string \<Rightarrow> string \<Rightarrow> string \<Rightarrow> ProxyRule" where
  "drop_rule i src dst = \<lparr>r_ID = i, FromNode = src, ToNode = dst, r_Action = ActionDrop, Params = []\<rparr>"

definition PartitionAsymmetric ::
    "int \<Rightarrow> string \<Rightarrow> string \<Rightarrow> string \<Rightarrow> ChaosInjector \<Rightarrow> InjectionResult \<times> ChaosInjector" where
  "PartitionAsymmetric t fromNode toNode direction c =
     (let result = new_result (''asymmetric-partition: '' @ fromNode @ ''->'' @ toNode @ ''('' @ direction @ '')'') [fromNode, toNode] t;
          done = RecordObservation t (ObsText (''PARTITION(asymmetric): '' @ fromNode @ ''<->'' @ toNode @ '' direction: '' @ direction))
      in if direction = ''both'' then
           let (id1, c1) = nextID ''apart'' c; (id2, c2) = nextID ''apart'' c1
           in (result\<lparr>RuleIDs := [id1, id2]\<rparr>,
               done (add_rule (drop_rule id2 toNode fromNode) (add_rule (drop_rule id1 fromNode toNode) c2)))
         else if direction = ''from_only'' then
           let (i, c1) = nextID ''apart'' c
           in (result\<lparr>RuleIDs := [i]\<rparr>, done (add_rule (drop_rule i fromNode toNode) c1))
         else if direction = ''to_only'' then
           let (i, c1) = nextID ''apart'' c
           in (result\<lparr>RuleIDs := [i]\<rparr>, done (add_rule (drop_rule i toNode fromNode) c1))
         else (result, RecordObservation t (ObsText (''ERROR: unknown partition direction: '' @ direction)) c))"

definition remove_rules :: "string list \<Rightarrow> ChaosInjector \<Rightarrow> ChaosInjector" where
  "remove_rules ids c = c\<lparr>ci_proxy := fold RemoveRule ids (ci_proxy c)\<rparr>"

definition HealPartition :: "int \<Rightarrow> InjectionResult \<Rightarrow> ChaosInjector \<Rightarrow> InjectionResult \<times> ChaosInjector" where
  "HealPartition t result c =
     (result\<lparr>EndTime := Some t\<rparr>,
      RecordObservation t (ObsText (''HEAL: partition '' @ ir_Action result @ '' removed'')) (remove_rules (RuleIDs result) c))"

definition InjectPacketLoss :: "int \<Rightarrow> string \<Rightarrow> rat \<Rightarrow> duration \<Rightarrow> ChaosInjector \<Rightarrow> ChaosInjector" where
  "InjectPacketLoss t nodeID lossRate d c =
     (let (id1, id2, c1) = inject_pair ''loss'' ActionLoss [(''loss_rate'', PFloat lossRate)] nodeID c
      in schedule_heal d [id1, id2] (ObsText (''HEAL: packet loss removed for node '' @ nodeID))
           (RecordObservation t (ObsLoss lossRate nodeID d) c1))"

definition InjectDelay :: "int \<Rightarrow> string \<Rightarrow> int \<Rightarrow> int \<Rightarrow> duration \<Rightarrow> ChaosInjector \<Rightarrow> ChaosInjector" where
  "InjectDelay t nodeID delayMs jitterMs d c =
     (let (id1, id2, c1) = inject_pair ''delay'' ActionDelay [(''delay_ms'', PInt delayMs), (''jitter_ms'', PInt jitterMs)] nodeID c
      in schedule_heal d [id1, id2] (ObsText (''HEAL: delay removed for node '' @ nodeID))
           (RecordObservation t (ObsDelay delayMs jitterMs nodeID d) c1))"

text \<open>A healing goroutine wakes up: its rules go, the observation is recorded.\<close>

definition timed_heal :: "int \<Rightarrow> heal_timer \<Rightarrow> ChaosInjector \<Rightarrow> ChaosInjector" where
  "timed_heal t h c = RecordObservation t (ht_obs h) ((remove_rules (ht_ids h) c)\<lparr>ci_timers := remove1 h (ci_timers c)\<rparr>)"

section \<open>Crash and restart\<close>

definition CrashNode :: "int \<Rightarrow> string \<Rightarrow> ChaosInjector \<Rightarrow> InjectionResult \<times> ChaosInjector" where
  "CrashNode t nodeID c =
     (let result = new_result (''crash:'' @ nodeID) [nodeID] t in
      case ci_nodes c nodeID of
        None \<Rightarrow> (result, RecordObservation t (ObsText (''CRASH ERROR: node '' @ nodeID @ '' is not found'')) c)
      | Some node \<Rightarrow>
          let (id1, id2, c1) = inject_pair ''crash'' ActionDrop [] nodeID c
          in (result\<lparr>RuleIDs := [id1, id2]\<rparr>,
              RecordObservation t (ObsText (''CRASH: node '' @ nodeID @ '' stopped and blackholed''))
                (c1\<lparr>ci_nodes := (ci_nodes c1)(nodeID \<mapsto> Stop node)\<rparr>)))"

text \<open>
  The factory, which may be nil, is the caller's function; \<open>None\<close> as a result is the panic of
  \<open>Start\<close> on a configuration without a positive election timeout.
\<close>

definition RestartNode ::
    "int \<Rightarrow> env \<Rightarrow> (string \<Rightarrow> RaftNode result) option \<Rightarrow> string \<Rightarrow> ChaosInjector \<Rightarrow> (InjectionResult \<times> ChaosInjector) option" where
  "RestartNode t e factory nodeID c =
     (let result = new_result (''restart:'' @ nodeID) [nodeID] t in
      case factory of
        None \<Rightarrow> Some (result, RecordObservation t (ObsText (''RESTART ERROR: no factory provided for node '' @ nodeID)) c)
      | Some mk \<Rightarrow>
          let c1 = RecordObservation t (ObsText (''RESTART: cleared proxy rules for node '' @ nodeID)) (c\<lparr>ci_proxy := ClearRules (ci_proxy c)\<rparr>) in
          (case mk nodeID of
             Inl err \<Rightarrow> Some (result, RecordObservation t (ObsText (''RESTART ERROR: factory failed for node '' @ nodeID @ '': '' @ err)) c1)
           | Inr newNode \<Rightarrow> do {
               n \<leftarrow> Start e newNode;
               Some (result\<lparr>EndTime := Some t\<rparr>,
                 RecordObservation t (ObsText (''RESTART: node '' @ nodeID @ '' is back (WAL recovery complete, term and log restored)''))
                   (c1\<lparr>ci_nodes := (ci_nodes c1)(nodeID \<mapsto> n)\<rparr>)) }))"

section \<open>Rule ids\<close>

text \<open>The id that the counter value \<open>k\<close> gives.\<close>

definition gen_id :: "string \<Rightarrow> int \<Rightarrow> string" where
  "gen_id pre k = pre @ ''-'' @ itoa k"

lemma gen_id_inj:
  assumes "gen_id p k = gen_id q l" and "0 \<le> k" and "0 \<le> l"
  shows "k = l"
proof -
  have tail: "takeWhile (\<lambda>ch. ch \<noteq> CHR ''-'') (rev (gen_id r m)) = rev (decimal (nat m))" if "0 \<le> m" for r m
    using that takeWhile_not_minus [of "nat m" "rev r"] by (simp add: gen_id_def itoa_def)
  show ?thesis
    using tail [OF assms(2), of p] tail [OF assms(3), of q] assms decimal_inj [of "nat k" "nat l"] by simp
qed

text \<open>Ids in the proxy are distinct and come from counter values already used.\<close>

definition ids_ok :: "ChaosInjector \<Rightarrow> bool" where
  "ids_ok c \<longleftrightarrow> 0 \<le> ruleCounter c \<and> distinct (map r_ID (rules (ci_proxy c))) \<and>
     (\<forall>r \<in> set (rules (ci_proxy c)). \<exists>p k. r_ID r = gen_id p k \<and> 1 \<le> k \<and> k \<le> ruleCounter c)"

definition room :: "ChaosInjector \<Rightarrow> bool" where
  "room c \<longleftrightarrow> ruleCounter c < 2 ^ 62"

lemma nextID_eq:
  "0 \<le> ruleCounter c \<Longrightarrow> ruleCounter c < 2 ^ 63 - 1 \<Longrightarrow>
   nextID p c = (gen_id p (ruleCounter c + 1), c\<lparr>ruleCounter := ruleCounter c + 1\<rparr>)"
  by (simp add: nextID_def gen_id_def wrap64_id Let_def)

definition pair_rules :: "string \<Rightarrow> ProxyAction \<Rightarrow> (string \<times> param) list \<Rightarrow> string \<Rightarrow> int \<Rightarrow> ProxyRule list" where
  "pair_rules name act params nodeID k =
     [\<lparr>r_ID = gen_id (name @ ''-from-'' @ nodeID) (k + 1), FromNode = nodeID, ToNode = '''', r_Action = act, Params = params\<rparr>,
      \<lparr>r_ID = gen_id (name @ ''-to-'' @ nodeID) (k + 2), FromNode = '''', ToNode = nodeID, r_Action = act, Params = params\<rparr>]"

lemma inject_pair_eq:
  assumes "ids_ok c" and "room c"
  shows "inject_pair name act params x c =
    (gen_id (name @ ''-from-'' @ x) (ruleCounter c + 1), gen_id (name @ ''-to-'' @ x) (ruleCounter c + 2),
     c\<lparr>ci_proxy := (ci_proxy c)\<lparr>rules := rules (ci_proxy c) @ pair_rules name act params x (ruleCounter c)\<rparr>,
       ruleCounter := ruleCounter c + 2\<rparr>)"
  using assms by (simp add: inject_pair_def nextID_eq ids_ok_def room_def add_rule_def AddRule_def pair_rules_def add.assoc)

text \<open>New rules carry new numbers.\<close>

definition fresh_rules :: "ProxyRule list \<Rightarrow> int \<Rightarrow> int \<Rightarrow> bool" where
  "fresh_rules rs k k' \<longleftrightarrow> k \<le> k' \<and> distinct (map r_ID rs) \<and> (\<forall>r \<in> set rs. \<exists>p m. r_ID r = gen_id p m \<and> k < m \<and> m \<le> k')"

lemma fresh_pair: "0 \<le> k \<Longrightarrow> fresh_rules (pair_rules name act params x k) k (k + 2)"
  by (fastforce simp: fresh_rules_def pair_rules_def dest: gen_id_inj)

lemma fresh_not_old:
  assumes "ids_ok c" and "fresh_rules rs (ruleCounter c) k'" and "r \<in> set rs" and "r' \<in> set (rules (ci_proxy c))"
  shows "r_ID r \<noteq> r_ID r'"
proof
  assume eq: "r_ID r = r_ID r'"
  obtain p m where "r_ID r = gen_id p m" "ruleCounter c < m"
    using assms(2,3) by (auto simp: fresh_rules_def)
  moreover obtain q l where "r_ID r' = gen_id q l" "1 \<le> l" "l \<le> ruleCounter c"
    using assms(1,4) by (auto simp: ids_ok_def)
  ultimately show False
    using eq gen_id_inj [of p m q l] assms(1) by (simp add: ids_ok_def)
qed

lemma ids_ok_extend:
  assumes "ids_ok c" and "fresh_rules rs (ruleCounter c) k'"
    and "rules (ci_proxy c') = rules (ci_proxy c) @ rs" and "ruleCounter c' = k'"
  shows "ids_ok c'"
proof -
  have "r_ID r \<noteq> r_ID r'" if "r \<in> set rs" "r' \<in> set (rules (ci_proxy c))" for r r'
    using fresh_not_old [OF assms(1,2) that] .
  then have "distinct (map r_ID (rules (ci_proxy c) @ rs))"
    using assms(1,2) by (auto simp: ids_ok_def fresh_rules_def) metis
  then show ?thesis
    using assms unfolding ids_ok_def fresh_rules_def by fastforce
qed

section \<open>Runs of the injector\<close>

inductive chaos_trans :: "ChaosInjector \<Rightarrow> ChaosInjector \<Rightarrow> bool" where
  partition: "room c \<Longrightarrow> PartitionNode t x d c = (r, c') \<Longrightarrow> chaos_trans c c'"
| asymmetric: "room c \<Longrightarrow> PartitionAsymmetric t x y dir c = (r, c') \<Longrightarrow> chaos_trans c c'"
| loss: "room c \<Longrightarrow> InjectPacketLoss t x rate d c = c' \<Longrightarrow> chaos_trans c c'"
| delay: "room c \<Longrightarrow> InjectDelay t x ms jitter d c = c' \<Longrightarrow> chaos_trans c c'"
| crash: "room c \<Longrightarrow> CrashNode t x c = (r, c') \<Longrightarrow> chaos_trans c c'"
| restart: "RestartNode t e factory x c = Some (r, c') \<Longrightarrow> chaos_trans c c'"
| heal_partition: "HealPartition t r0 c = (r, c') \<Longrightarrow> chaos_trans c c'"
| expire: "timed_heal t h c = c' \<Longrightarrow> chaos_trans c c'"
| heal: "Heal t c = c' \<Longrightarrow> chaos_trans c c'"

inductive_cases chaos_transE: "chaos_trans c c'"

lemma chaos_frame [simp]:
  "ci_proxy (RecordObservation t ob c) = ci_proxy c" "ruleCounter (RecordObservation t ob c) = ruleCounter c"
  "ci_nodes (RecordObservation t ob c) = ci_nodes c"
  "ci_proxy (schedule_heal d ids ob c) = ci_proxy c" "ruleCounter (schedule_heal d ids ob c) = ruleCounter c"
  "ci_nodes (schedule_heal d ids ob c) = ci_nodes c"
  by (simp_all add: RecordObservation_def schedule_heal_def)

lemma rules_remove: "rules (fold RemoveRule ids px) = filter (\<lambda>r. r_ID r \<notin> set ids) (rules px)"
  by (induction ids arbitrary: px) (auto simp: RemoveRule_def intro: filter_cong)

text \<open>One step keeps some of the old rules and appends rules with new numbers.\<close>

definition extends :: "ChaosInjector \<Rightarrow> ChaosInjector \<Rightarrow> bool" where
  "extends c c' \<longleftrightarrow> (\<exists>P rs. fresh_rules rs (ruleCounter c) (ruleCounter c') \<and>
     rules (ci_proxy c') = filter P (rules (ci_proxy c)) @ rs)"

lemma extendsI_filter:
  "rules (ci_proxy c') = filter P (rules (ci_proxy c)) \<Longrightarrow> ruleCounter c' = ruleCounter c \<Longrightarrow> extends c c'"
  unfolding extends_def fresh_rules_def by (intro exI [of _ P] exI [of _ "[]"]) simp

lemma extendsI_append:
  "rules (ci_proxy c') = rules (ci_proxy c) @ rs \<Longrightarrow> fresh_rules rs (ruleCounter c) (ruleCounter c') \<Longrightarrow> extends c c'"
  unfolding extends_def by (intro exI [of _ "\<lambda>_. True"] exI [of _ rs]) simp

lemma extends_pair:
  assumes "ids_ok c" and "room c"
    and "rules (ci_proxy c') = rules (ci_proxy c) @ pair_rules name act params x (ruleCounter c)"
    and "ruleCounter c' = ruleCounter c + 2"
  shows "extends c c'"
  using assms fresh_pair [of "ruleCounter c" name act params x] by (auto simp: ids_ok_def intro!: extendsI_append)

lemma PartitionNode_eq:
  assumes "ids_ok c" and "room c"
  shows "\<exists>r c'. PartitionNode t x d c = (r, c') \<and> RuleIDs r = map r_ID (pair_rules ''part'' ActionDrop [] x (ruleCounter c)) \<and>
     rules (ci_proxy c') = rules (ci_proxy c) @ pair_rules ''part'' ActionDrop [] x (ruleCounter c) \<and>
     ruleCounter c' = ruleCounter c + 2 \<and> ci_nodes c' = ci_nodes c"
  using assms by (simp add: PartitionNode_def inject_pair_eq) (simp add: pair_rules_def)

lemma CrashNode_eq:
  assumes "ids_ok c" and "room c" and "ci_nodes c x = Some n"
  shows "\<exists>r c'. CrashNode t x c = (r, c') \<and>
     rules (ci_proxy c') = rules (ci_proxy c) @ pair_rules ''crash'' ActionDrop [] x (ruleCounter c) \<and>
     ruleCounter c' = ruleCounter c + 2 \<and> ci_nodes c' = (ci_nodes c)(x \<mapsto> Stop n)"
  using assms by (simp add: CrashNode_def inject_pair_eq)

lemma extends_PartitionAsymmetric:
  assumes "ids_ok c" and "room c" and "PartitionAsymmetric t x y dir c = (r, c')"
  shows "extends c c'"
proof -
  define k where "k = ruleCounter c"
  have k: "0 \<le> k" "k < 2 ^ 62"
    using assms(1,2) by (simp_all add: ids_ok_def room_def k_def)
  have one: "extends c c'" if "ruleCounter c' = k + 1" "rules (ci_proxy c') = rules (ci_proxy c) @ [drop_rule (gen_id ''apart'' (k + 1)) a b]"
    for a b
    using that by (intro extendsI_append [OF that(2)]) (fastforce simp: fresh_rules_def k_def drop_rule_def)
  have two: "extends c c'" if "ruleCounter c' = k + 2"
      "rules (ci_proxy c') = rules (ci_proxy c) @ [drop_rule (gen_id ''apart'' (k + 1)) x y, drop_rule (gen_id ''apart'' (k + 2)) y x]"
    using that k by (intro extendsI_append [OF that(2)]) (fastforce simp: fresh_rules_def k_def drop_rule_def dest: gen_id_inj)
  show ?thesis
    using assms(3) k one two
    by (auto simp: PartitionAsymmetric_def nextID_eq k_def add_rule_def AddRule_def Let_def add.assoc
        intro: extendsI_filter [of _ "\<lambda>_. True"] split: if_splits)
qed

lemma extends_step:
  assumes "chaos_trans c c'" and "ids_ok c"
  shows "extends c c'"
  using assms(1)
proof cases
  case (partition t x d r)
  then show ?thesis by (intro extends_pair [OF assms(2)]) (auto simp: PartitionNode_def inject_pair_eq [OF assms(2)])
next
  case (asymmetric t x y dir r)
  then show ?thesis using extends_PartitionAsymmetric [OF assms(2)] by blast
next
  case (loss t x rate d)
  then show ?thesis by (intro extends_pair [OF assms(2)]) (auto simp: InjectPacketLoss_def inject_pair_eq [OF assms(2)])
next
  case (delay t x ms jitter d)
  then show ?thesis by (intro extends_pair [OF assms(2)]) (auto simp: InjectDelay_def inject_pair_eq [OF assms(2)])
next
  case (crash t x r)
  then show ?thesis
    by (cases "ci_nodes c x")
      (auto simp: CrashNode_def inject_pair_eq [OF assms(2)] intro: extendsI_filter [of _ "\<lambda>_. True"] extends_pair [OF assms(2)])
next
  case (restart t e factory x r)
  then show ?thesis
    by (auto simp: RestartNode_def ClearRules_def bind_eq_Some_conv Let_def split: option.splits sum.splits
        intro: extendsI_filter [of _ "\<lambda>_. True"] extendsI_filter [of _ "\<lambda>_. False"])
next
  case (heal_partition t r0 r)
  then show ?thesis
    by (auto simp: HealPartition_def remove_rules_def rules_remove intro!: extendsI_filter)
next
  case (expire t h)
  then show ?thesis
    by (auto simp: timed_heal_def remove_rules_def rules_remove intro!: extendsI_filter)
next
  case (heal t)
  then show ?thesis
    by (auto simp: Heal_def ClearRules_def intro: extendsI_filter [of _ "\<lambda>_. False"])
qed

lemma extends_ids_ok:
  assumes "extends c c'" and "ids_ok c"
  shows "ids_ok c'"
proof -
  obtain P rs where e: "fresh_rules rs (ruleCounter c) (ruleCounter c')" "rules (ci_proxy c') = filter P (rules (ci_proxy c)) @ rs"
    using assms(1) by (auto simp: extends_def)
  let ?d = "c\<lparr>ci_proxy := (ci_proxy c)\<lparr>rules := filter P (rules (ci_proxy c))\<rparr>\<rparr>"
  have "ids_ok ?d"
    using assms(2) unfolding ids_ok_def by (simp add: distinct_map_filter)
  from ids_ok_extend [OF this, of rs "ruleCounter c'" c'] e show ?thesis
    by simp
qed

text \<open>A rule keeps its id to itself for ever.\<close>

lemma extends_owner:
  assumes "extends c c'" and "ids_ok c" and "r_ID rule = gen_id p k" and "0 \<le> k" and "k \<le> ruleCounter c"
    and "\<forall>r \<in> set (rules (ci_proxy c)). r_ID r = r_ID rule \<longrightarrow> r = rule"
  shows "(\<forall>r \<in> set (rules (ci_proxy c')). r_ID r = r_ID rule \<longrightarrow> r = rule) \<and> k \<le> ruleCounter c'"
proof -
  obtain P rs where e: "fresh_rules rs (ruleCounter c) (ruleCounter c')" "rules (ci_proxy c') = filter P (rules (ci_proxy c)) @ rs"
    using assms(1) by (auto simp: extends_def)
  have "r_ID r \<noteq> r_ID rule" if "r \<in> set rs" for r
  proof
    assume eq: "r_ID r = r_ID rule"
    have "\<exists>q m. r_ID r = gen_id q m \<and> ruleCounter c < m \<and> m \<le> ruleCounter c'"
      using e(1) that unfolding fresh_rules_def by simp
    then obtain q m where "r_ID r = gen_id q m" "ruleCounter c < m"
      by blast
    then show False
      using gen_id_inj [of p k q m] assms(3,4,5) eq by simp
  qed
  then show ?thesis
    using e assms(5,6) by (auto simp: fresh_rules_def)
qed

lemma run_owner:
  assumes "chaos_trans\<^sup>*\<^sup>* c c'" and "ids_ok c" and "r_ID rule = gen_id p k" and "0 \<le> k" and "k \<le> ruleCounter c"
    and "\<forall>r \<in> set (rules (ci_proxy c)). r_ID r = r_ID rule \<longrightarrow> r = rule"
  shows "ids_ok c' \<and> k \<le> ruleCounter c' \<and> (\<forall>r \<in> set (rules (ci_proxy c')). r_ID r = r_ID rule \<longrightarrow> r = rule)"
  using assms(1)
proof (induction rule: rtranclp_induct)
  case base
  then show ?case using assms by simp
next
  case (step d d')
  then have "extends d d'" "ids_ok d" using extends_step by blast+
  then show ?case
    using extends_ids_ok [of d d'] extends_owner [of d d' rule p k] step.IH assms(3,4) by simp
qed

lemma PartitionNode_owns:
  assumes "ids_ok c" and "room c" and "PartitionNode t x d c = (r, c1)" and "chaos_trans\<^sup>*\<^sup>* c1 c2"
    and "rule \<in> set (pair_rules ''part'' ActionDrop [] x (ruleCounter c))"
  shows "\<forall>r \<in> set (rules (ci_proxy c2)). r_ID r = r_ID rule \<longrightarrow> r = rule"
proof -
  have k: "0 \<le> ruleCounter c" using assms(1) by (simp add: ids_ok_def)
  have c1: "rules (ci_proxy c1) = rules (ci_proxy c) @ pair_rules ''part'' ActionDrop [] x (ruleCounter c)"
      "ruleCounter c1 = ruleCounter c + 2"
    using PartitionNode_eq [OF assms(1,2), of t x d] assms(3) by auto
  have fresh: "fresh_rules (pair_rules ''part'' ActionDrop [] x (ruleCounter c)) (ruleCounter c) (ruleCounter c1)"
    using fresh_pair [OF k] c1(2) by simp
  have ok: "ids_ok c1"
    using ids_ok_extend [OF assms(1) fresh c1(1)] by simp
  obtain p m where rule: "r_ID rule = gen_id p m" "0 \<le> m" "m \<le> ruleCounter c1"
    using assms(5) k c1(2) by (auto simp: pair_rules_def)
  have "rule \<in> set (rules (ci_proxy c1))"
    using c1(1) assms(5) by simp
  then have "\<forall>r \<in> set (rules (ci_proxy c1)). r_ID r = r_ID rule \<longrightarrow> r = rule"
    using ok by (auto simp: ids_ok_def distinct_map dest: inj_onD)
  then show ?thesis
    using run_owner [OF assms(4) ok rule] by blast
qed

lemma crash_image_Stop:
  assumes "node_durable n" and "crash_image (wal (Stop n)) f"
  shows "crash_image (wal n) f"
  using assms
  by (auto simp: node_durable_def wal_durable_def wal_holds_def wal_good_def Stop_def Close_def Flush_def crash_image_def)

section \<open>Properties of the control plane\<close>

text \<open>
  Healing is exact. Whatever other injections, expiries, heals, crashes and restarts happen
  between a partition and its healing, \<open>HealPartition\<close> removes the two rules of that partition
  and no other rule; when nothing happened in between, the rule list is the original one.
\<close>

theorem heal_removes_exactly_its_rules:
  assumes "ids_ok c" and "room c" and "PartitionNode t x d c = (r, c1)" and "chaos_trans\<^sup>*\<^sup>* c1 c2"
    and "HealPartition t' r c2 = (r', c3)"
  shows "rules (ci_proxy c3) = filter (\<lambda>rule. rule \<notin> set (drop (length (rules (ci_proxy c))) (rules (ci_proxy c1)))) (rules (ci_proxy c2)) \<and>
    (c2 = c1 \<longrightarrow> rules (ci_proxy c3) = rules (ci_proxy c))"
proof -
  define new where "new = pair_rules ''part'' ActionDrop [] x (ruleCounter c)"
  have c1: "rules (ci_proxy c1) = rules (ci_proxy c) @ new" "RuleIDs r = map r_ID new"
    using PartitionNode_eq [OF assms(1,2), of t x d] assms(3) by (auto simp: new_def)
  have own: "r' \<in> set new" if "r' \<in> set (rules (ci_proxy c2))" "r_ID r' \<in> r_ID ` set new" for r'
    using PartitionNode_owns [OF assms(1-4)] that by (auto simp: new_def)
  have c3: "rules (ci_proxy c3) = filter (\<lambda>rule. r_ID rule \<notin> set (map r_ID new)) (rules (ci_proxy c2))"
    using assms(5) c1(2) by (auto simp: HealPartition_def remove_rules_def rules_remove)
  also have "\<dots> = filter (\<lambda>rule. rule \<notin> set new) (rules (ci_proxy c2))"
    using own by (intro filter_cong) auto
  finally have main: "rules (ci_proxy c3) = filter (\<lambda>rule. rule \<notin> set new) (rules (ci_proxy c2))" .
  have "r' \<notin> set new" if "r' \<in> set (rules (ci_proxy c))" for r'
    using fresh_not_old [OF assms(1) fresh_pair _ that] assms(1) unfolding new_def ids_ok_def by blast
  then have "filter (\<lambda>rule. rule \<notin> set new) (rules (ci_proxy c)) = rules (ci_proxy c)"
    by (simp add: filter_True)
  moreover have "filter (\<lambda>rule. rule \<notin> set new) new = []"
    by (simp add: filter_False)
  ultimately show ?thesis
    using main c1(1) by auto
qed

theorem heal_removes_exactly_its_rules_witness:
  "\<exists>r c1 r' c3. PartitionNode 0 ''n1'' 0 (NewChaosInjector NewNetworkProxy Map.empty) = (r, c1) \<and>
     HealPartition 5 r c1 = (r', c3) \<and> length (rules (ci_proxy c1)) = 2 \<and> rules (ci_proxy c3) = []"
proof -
  let ?c = "NewChaosInjector NewNetworkProxy Map.empty"
  have ok: "ids_ok ?c" "room ?c"
    by (simp_all add: ids_ok_def room_def NewChaosInjector_def NewNetworkProxy_def)
  obtain r c1 where run: "PartitionNode 0 ''n1'' 0 ?c = (r, c1)"
      "rules (ci_proxy c1) = rules (ci_proxy ?c) @ pair_rules ''part'' ActionDrop [] ''n1'' (ruleCounter ?c)"
    using PartitionNode_eq [OF ok, of 0 "''n1''" 0] by blast
  obtain r' c3 where heal: "HealPartition 5 r c1 = (r', c3)"
    by (cases "HealPartition 5 r c1")
  from heal_removes_exactly_its_rules [OF ok run(1) _ heal] run heal show ?thesis
    by (simp add: NewChaosInjector_def NewNetworkProxy_def pair_rules_def)
qed

lemma PartitionNode_drops:
  assumes "ids_ok c" and "room c" and "PartitionNode t x d c = (r, c')" and "x \<noteq> ''''"
    and "\<forall>rule \<in> set (rules (ci_proxy c)). \<forall>dr src dst. src = x \<or> dst = x \<longrightarrow> \<not> decides dr src dst rule"
  shows "ShouldDeliver dr src dst (ci_proxy c') = (if src = x \<or> dst = x then (False, 0) else ShouldDeliver dr src dst (ci_proxy c))"
proof -
  let ?new = "pair_rules ''part'' ActionDrop [] x (ruleCounter c)"
  have c': "rules (ci_proxy c') = rules (ci_proxy c) @ ?new"
    using PartitionNode_eq [OF assms(1,2), of t x d] assms(3) by auto
  show ?thesis
  proof (cases "src = x \<or> dst = x")
    case True
    then have "eval_rules dr (rules (ci_proxy c')) src dst = eval_rules dr ?new src dst"
      using assms(5) c' by (auto intro: eval_rules_skip)
    then show ?thesis
      using True assms(4) by (auto simp: ShouldDeliver_def pair_rules_def matches_def rule_verdict_def)
  next
    case False
    have quiet: "\<not> decides dr src dst rule" if "rule \<in> set ?new" for rule
      using that False assms(4) by (auto simp: pair_rules_def decides_def matches_def)
    have "eval_rules dr (rules (ci_proxy c) @ ?new) src dst = eval_rules dr (rules (ci_proxy c)) src dst"
    proof (cases "\<exists>rule \<in> set (rules (ci_proxy c)). decides dr src dst rule")
      case True
      then show ?thesis by (rule eval_rules_append_decided)
    next
      case False
      then show ?thesis using eval_rules_none quiet by (metis Un_iff set_append)
    qed
    then show ?thesis
      using False c' by (simp add: ShouldDeliver_def)
  qed
qed

text \<open>
  A partition isolates its node. If no earlier rule decides about messages from or to the
  node, then after \<open>PartitionNode\<close> every message from or to it is dropped, and every other
  message is treated as before.
\<close>

theorem partition_isolates:
  assumes "ids_ok c" and "room c" and "PartitionNode t x d c = (r, c')" and "x \<noteq> ''''"
    and "\<forall>rule \<in> set (rules (ci_proxy c)). \<forall>dr src dst. src = x \<or> dst = x \<longrightarrow> \<not> decides dr src dst rule"
  shows "ShouldDeliver dr src dst (ci_proxy c') = (if src = x \<or> dst = x then (False, 0) else ShouldDeliver dr src dst (ci_proxy c))"
  using assms by (rule PartitionNode_drops)

theorem partition_isolates_witness:
  "\<exists>r c'. PartitionNode 0 ''n1'' 0 (NewChaosInjector NewNetworkProxy Map.empty) = (r, c') \<and>
     ShouldDeliver \<lparr>d_int = 0, d_float = 0\<rparr> ''n2'' ''n1'' (ci_proxy c') = (False, 0) \<and>
     ShouldDeliver \<lparr>d_int = 0, d_float = 0\<rparr> ''n2'' ''n3'' (ci_proxy c') = (True, 0)"
proof -
  let ?c = "NewChaosInjector NewNetworkProxy Map.empty"
  have ok: "ids_ok ?c" "room ?c" "rules (ci_proxy ?c) = []"
    by (simp_all add: ids_ok_def room_def NewChaosInjector_def NewNetworkProxy_def)
  obtain r c' where run: "PartitionNode 0 ''n1'' 0 ?c = (r, c')"
    by (cases "PartitionNode 0 ''n1'' 0 ?c")
  from partition_isolates [OF ok(1,2) run, of "\<lparr>d_int = 0, d_float = 0\<rparr>" "''n2''"] ok(3) run show ?thesis
    by (simp add: ShouldDeliver_def)
qed

text \<open>
  A partition after a delay has no effect. When a delay is active for a node, a later
  \<open>PartitionNode\<close> for the same node drops nothing: each message from or to the node is still
  delivered, because the delay rule decides first.
\<close>

theorem partition_after_delay_ineffective:
  assumes "ids_ok c" and "room c" and "rules (ci_proxy c) = []" and "InjectDelay t x ms jitter d c = c1"
    and "PartitionNode t' x d' c1 = (r, c2)" and "room c1" and "src = x \<or> dst = x"
  shows "fst (ShouldDeliver dr src dst (ci_proxy c2))"
proof -
  let ?delay = "pair_rules ''delay'' ActionDelay [(''delay_ms'', PInt ms), (''jitter_ms'', PInt jitter)] x (ruleCounter c)"
  have c1: "rules (ci_proxy c1) = ?delay"
    using assms(3,4) by (auto simp: InjectDelay_def inject_pair_eq [OF assms(1,2)])
  have "ids_ok c1"
    using extends_ids_ok [OF extends_step assms(1)] chaos_trans.delay [OF assms(2,4)] assms(1) by blast
  then have c2: "rules (ci_proxy c2) = ?delay @ pair_rules ''part'' ActionDrop [] x (ruleCounter c1)"
    using PartitionNode_eq [of c1 t' x d'] assms(5,6) c1 by auto
  show ?thesis
    using assms(7) unfolding ShouldDeliver_def c2
    by (auto simp: pair_rules_def matches_def rule_verdict_def Let_def)
qed

theorem partition_after_delay_ineffective_witness:
  "\<exists>r c2. PartitionNode 1 ''n1'' 0 (InjectDelay 0 ''n1'' 20 5 0 (NewChaosInjector NewNetworkProxy Map.empty)) = (r, c2) \<and>
     fst (ShouldDeliver \<lparr>d_int = 0, d_float = 0\<rparr> ''n2'' ''n1'' (ci_proxy c2))"
proof -
  let ?c = "NewChaosInjector NewNetworkProxy Map.empty"
  have ok: "ids_ok ?c" "room ?c" "rules (ci_proxy ?c) = []"
    by (simp_all add: ids_ok_def room_def NewChaosInjector_def NewNetworkProxy_def)
  have room: "room (InjectDelay 0 ''n1'' 20 5 0 ?c)"
    by (simp add: InjectDelay_def inject_pair_eq [OF ok(1,2)]) (simp add: room_def NewChaosInjector_def)
  obtain r c2 where run: "PartitionNode 1 ''n1'' 0 (InjectDelay 0 ''n1'' 20 5 0 ?c) = (r, c2)"
    by (cases "PartitionNode 1 ''n1'' 0 (InjectDelay 0 ''n1'' 20 5 0 ?c)")
  from partition_after_delay_ineffective [OF ok refl run room, of "''n2''" "''n1''"] run show ?thesis
    by blast
qed

text \<open>
  Crash and restart. When a healthy node is crashed and restarted with a factory that builds
  the node from what the crash left on disk, the new node is in order and has the term, the vote
  and the whole log of the old one, and no proxy rule is left.
\<close>

theorem crash_restart_recovers:
  assumes "ids_ok c" and "room c" and "ci_nodes c x = Some n" and "node_inv n" and "CrashNode t x c = (r1, c1)"
    and "crash_image (wal (the (ci_nodes c1 x))) f" and "mk x = Inr k" and "NewRaftNode cfg True f = Some (Inr k)"
    and "NodeID cfg = NodeID (config n)" and "Peers cfg = Peers (config n)" and "0 < ElectionTimeout cfg"
  shows "\<exists>r2 c2 n'. RestartNode t' e (Some mk) x c1 = Some (r2, c2) \<and> rules (ci_proxy c2) = [] \<and> ci_nodes c2 x = Some n' \<and>
    node_inv n' \<and> currentTerm n' = currentTerm n \<and> votedFor n' = votedFor n \<and> entries (RaftNode.log n') = entries (RaftNode.log n)"
proof -
  have c1: "ci_nodes c1 x = Some (Stop n)"
    using CrashNode_eq [OF assms(1-3), of t] assms(5) by auto
  have image: "crash_image (wal n) f"
    using assms(4,6) c1 by (auto simp: node_inv_def intro: crash_image_Stop)
  obtain n' where n': "Start e k = Some n'"
    using assms(8,11) NewRaftNode_config [OF assms(8)] by (auto simp: Start_eq)
  have "restarts n n'"
    by (rule restarts.restart [OF image assms(9,10,8) n'])
  from restarts_durable [OF this assms(4)] n' assms(7) show ?thesis
    by (auto simp: RestartNode_def ClearRules_def Let_def)
qed

theorem crash_restart_recovers_witness:
  "\<exists>c mk n r2 c2 n'. ci_nodes c ''c'' = Some n \<and> node_inv n \<and>
     RestartNode 9 sample_env (Some mk) ''c'' (snd (CrashNode 3 ''c'' c)) = Some (r2, c2) \<and>
     ci_nodes c2 ''c'' = Some n' \<and> node_inv n' \<and> currentTerm n' = currentTerm n \<and> rules (ci_proxy c2) = []"
proof -
  obtain n :: RaftNode where n: "node_inv n" "currentTerm n = 0" "RaftNode.log n = NewRaftLog"
    by (rule sample_voter_inv) blast
  define c where "c = NewChaosInjector NewNetworkProxy [''c'' \<mapsto> n]"
  have ok: "ids_ok c" "room c" and node: "ci_nodes c ''c'' = Some n"
    by (simp_all add: c_def ids_ok_def room_def NewChaosInjector_def NewNetworkProxy_def)
  have durable: "node_durable n" "node_log_ok n" "0 < ElectionTimeout (config n)"
    using n(1) by (auto simp: node_inv_def started_def)
  obtain r1 c1 where crash: "CrashNode 3 ''c'' c = (r1, c1)" "ci_nodes c1 ''c'' = Some (Stop n)"
    using CrashNode_eq [OF ok node, of 3] by auto
  define f where "f = w_file (wal (Stop n))"
  have image: "crash_image (wal (the (ci_nodes c1 ''c''))) f"
    using durable(1) crash(2)
    by (auto simp: f_def crash_image_def node_durable_def wal_durable_def wal_holds_def wal_good_def Stop_def Close_def Flush_def)
  then have "crash_image (wal n) f"
    using crash(2) durable(1) crash_image_Stop by simp
  then obtain k where k: "NewRaftNode (config n) True f = Some (Inr k)"
    using restart_durable [OF durable(1,2), of f "config n"] by blast
  have mk: "(\<lambda>_. Inr k) ''c'' = Inr k" by simp
  from crash_restart_recovers [OF ok node n(1) crash(1) image mk k refl refl durable(3), of 9 sample_env] node n(1) crash(1)
  show ?thesis by (metis snd_conv)
qed

end
