(* ===== verification/Scenario_Cluster.thy ===== *)
theory Scenario_Cluster
  imports Net_Chaos
begin

text \<open>
  The in-process cluster of the scenarios, \<open>src/scenarios/scenario.go\<close>: creation of the nodes on
  their files, start, stop, and the two observers that the scenarios use. The cluster, the
  injector and the registry share the map of nodes and the proxy, which live in the injector;
  \<open>cl_registered\<close> holds the ids whose node has registered with the transport.
\<close>

section \<open>The cluster\<close>

record Cluster =
  cl_NodeIDs :: "string list"
  cl_Injector :: ChaosInjector
  cl_registered :: "string set"

text \<open>\<open>join\<close> is \<open>filepath.Join\<close>.\<close>

definition cluster_config :: "(string \<Rightarrow> string \<Rightarrow> string) \<Rightarrow> string list \<Rightarrow> string \<Rightarrow> string \<Rightarrow> Config" where
  "cluster_config join nodeIDs dataDir i =
     (DefaultConfig i)\<lparr>DataDir := join dataDir i, Peers := map (\<lambda>p. \<lparr>pc_ID = p, pc_Address = ''''\<rparr>) (filter (\<lambda>p. p \<noteq> i) nodeIDs)\<rparr>"

fun create_nodes :: "(string \<Rightarrow> RaftNode result option) \<Rightarrow> string list \<Rightarrow> (string \<rightharpoonup> RaftNode) \<Rightarrow> (string \<rightharpoonup> RaftNode) result option" where
  "create_nodes mk [] nodes = Some (Inr nodes)"
| "create_nodes mk (i # ids) nodes =
     (case mk i of
        None \<Rightarrow> None
      | Some (Inl err) \<Rightarrow> Some (Inl (''created node '' @ i @ '': '' @ err))
      | Some (Inr node) \<Rightarrow> create_nodes mk ids (nodes(i \<mapsto> node)))"

text \<open>
  The directory of a node holds a file with the content \<open>disk i\<close> that opens when \<open>ok i\<close>; \<open>mkdir\<close>
  is the error of creating the data directory.
\<close>

definition node_factory :: "(string \<Rightarrow> string \<Rightarrow> string) \<Rightarrow> string list \<Rightarrow> string \<Rightarrow> (string \<Rightarrow> bool) \<Rightarrow> (string \<Rightarrow> byte list) \<Rightarrow> string \<Rightarrow> RaftNode result option" where
  "node_factory join nodeIDs dataDir ok disk i = NewRaftNode (cluster_config join nodeIDs dataDir i) (ok i) (disk i)"

definition NewCluster ::
    "error option \<Rightarrow> (string \<Rightarrow> string \<Rightarrow> string) \<Rightarrow> (string \<Rightarrow> bool) \<Rightarrow> (string \<Rightarrow> byte list) \<Rightarrow> string list \<Rightarrow> string \<Rightarrow> Cluster result option" where
  "NewCluster mkdir join ok disk nodeIDs dataDir =
     (case mkdir of
        Some err \<Rightarrow> Some (Inl err)
      | None \<Rightarrow>
          (case create_nodes (node_factory join nodeIDs dataDir ok disk) nodeIDs Map.empty of
             None \<Rightarrow> None
           | Some (Inl err) \<Rightarrow> Some (Inl err)
           | Some (Inr nodes) \<Rightarrow>
               Some (Inr \<lparr>cl_NodeIDs = nodeIDs, cl_Injector = NewChaosInjector NewNetworkProxy nodes, cl_registered = {}\<rparr>)))"

fun start_nodes :: "(string \<Rightarrow> env) \<Rightarrow> string list \<Rightarrow> (string \<rightharpoonup> RaftNode) \<Rightarrow> (string \<rightharpoonup> RaftNode) option" where
  "start_nodes e [] nodes = Some nodes"
| "start_nodes e (i # ids) nodes = do { n \<leftarrow> nodes i; n' \<leftarrow> Start (e i) n; start_nodes e ids (nodes(i \<mapsto> n')) }"

definition Cluster_Start :: "(string \<Rightarrow> env) \<Rightarrow> Cluster \<Rightarrow> Cluster option" where
  "Cluster_Start e c = do {
     nodes \<leftarrow> start_nodes e (cl_NodeIDs c) (ci_nodes (cl_Injector c));
     Some (c\<lparr>cl_Injector := (cl_Injector c)\<lparr>ci_nodes := nodes\<rparr>, cl_registered := cl_registered c \<union> set (cl_NodeIDs c)\<rparr>) }"

definition Cluster_Stop :: "Cluster \<Rightarrow> Cluster" where
  "Cluster_Stop c = c\<lparr>cl_Injector := (cl_Injector c)\<lparr>ci_nodes := \<lambda>i. map_option Stop (ci_nodes (cl_Injector c) i)\<rparr>\<rparr>"

text \<open>The network that the transports of the nodes see.\<close>

definition cluster_net :: "Cluster \<Rightarrow> net" where
  "cluster_net c = \<lparr>net_nodes = (\<lambda>i. if i \<in> cl_registered c then ci_nodes (cl_Injector c) i else None),
     net_proxy = ci_proxy (cl_Injector c)\<rparr>"

text \<open>The polls until the deadline, each a pass over the map of nodes in some order.\<close>

fun first_leader :: "(string \<times> RaftNode) list \<Rightarrow> string option" where
  "first_leader [] = None"
| "first_leader ((i, node) # ns) = (if IsLeader node then Some i else first_leader ns)"

fun WaitForLeader :: "string \<Rightarrow> (string \<times> RaftNode) list list \<Rightarrow> string result" where
  "WaitForLeader timeout [] = Inl (''no leader elected within '' @ timeout)"
| "WaitForLeader timeout (poll # polls) = (case first_leader poll of Some i \<Rightarrow> Inr i | None \<Rightarrow> WaitForLeader timeout polls)"

fun consistent_loop :: "u64 option \<Rightarrow> RaftNode list \<Rightarrow> bool" where
  "consistent_loop first [] = True"
| "consistent_loop first (node # ns) =
     (let ci = ns_CommitIndex (Status node) in
      case first of
        None \<Rightarrow> consistent_loop (Some ci) ns
      | Some f \<Rightarrow> if ci \<noteq> f then False else consistent_loop first ns)"

definition NodesConsistent :: "RaftNode list \<Rightarrow> bool" where
  "NodesConsistent nodes = consistent_loop None nodes"

section \<open>Fresh nodes\<close>

lemma update_new: "k \<notin> fst ` set m \<Longrightarrow> AList.update k v m = m @ [(k, v)]"
  by (induction m) auto

lemma build_peers_keys:
  "distinct (map fst m @ map pc_ID ps) \<Longrightarrow> map fst (build_peers ps m) = map fst m @ map pc_ID ps"
  by (induction ps arbitrary: m) (auto simp: update_new)

lemma fresh_node:
  assumes "0 < ElectionTimeout cfg" and "id_fits (NodeID cfg)" and "distinct (map pc_ID (Peers cfg))" and "NodeID cfg \<notin> pc_ID ` set (Peers cfg)"
  obtains m n where "NewRaftNode cfg True [] = Some (Inr m)" and "Start e m = Some n" and "node_inv n" and "state n = Follower"
    and "currentTerm n = 0" and "cluster_ids n = insert (NodeID cfg) (pc_ID ` set (Peers cfg))" and "quorum n = (length (Peers cfg) + 1) div 2 + 1"
proof -
  obtain m where m: "NewRaftNode cfg True (frames []) = Some (Inr m)" "node_durable m" "node_id m = NodeID cfg" "currentTerm m = 0"
      "state m = Follower" "RaftNode.log m = NewRaftLog\<lparr>entries := [sentinel]\<rparr>" "config m = cfg" "peers m = build_peers (Peers cfg) []"
    by (rule NewRaftNode_replay [of "[]" 0 "''''" "[]" cfg]) (auto simp: replay_all_def)
  let ?n = "spawn GoRun (rearm e m)"
  have keys: "map fst (peers ?n) = map pc_ID (Peers cfg)"
    using build_peers_keys [of "[]" "Peers cfg"] assms(3) m(8) by simp
  have log: "node_log_ok ?n"
    using m(4,6) by (simp add: node_log_ok_def log_ok_def LastTerm_def NewRaftLog_def sentinel_def)
  have "peers_ok ?n"
    using assms(3,4) keys m(3) unfolding peers_ok_def by (metis list.set_map rearm_simps(1) spawn_simps(1))
  then have "node_inv ?n"
    using log m assms(1,2) keys by (simp add: node_inv_def node_durable_def started_def rearm_def spawn_def)
  moreover have "cluster_ids ?n = insert (NodeID cfg) (pc_ID ` set (Peers cfg))"
    using m(3) keys unfolding cluster_ids_def by (metis list.set_map rearm_simps(1) spawn_simps(1))
  moreover have "quorum ?n = (length (Peers cfg) + 1) div 2 + 1"
    using arg_cong [OF keys, of length] by (simp add: quorum_def)
  ultimately show thesis
    using m assms(1) by (intro that [of m ?n]) (simp_all add: Start_eq)
qed

section \<open>Creating and starting all nodes\<close>

lemma length_filter_neq: "distinct xs \<Longrightarrow> x \<in> set xs \<Longrightarrow> Suc (length (filter (\<lambda>y. y \<noteq> x) xs)) = length xs"
proof (induction xs)
  case (Cons a xs)
  have "filter (\<lambda>y. y \<noteq> x) xs = xs" if "x \<notin> set xs"
    using that by (auto simp: filter_id_conv)
  then show ?case using Cons by auto
qed simp

lemma create_nodes_all:
  assumes "\<forall>i \<in> set ids. mk i = Some (Inr (node i))"
  shows "create_nodes mk ids nodes = Some (Inr (\<lambda>i. if i \<in> set ids then Some (node i) else nodes i))"
  using assms by (induction ids arbitrary: nodes) (auto simp: fun_eq_iff)

lemma start_nodes_all:
  assumes "distinct ids" and "\<forall>i \<in> set ids. \<exists>n. nodes i = Some n \<and> Start (e i) n = Some (node i)"
  shows "start_nodes e ids nodes = Some (\<lambda>i. if i \<in> set ids then Some (node i) else nodes i)"
  using assms by (induction ids arbitrary: nodes) (auto simp: fun_eq_iff)

section \<open>Properties of the cluster\<close>

text \<open>
  C30. A cluster on empty directories starts. For distinct ids, every node is created and started
  without an error, is reachable through the network and satisfies the invariant of a node; all
  nodes agree on the members of the cluster and on the size of a quorum.
\<close>

theorem cluster_starts:
  assumes "distinct nodeIDs" and "list_all id_fits nodeIDs" and "\<forall>i \<in> set nodeIDs. ok i \<and> disk i = []"
  shows "\<exists>c c'. NewCluster None join ok disk nodeIDs dataDir = Some (Inr c) \<and> Cluster_Start e c = Some c' \<and>
    (\<forall>i \<in> set nodeIDs. \<exists>n. net_nodes (cluster_net c') i = Some n \<and> node_inv n \<and> state n = Follower \<and> currentTerm n = 0 \<and>
       cluster_ids n = set nodeIDs \<and> quorum n = length nodeIDs div 2 + 1)"
proof -
  let ?cfg = "cluster_config join nodeIDs dataDir"
  have "\<exists>m n. node_factory join nodeIDs dataDir ok disk i = Some (Inr m) \<and> Start (e i) m = Some n \<and> node_inv n \<and> state n = Follower \<and>
      currentTerm n = 0 \<and> cluster_ids n = set nodeIDs \<and> quorum n = length nodeIDs div 2 + 1" if i: "i \<in> set nodeIDs" for i
  proof -
    have len: "length (filter (\<lambda>p. p \<noteq> i) nodeIDs) + 1 = length nodeIDs"
      using length_filter_neq [OF assms(1) i] by simp
    have cfg: "0 < ElectionTimeout (?cfg i)" "id_fits (NodeID (?cfg i))" "distinct (map pc_ID (Peers (?cfg i)))"
        "NodeID (?cfg i) \<notin> pc_ID ` set (Peers (?cfg i))"
      using assms(1,2) i by (auto simp: cluster_config_def DefaultConfig_def Millisecond_def list_all_iff comp_def)
    have "insert (NodeID (?cfg i)) (pc_ID ` set (Peers (?cfg i))) = set nodeIDs" "length (Peers (?cfg i)) + 1 = length nodeIDs"
      using i len by (auto simp: cluster_config_def DefaultConfig_def image_image)
    with fresh_node [OF cfg, of "e i"] show ?thesis
      using assms(3) i by (metis node_factory_def)
  qed
  then obtain m n where mn: "\<forall>i \<in> set nodeIDs. node_factory join nodeIDs dataDir ok disk i = Some (Inr (m i)) \<and>
      Start (e i) (m i) = Some (n i) \<and> node_inv (n i) \<and> state (n i) = Follower \<and>
      currentTerm (n i) = 0 \<and> cluster_ids (n i) = set nodeIDs \<and> quorum (n i) = length nodeIDs div 2 + 1"
    by metis
  have "create_nodes (node_factory join nodeIDs dataDir ok disk) nodeIDs Map.empty = Some (Inr (\<lambda>i. if i \<in> set nodeIDs then Some (m i) else None))"
    using create_nodes_all [of nodeIDs "node_factory join nodeIDs dataDir ok disk" m Map.empty] mn by blast
  moreover have "start_nodes e nodeIDs (\<lambda>i. if i \<in> set nodeIDs then Some (m i) else None) =
      Some (\<lambda>i. if i \<in> set nodeIDs then Some (n i) else if i \<in> set nodeIDs then Some (m i) else None)"
    using mn by (intro start_nodes_all [OF assms(1)]) auto
  ultimately show ?thesis
    using mn by (simp add: NewCluster_def Cluster_Start_def NewChaosInjector_def cluster_net_def)
qed

theorem cluster_starts_witness:
  "\<exists>c c' n. NewCluster None (\<lambda>a b. a @ ''/'' @ b) (\<lambda>_. True) (\<lambda>_. []) [''a'', ''b'', ''c''] ''data'' = Some (Inr c) \<and>
     Cluster_Start (\<lambda>_. sample_env) c = Some c' \<and> net_nodes (cluster_net c') ''b'' = Some n \<and> node_inv n \<and> quorum n = 2"
proof -
  have "distinct [''a'', ''b'', ''c'']" "list_all id_fits [''a'', ''b'', ''c'']" "\<forall>i \<in> set [''a'', ''b'', ''c'']. True \<and> ([] :: byte list) = []"
    by (simp_all add: id_fits_def)
  from cluster_starts [OF this, of "\<lambda>a b. a @ ''/'' @ b" "''data''" "\<lambda>_. sample_env"]
  obtain c c' n where "NewCluster None (\<lambda>a b. a @ ''/'' @ b) (\<lambda>_. True) (\<lambda>_. []) [''a'', ''b'', ''c''] ''data'' = Some (Inr c)"
      "Cluster_Start (\<lambda>_. sample_env) c = Some c'" "net_nodes (cluster_net c') ''b'' = Some n" "node_inv n" "quorum n = length [''a'', ''b'', ''c''] div 2 + 1"
    by (meson list.set_intros)
  moreover from this(5) have "quorum n = 2" by simp
  ultimately show ?thesis
    by blast
qed

lemma consistent_loop_Some: "consistent_loop (Some f) ns \<longleftrightarrow> (\<forall>n \<in> set ns. commitIndex (RaftNode.log n) = f)"
  by (induction ns) (auto simp: Status_def CommitIndex_def Let_def)

text \<open>
  The observers of the scenarios. Consistency does not depend on the order in which the map is
  visited: it holds exactly when all nodes have one commit index. Waiting for a leader returns an
  id exactly when some poll before the deadline sees a leader, and then the id of a leader of the
  first such poll.
\<close>

theorem cluster_observers:
  "(NodesConsistent ns \<longleftrightarrow> (\<exists>k. \<forall>n \<in> set ns. commitIndex (RaftNode.log n) = k)) \<and>
   (case WaitForLeader timeout polls of
      Inl err \<Rightarrow> \<forall>poll \<in> set polls. \<forall>(i, n) \<in> set poll. \<not> IsLeader n
    | Inr i \<Rightarrow> \<exists>before poll after n. polls = before @ poll # after \<and> (i, n) \<in> set poll \<and> IsLeader n \<and>
        (\<forall>p \<in> set before. \<forall>(j, m) \<in> set p. \<not> IsLeader m))"
proof
  show "NodesConsistent ns \<longleftrightarrow> (\<exists>k. \<forall>n \<in> set ns. commitIndex (RaftNode.log n) = k)"
    by (cases ns) (auto simp: NodesConsistent_def consistent_loop_Some Status_def CommitIndex_def Let_def)
  have none: "first_leader poll = None \<longleftrightarrow> (\<forall>(i, n) \<in> set poll. \<not> IsLeader n)" for poll
    by (induction poll rule: first_leader.induct) auto
  have some: "\<exists>n. (i, n) \<in> set poll \<and> IsLeader n" if "first_leader poll = Some i" for poll i
    using that by (induction poll rule: first_leader.induct) (auto split: if_splits)
  show "case WaitForLeader timeout polls of
      Inl err \<Rightarrow> \<forall>poll \<in> set polls. \<forall>(i, n) \<in> set poll. \<not> IsLeader n
    | Inr i \<Rightarrow> \<exists>before poll after n. polls = before @ poll # after \<and> (i, n) \<in> set poll \<and> IsLeader n \<and>
        (\<forall>p \<in> set before. \<forall>(j, m) \<in> set p. \<not> IsLeader m)"
  proof (induction polls)
    case (Cons poll polls)
    show ?case
    proof (cases "first_leader poll")
      case (Some i)
      then obtain n where "(i, n) \<in> set poll" "IsLeader n" using some by blast
      then show ?thesis
        by (simp add: Some) (metis append_Nil empty_iff list.set(1))
    next
      case None
      then have no: "\<forall>(i, n) \<in> set poll. \<not> IsLeader n" using none by blast
      show ?thesis
      proof (cases "WaitForLeader timeout polls")
        case (Inl err)
        then show ?thesis using Cons None no by auto
      next
        case (Inr i)
        then obtain before p after n where "polls = before @ p # after" "(i, n) \<in> set p" "IsLeader n"
            "\<forall>p \<in> set before. \<forall>(j, m) \<in> set p. \<not> IsLeader m"
          using Cons by auto
        then show ?thesis
          using None no Inr by (auto intro!: exI [of _ "poll # before"])
      qed
    qed
  qed simp
qed

theorem cluster_observers_witness:
  "WaitForLeader ''1s'' [[], []] = Inl ''no leader elected within 1s'' \<and> NodesConsistent []"
  using cluster_observers [where ns = "[]" and timeout = "''1s''" and polls = "[[], []]"] by simp

end
