(* ===== verification/Raft_Matching.thy ===== *)
theory Raft_Matching
  imports Raft_Cluster
begin

text \<open>
  The cluster as a machine: any number of nodes, each taking the steps of \<open>Raft_Steps\<close> in any order
  and crashing at any point, and a network that may lose, delay, reorder and duplicate append
  requests. Answers and vote messages are arbitrary, so the runs include those of every transport.

  Elections in \<open>src/raft/election.go\<close> can give one term to two leaders. Log matching is therefore
  shown for the runs in which no term is won twice: if two logs have an entry of the same term at
  an index, they are equal up to that index. The heart of it is that the append handler never
  creates a log of its own: what it leaves is the log it had or one that a leader had.
\<close>

section \<open>The machine\<close>

text \<open>
  \<open>rn_sent\<close> holds the requests that leaders have built, each with the log it was cut from, and
  \<open>rn_wins\<close> the terms in which a node has become leader; both only record what happened.
\<close>

record raft_net =
  rn_nodes :: "string \<rightharpoonup> RaftNode"
  rn_sent :: "(AppendEntriesRequest \<times> LogEntry list) list"
  rn_wins :: "(u64 \<times> string) list"

fun was_sent :: "raft_net \<Rightarrow> event \<Rightarrow> bool" where
  "was_sent s (EvAppend req) = (req \<in> fst ` set (rn_sent s))"
| "was_sent s _ = True"

fun new_wins :: "string \<Rightarrow> event \<Rightarrow> RaftNode \<Rightarrow> (u64 \<times> string) list" where
  "new_wins i (EvCampaignWon c) n = (if cp_preVote c then [] else [(currentTerm n, i)])"
| "new_wins i _ n = []"

inductive net_trans :: "raft_net \<Rightarrow> raft_net \<Rightarrow> bool" where
  local: "rn_nodes s i = Some n \<Longrightarrow> step e ev n = Some n' \<Longrightarrow> event_ok ev n \<Longrightarrow> was_sent s ev \<Longrightarrow>
    net_trans s (s\<lparr>rn_nodes := (rn_nodes s)(i \<mapsto> n'), rn_wins := rn_wins s @ new_wins i ev n'\<rparr>)"
| send: "rn_nodes s i = Some n \<Longrightarrow> replicateTo_begin p n = Some (Some req) \<Longrightarrow>
    net_trans s (s\<lparr>rn_sent := rn_sent s @ [(req, entries (RaftNode.log n))]\<rparr>)"
| crash: "rn_nodes s i = Some n \<Longrightarrow> restarts n n' \<Longrightarrow> net_trans s (s\<lparr>rn_nodes := (rn_nodes s)(i \<mapsto> n')\<rparr>)"

inductive_cases net_transE: "net_trans s s'"

definition fresh_net :: "raft_net \<Rightarrow> bool" where
  "fresh_net s \<longleftrightarrow> rn_sent s = [] \<and> rn_wins s = [] \<and>
     (\<forall>n \<in> ran (rn_nodes s). node_inv n \<and> state n = Follower \<and> entries (RaftNode.log n) = [sentinel])"

text \<open>No term is won twice; term 0 is the term of the sentinel.\<close>

definition single_winners :: "raft_net \<Rightarrow> bool" where
  "single_winners s \<longleftrightarrow> distinct (0 # map fst (rn_wins s))"

section \<open>Matching logs\<close>

definition matching :: "LogEntry list \<Rightarrow> LogEntry list \<Rightarrow> bool" where
  "matching xs ys \<longleftrightarrow> (\<forall>k. k < length xs \<longrightarrow> k < length ys \<longrightarrow> le_Term (xs ! k) = le_Term (ys ! k) \<longrightarrow>
     take (Suc k) xs = take (Suc k) ys)"

lemma matching_refl: "matching xs xs"
  by (simp add: matching_def)

lemma matching_sym: "matching xs ys \<Longrightarrow> matching ys xs"
  by (metis matching_def)

lemma matchingD: "matching xs ys \<Longrightarrow> k < length xs \<Longrightarrow> k < length ys \<Longrightarrow> le_Term (xs ! k) = le_Term (ys ! k) \<Longrightarrow>
    take (Suc k) xs = take (Suc k) ys"
  by (simp add: matching_def)

text \<open>A longer log still matches when nothing in the other log has the term of the new entry at its place.\<close>

lemma matching_snoc:
  assumes "matching xs ys" and "length xs < length ys \<Longrightarrow> le_Term (ys ! length xs) \<noteq> le_Term x"
  shows "matching (xs @ [x]) ys"
  using assms by (auto simp: matching_def nth_append less_Suc_eq)

text \<open>Behind a common prefix the merge of two matching logs is one of them.\<close>

lemma merge_tail_matching:
  assumes "matching (ps @ old) (ps @ es)"
  shows "ps @ merge_tail old es \<in> {ps @ old, ps @ es}"
  using assms
proof (induction old es arbitrary: ps rule: merge_tail.induct)
  case (3 x old y es)
  show ?case
  proof (cases "le_Term x = le_Term y")
    case True
    then have "x = y"
      using matchingD [OF "3.prems", of "length ps"] by (simp add: nth_append)
    then show ?thesis
      using "3.IH" [of "ps @ [x]"] "3.prems" True by simp
  qed simp
qed simp_all

lemma merge_at_matching:
  assumes "matching old new" and "k < length old" and "k < length new" and "le_Term (old ! k) = le_Term (new ! k)"
  shows "merge_at (Suc k) (drop (Suc k) new) old \<in> {old, new}"
proof -
  have "take (Suc k) old = take (Suc k) new"
    using matchingD [OF assms] .
  then show ?thesis
    using merge_tail_matching [of "take (Suc k) old" "drop (Suc k) old" "drop (Suc k) new"] assms(1)
    by (simp add: merge_at_def) (metis append_take_drop_id)
qed

section \<open>What one step does to the log\<close>

definition keeps_log :: "RaftNode \<Rightarrow> RaftNode \<Rightarrow> bool" where
  "keeps_log n n' \<longleftrightarrow> entries (RaftNode.log n') = entries (RaftNode.log n) \<and>
     (state n' = Leader \<longrightarrow> state n = Leader \<and> currentTerm n' = currentTerm n)"

definition merges_log :: "AppendEntriesRequest \<Rightarrow> RaftNode \<Rightarrow> RaftNode \<Rightarrow> bool" where
  "merges_log req n n' \<longleftrightarrow> prev_match req (RaftNode.log n) \<and> state n' = Follower \<and>
     entries (RaftNode.log n') = merge_at (Suc (unat (aq_PrevLogIndex req))) (aq_Entries req) (entries (RaftNode.log n))"

definition grows_log :: "RaftNode \<Rightarrow> RaftNode \<Rightarrow> bool" where
  "grows_log n n' \<longleftrightarrow> state n' = Leader \<and> currentTerm n' = currentTerm n \<and>
     (\<exists>x. le_Term x = currentTerm n \<and> entries (RaftNode.log n') = entries (RaftNode.log n) @ [x])"

lemma keeps_log_refl [simp]: "keeps_log n n"
  by (simp add: keeps_log_def)

lemma append_log:
  assumes "handleAppendEntries e req n = Some (n', r)" and "node_inv n" and "event_ok (EvAppend req) n"
  shows "keeps_log n n' \<or> merges_log req n n'"
proof (cases "currentTerm n \<le> aq_Term req \<and> prev_match req (RaftNode.log n)")
  case True
  then show ?thesis
    using handleAppendEntries_refines [of n req e] assms by (auto simp: merges_log_def node_inv_def)
next
  case False
  have "started n" and len: "0 < length (entries (RaftNode.log n))"
    using assms(2) log_ok_length by (auto simp: node_inv_def node_log_ok_def)
  moreover have "0 < aq_PrevLogIndex req" if "\<not> prev_match req (RaftNode.log n)"
    using that len by (cases "aq_PrevLogIndex req = 0") (auto simp: prev_match_def word_neq_0_conv)
  ultimately show ?thesis
    using False assms(1) by (auto simp: handleAppendEntries_cases prev_match_def not_le keeps_log_def split: if_splits)
qed

lemma propose_log: "keeps_log n (fst (Propose d n)) \<or> state n = Leader \<and> grows_log n (fst (Propose d n))"
  by (auto simp: Propose_def keeps_log_def grows_log_def Append_def Let_def split: prod.split option.split)

lemma campaign_start_log: "campaign_start e pv n = Some (n', next) \<Longrightarrow> keeps_log n n'"
  by (auto simp: campaign_start_def becomeCandidate_eq keeps_log_def bind_eq_Some_conv Let_def split: if_splits)

lemma campaign_won_log: "campaign_won e c n = Some (n', next) \<Longrightarrow> if cp_preVote c then keeps_log n n' else grows_log n n'"
  by (auto simp: campaign_won_def becomeLeader_eq grows_log_def noop_entry_def bind_eq_Some_conv dest: campaign_start_log split: if_splits)

lemma maybeCommit_log:
  "maybeCommit n = Some n' \<Longrightarrow> entries (RaftNode.log n') = entries (RaftNode.log n) \<and> state n' = state n \<and> currentTerm n' = currentTerm n"
  by (simp add: maybeCommit_frame)

lemma step_log_local:
  assumes "step e ev n = Some n'" and "\<And>req. ev \<noteq> EvAppend req"
  shows "keeps_log n n' \<or> (grows_log n n' \<and> (state n = Leader \<and> new_wins i ev n' = [] \<or> new_wins i ev n' = [(currentTerm n, i)]))"
  using assms
proof (cases ev)
  case (EvVote req)
  then show ?thesis
    using assms(1)
    by (auto simp: keeps_log_def handleRequestVote_def becomeFollower_eq resetElectionTimer_eq bind_eq_Some_conv Let_def split: if_splits)
next
  case (EvCampaign pv)
  then show ?thesis using assms(1) campaign_start_log by fastforce
next
  case (EvCampaignWon c)
  then obtain nxt where "campaign_won e c n = Some (n', nxt)"
    using assms(1) by auto
  from campaign_won_log [OF this] show ?thesis
    using EvCampaignWon by (auto simp: grows_log_def split: if_splits)
next
  case (EvPropose d)
  then show ?thesis using assms(1) propose_log by fastforce
next
  case EvHeartbeats
  then show ?thesis
    using assms(1) by (auto simp: maybeSendHeartbeats_def keeps_log_def bind_eq_Some_conv dest!: maybeCommit_log split: if_splits)
next
  case (EvAppendResponse p req resp)
  then show ?thesis
    using assms(1)
    by (auto simp: keeps_log_def replicateTo_finish_def becomeFollower_eq set_peer_def bind_eq_Some_conv Let_def dest!: maybeCommit_log
        split: if_splits)
qed (auto simp: keeps_log_def campaign_recv_def campaign_lost_def becomeFollower_eq run_election_fired_def run_timing_update_def apply_send_def
   apply_mark_def timer_fire_def run_heartbeat_tick_def UpdateTimings_def bind_eq_Some_conv Let_def resetElectionTimer_eq notifyProposal_def SetLastApplied_def
   split: if_splits option.splits list.splits)

lemma step_log:
  assumes "step e ev n = Some n'" and "node_inv n" and "event_ok ev n"
  shows "keeps_log n n' \<or> (\<exists>req. ev = EvAppend req \<and> merges_log req n n') \<or>
    (grows_log n n' \<and> (state n = Leader \<and> new_wins i ev n' = [] \<or> new_wins i ev n' = [(currentTerm n, i)]))"
proof (cases "\<exists>req. ev = EvAppend req")
  case True
  then show ?thesis using assms append_log by fastforce
qed (use step_log_local [OF assms(1)] in blast)

section \<open>The invariant\<close>

definition net_logs :: "raft_net \<Rightarrow> LogEntry list set" where
  "net_logs s = (entries \<circ> RaftNode.log) ` ran (rn_nodes s) \<union> snd ` set (rn_sent s)"

text \<open>The request carries the part of the log \<open>g\<close> behind its position.\<close>

definition cut_from :: "AppendEntriesRequest \<Rightarrow> LogEntry list \<Rightarrow> bool" where
  "cut_from req g \<longleftrightarrow> unat (aq_PrevLogIndex req) < length g \<and> aq_PrevLogTerm req = le_Term (g ! unat (aq_PrevLogIndex req)) \<and>
     aq_Entries req = drop (Suc (unat (aq_PrevLogIndex req))) g"

text \<open>A leader has won its term, and entries of its term lie within its log.\<close>

definition leads_alone :: "raft_net \<Rightarrow> string \<Rightarrow> RaftNode \<Rightarrow> bool" where
  "leads_alone s i n \<longleftrightarrow> (currentTerm n, i) \<in> set (rn_wins s) \<and>
     (\<forall>g \<in> net_logs s. \<forall>k < length g. le_Term (g ! k) = currentTerm n \<longrightarrow> k < length (entries (RaftNode.log n)))"

definition net_inv :: "raft_net \<Rightarrow> bool" where
  "net_inv s \<longleftrightarrow> (\<forall>i n. rn_nodes s i = Some n \<longrightarrow> node_inv n) \<and>
     (\<forall>g \<in> net_logs s. g \<noteq> [] \<and> g ! 0 = sentinel) \<and>
     (\<forall>g \<in> net_logs s. \<forall>h \<in> net_logs s. matching g h) \<and>
     (\<forall>g \<in> net_logs s. \<forall>x \<in> set g. le_Term x = 0 \<or> le_Term x \<in> fst ` set (rn_wins s)) \<and>
     (\<forall>req g. (req, g) \<in> set (rn_sent s) \<longrightarrow> cut_from req g) \<and>
     (\<forall>i n. rn_nodes s i = Some n \<longrightarrow> state n = Leader \<longrightarrow> leads_alone s i n)"

lemmas net_invI = net_inv_def [THEN iffD2, OF conjI, OF _ conjI, OF _ _ conjI, OF _ _ _ conjI, OF _ _ _ _ conjI]

lemma net_invD:
  assumes "net_inv s"
  shows "rn_nodes s i = Some n \<Longrightarrow> node_inv n"
    and "g \<in> net_logs s \<Longrightarrow> g \<noteq> [] \<and> g ! 0 = sentinel"
    and "g \<in> net_logs s \<Longrightarrow> h \<in> net_logs s \<Longrightarrow> matching g h"
    and "g \<in> net_logs s \<Longrightarrow> x \<in> set g \<Longrightarrow> le_Term x = 0 \<or> le_Term x \<in> fst ` set (rn_wins s)"
    and "(req, g) \<in> set (rn_sent s) \<Longrightarrow> cut_from req g"
    and "rn_nodes s i = Some n \<Longrightarrow> state n = Leader \<Longrightarrow> leads_alone s i n"
  using assms unfolding net_inv_def by blast+

lemma node_log: "rn_nodes s i = Some n \<Longrightarrow> entries (RaftNode.log n) \<in> net_logs s"
  by (auto simp: net_logs_def intro: ranI)

lemma sent_log: "(req, g) \<in> set (rn_sent s) \<Longrightarrow> g \<in> net_logs s"
  by (force simp: net_logs_def)

text \<open>The network after a step of one node.\<close>

definition put_node :: "string \<Rightarrow> RaftNode \<Rightarrow> (u64 \<times> string) list \<Rightarrow> raft_net \<Rightarrow> raft_net" where
  "put_node i n ws s = s\<lparr>rn_nodes := (rn_nodes s)(i \<mapsto> n), rn_wins := rn_wins s @ ws\<rparr>"

lemma put_node_simps [simp]:
  "rn_nodes (put_node i n ws s) = (rn_nodes s)(i \<mapsto> n)" "rn_wins (put_node i n ws s) = rn_wins s @ ws"
  "rn_sent (put_node i n ws s) = rn_sent s"
  by (simp_all add: put_node_def)

lemma net_logs_put: "g \<in> net_logs (put_node i n ws s) \<Longrightarrow> g = entries (RaftNode.log n) \<or> g \<in> net_logs s"
  by (auto simp: net_logs_def ran_def split: if_splits)

lemma leads_alone_mono:
  assumes "leads_alone s i n" and "\<And>g k. g \<in> net_logs s' \<Longrightarrow> g \<notin> net_logs s \<Longrightarrow> k < length g \<Longrightarrow> le_Term (g ! k) = currentTerm n \<Longrightarrow>
      k < length (entries (RaftNode.log n))"
    and "set (rn_wins s) \<subseteq> set (rn_wins s')"
  shows "leads_alone s' i n"
  using assms unfolding leads_alone_def by blast

text \<open>A step that brings no new log into the network keeps the invariant.\<close>

lemma net_inv_old_log:
  assumes inv: "net_inv s" and n: "rn_nodes s i = Some n" and ok: "node_inv n'" and old: "entries (RaftNode.log n') \<in> net_logs s"
    and lead: "state n' = Leader \<Longrightarrow> state n = Leader \<and> currentTerm n' = currentTerm n \<and> entries (RaftNode.log n') = entries (RaftNode.log n)"
  shows "net_inv (put_node i n' ws s)" (is "net_inv ?s")
proof -
  have logs: "g \<in> net_logs s" if "g \<in> net_logs ?s" for g
    using net_logs_put [OF that] old by blast
  have "leads_alone ?s j m" if m: "rn_nodes ?s j = Some m" "state m = Leader" for j m
  proof -
    have "leads_alone s j m"
    proof (cases "j = i")
      case True
      then have "leads_alone s i n" "m = n'"
        using m n lead net_invD(6) [OF inv] by auto
      then show ?thesis
        using lead m True by (simp add: leads_alone_def)
    qed (use m net_invD(6) [OF inv] in simp)
    then show ?thesis
      by (rule leads_alone_mono) (use logs in auto)
  qed
  moreover have "le_Term x = 0 \<or> le_Term x \<in> fst ` set (rn_wins ?s)" if "g \<in> net_logs ?s" "x \<in> set g" for g x
    using net_invD(4) [OF inv logs [OF that(1)] that(2)] by auto
  ultimately show ?thesis
    using logs ok net_invD(1-3,5) [OF inv] by (intro net_invI) auto
qed

text \<open>A leader that appends an entry of its term keeps the invariant, if nobody else has won the term.\<close>

lemma own_term_within:
  assumes inv: "net_inv s" and n: "rn_nodes s i = Some n" and wins: "state n = Leader \<and> ws = [] \<or> ws = [(currentTerm n, i)]"
    and single: "distinct (0 # map fst (rn_wins s @ ws))"
    and g: "g \<in> net_logs s" "k < length g" "le_Term (g ! k) = currentTerm n"
  shows "k < length (entries (RaftNode.log n))"
proof (cases "ws = []")
  case True
  then have "leads_alone s i n"
    using wins net_invD(6) [OF inv n] by simp
  then show ?thesis using g by (simp add: leads_alone_def)
next
  case False
  have "currentTerm n = 0 \<or> currentTerm n \<in> fst ` set (rn_wins s)"
    using net_invD(4) [OF inv g(1) nth_mem [OF g(2)]] g(3) by simp
  then show ?thesis
    using False wins single by auto
qed

lemma other_leader_within:
  assumes inv: "net_inv s" and single: "distinct (0 # map fst (rn_wins s @ ws))" and won: "(currentTerm n, i) \<in> set (rn_wins s @ ws)"
    and m: "rn_nodes s j = Some m" "state m = Leader" "j \<noteq> i" and l: "es \<in> net_logs s" "le_Term x = currentTerm n"
    and k: "k < length (es @ [x])" "le_Term ((es @ [x]) ! k) = currentTerm m"
  shows "k < length (entries (RaftNode.log m))"
proof -
  have old: "leads_alone s j m"
    using net_invD(6) [OF inv m(1,2)] .
  have "currentTerm m \<noteq> currentTerm n"
  proof
    assume eq: "currentTerm m = currentTerm n"
    have "(currentTerm m, j) \<in> set (rn_wins s @ ws)" "(currentTerm m, i) \<in> set (rn_wins s @ ws)"
      using old won eq by (simp_all add: leads_alone_def)
    then show False
      using single m(3) eq_key_imp_eq_value [of "rn_wins s @ ws" "currentTerm m" j i] by simp
  qed
  then have "k < length es" "le_Term (es ! k) = currentTerm m"
    using k l(2) by (auto simp: nth_append less_Suc_eq split: if_splits)
  then show ?thesis
    using old l(1) by (simp add: leads_alone_def)
qed

lemma net_inv_new_entry:
  assumes inv: "net_inv s" and n: "rn_nodes s i = Some n" and ok: "node_inv n'" and grow: "grows_log n n'"
    and wins: "state n = Leader \<and> ws = [] \<or> ws = [(currentTerm n, i)]"
    and single: "distinct (0 # map fst (rn_wins s @ ws))"
  shows "net_inv (put_node i n' ws s)" (is "net_inv ?s")
proof -
  let ?l = "entries (RaftNode.log n)"
  obtain x where x: "le_Term x = currentTerm n" "entries (RaftNode.log n') = ?l @ [x]"
      and n': "state n' = Leader" "currentTerm n' = currentTerm n"
    using grow by (auto simp: grows_log_def)
  have l: "?l \<in> net_logs s" by (rule node_log [OF n])
  have won: "(currentTerm n, i) \<in> set (rn_wins s @ ws)"
    using wins net_invD(6) [OF inv n] by (auto simp: leads_alone_def)
  note own = own_term_within [OF inv n wins single]
  have logs: "g = ?l @ [x] \<or> g \<in> net_logs s" if "g \<in> net_logs ?s" for g
    using net_logs_put [OF that] x(2) by simp
  have new: "matching (?l @ [x]) g" if g: "g \<in> net_logs s" for g
    using own [OF g] x(1) by (intro matching_snoc net_invD(3) [OF inv l g]) auto
  have "leads_alone ?s j m" if m: "rn_nodes ?s j = Some m" "state m = Leader" for j m
  proof (cases "j = i")
    case True
    have "k < length (?l @ [x])" if g: "g \<in> net_logs ?s" "k < length g" "le_Term (g ! k) = currentTerm n" for g k
      using logs [OF g(1)] own [of g k] g(2,3) by auto
    then show ?thesis
      using True m won n' x(2) by (simp add: leads_alone_def)
  next
    case False
    then have m': "rn_nodes s j = Some m" using m by simp
    show ?thesis
    proof (rule leads_alone_mono [OF net_invD(6) [OF inv m' m(2)]])
      fix g k assume g: "g \<in> net_logs ?s" "g \<notin> net_logs s" "k < length g" "le_Term (g ! k) = currentTerm m"
      then show "k < length (entries (RaftNode.log m))"
        using logs other_leader_within [OF inv single won m' m(2) False l x(1), of k] by blast
    qed simp
  qed
  moreover have "g \<noteq> [] \<and> g ! 0 = sentinel" if "g \<in> net_logs ?s" for g
    using logs [OF that] net_invD(2) [OF inv] l by (auto simp: nth_append)
  moreover have "le_Term y = 0 \<or> le_Term y \<in> fst ` set (rn_wins ?s)" if "g \<in> net_logs ?s" "y \<in> set g" for g y
    using logs [OF that(1)] that(2) net_invD(4) [OF inv] l won x(1) by force
  moreover have "matching g h" if "g \<in> net_logs ?s" "h \<in> net_logs ?s" for g h
    using logs [OF that(1)] logs [OF that(2)] new matching_refl matching_sym [OF new] net_invD(3) [OF inv] by blast
  ultimately show ?thesis
    using ok net_invD(1,5) [OF inv] by (intro net_invI) auto
qed

lemma net_inv_local:
  assumes inv: "net_inv s" and n: "rn_nodes s i = Some n" and st: "step e ev n = Some n'" "event_ok ev n" "was_sent s ev"
    and single: "distinct (0 # map fst (rn_wins s @ new_wins i ev n'))"
  shows "net_inv (put_node i n' (new_wins i ev n') s)"
proof -
  have ok: "node_inv n" "node_inv n'"
    using net_invD(1) [OF inv n] step_inv [of n ev e] st by auto
  consider (keep) "keeps_log n n'" | (merge) req where "ev = EvAppend req" "merges_log req n n'"
    | (grow) "grows_log n n'" "state n = Leader \<and> new_wins i ev n' = [] \<or> new_wins i ev n' = [(currentTerm n, i)]"
    using step_log [OF st(1) ok(1) st(2)] by blast
  then show ?thesis
  proof cases
    case keep
    then show ?thesis
      using node_log [OF n] by (intro net_inv_old_log [OF inv n ok(2)]) (auto simp: keeps_log_def)
  next
    case merge
    let ?k = "unat (aq_PrevLogIndex req)"
    obtain g where g: "(req, g) \<in> set (rn_sent s)"
      using st(3) merge(1) by auto
    then have cut: "cut_from req g" and match: "matching (entries (RaftNode.log n)) g"
      using net_invD(3,5) [OF inv] node_log [OF n] sent_log [OF g] by auto
    have "le_Term (entries (RaftNode.log n) ! ?k) = le_Term (g ! ?k)"
    proof (cases "?k = 0")
      case True
      then show ?thesis
        using net_invD(2) [OF inv] node_log [OF n] sent_log [OF g] by simp
    qed (use merge(2) cut in \<open>simp add: merges_log_def prev_match_def cut_from_def u64_less_iff\<close>)
    then have "entries (RaftNode.log n') \<in> {entries (RaftNode.log n), g}"
      using merge_at_matching [OF match] merge(2) cut by (simp add: merges_log_def prev_match_def cut_from_def)
    then have "entries (RaftNode.log n') \<in> net_logs s"
      using node_log [OF n] sent_log [OF g] by auto
    then show ?thesis
      using merge(2) by (intro net_inv_old_log [OF inv n ok(2)]) (auto simp: merges_log_def)
  next
    case grow
    then show ?thesis
      using net_inv_new_entry [OF inv n ok(2)] single by blast
  qed
qed

lemma net_inv_send:
  assumes inv: "net_inv s" and n: "rn_nodes s i = Some n" and req: "replicateTo_begin p n = Some (Some req)"
  shows "net_inv (s\<lparr>rn_sent := rn_sent s @ [(req, entries (RaftNode.log n))]\<rparr>)" (is "net_inv ?s")
proof -
  have ok: "node_log_ok n" "log_ok (RaftNode.log n)"
    using net_invD(1) [OF inv n] by (auto simp: node_inv_def node_log_ok_def)
  obtain k where "k < length (entries (RaftNode.log n))" "aq_PrevLogIndex req = word_of_nat k"
      "aq_PrevLogTerm req = le_Term (entries (RaftNode.log n) ! k)" "aq_Entries req = drop (Suc k) (entries (RaftNode.log n))"
    by (rule replicateTo_begin_cases [OF req ok(1)])
  then have cut: "cut_from req (entries (RaftNode.log n))"
    using log_ok_length [OF ok(2)] by (simp add: cut_from_def)
  have logs: "net_logs ?s = net_logs s"
    using node_log [OF n] by (auto simp: net_logs_def)
  show ?thesis
    using net_invD [OF inv] cut by (intro net_invI) (auto simp: logs leads_alone_def)
qed

lemma net_inv_crash:
  assumes inv: "net_inv s" and n: "rn_nodes s i = Some n" and re: "restarts n n'"
  shows "net_inv (s\<lparr>rn_nodes := (rn_nodes s)(i \<mapsto> n')\<rparr>)"
proof -
  note restarts_durable [OF re net_invD(1) [OF inv n]]
  then show ?thesis
    using net_inv_old_log [OF inv n, of n' "[]"] node_log [OF n] by (simp add: put_node_def)
qed

lemma single_winners_back: "net_trans s s' \<Longrightarrow> single_winners s' \<Longrightarrow> single_winners s"
  by (erule net_transE) (auto simp: single_winners_def)

lemma net_inv_step: "net_trans s s' \<Longrightarrow> net_inv s \<Longrightarrow> single_winners s' \<Longrightarrow> net_inv s'"
  by (erule net_transE) (auto simp: single_winners_def put_node_def [symmetric] intro: net_inv_local net_inv_send net_inv_crash)

lemma net_inv_fresh: "fresh_net s \<Longrightarrow> net_inv s"
  by (intro net_invI) (auto simp: fresh_net_def net_logs_def matching_refl sentinel_def dest!: ranI [of "rn_nodes s"])

lemma net_inv_run: "net_trans\<^sup>*\<^sup>* s0 s \<Longrightarrow> fresh_net s0 \<Longrightarrow> single_winners s \<Longrightarrow> net_inv s"
  by (induction rule: rtranclp_induct) (auto intro: net_inv_fresh net_inv_step dest: single_winners_back)

section \<open>Log matching\<close>


text \<open>A run of two nodes: one is elected, sends its no-op, and the other takes it over.\<close>

lemma sample_pair:
  assumes "i \<noteq> j" and "id_fits i"
  obtains n where "node_inv n" and "currentTerm n = 0" and "state n = Follower" and "RaftNode.log n = NewRaftLog" and "started n"
    and "peers n = [(j, \<lparr>p_ID = j, NextIndex = 0, MatchIndex = 0\<rparr>)]"
proof -
  obtain n where n: "boot i [j] [] = Some n" "started n" "node_durable n" "node_id n = i" "currentTerm n = 0" "state n = Follower"
      "RaftNode.log n = NewRaftLog\<lparr>entries := [sentinel]\<rparr>" "config n = sample_cfg i [j]" "peers n = build_peers (Peers (sample_cfg i [j])) []"
    by (rule boot_eq [of "[]" 0 "''''" "[]" i "[j]"]) (auto simp: replay_all_def)
  then have log: "RaftNode.log n = NewRaftLog"
    by (simp add: NewRaftLog_def)
  then have "node_log_ok n"
    using n(5) by (simp add: node_log_ok_def LastTerm_def NewRaftLog_def sentinel_def log_ok_def)
  then have "node_inv n"
    using n assms by (simp add: node_inv_def peers_ok_def sample_cfg_def DefaultConfig_def)
  then show thesis
    using n log by (intro that [of n]) (simp_all add: sample_cfg_def DefaultConfig_def)
qed


end
