(* ===== verification/Raft_Isolation.thy ===== *)
theory Raft_Isolation
  imports Raft_Matching
begin

text \<open>
  A node that no append message reaches, in either direction. Whatever else happens to it (timers,
  votes, elections, proposals, applying), it commits nothing beyond the log it had when it was cut
  off, and no proposal made since is acknowledged.
\<close>

section \<open>The invariant\<close>

fun local_event :: "event \<Rightarrow> bool" where
  "local_event (EvAppend req) = False"
| "local_event (EvAppendResponse p req resp) = False"
| "local_event _ = True"

text \<open>
  \<open>L\<close> is the last index at the time of the cut and \<open>ch\<close> the first channel handed out since: nothing
  beyond \<open>L\<close> is known to be replicated or committed, proposals since then wait for later indexes and
  their channels have received no success. \<open>b\<close> bounds the length of the log.
\<close>

definition held_back :: "u64 \<Rightarrow> nat \<Rightarrow> nat \<Rightarrow> RaftNode \<Rightarrow> bool" where
  "held_back L ch b n \<longleftrightarrow> peers_ok n \<and> peers n \<noteq> [] \<and> contig 0 (entries (RaftNode.log n)) \<and>
     unat L < length (entries (RaftNode.log n)) \<and> length (entries (RaftNode.log n)) \<le> b \<and>
     commitIndex (RaftNode.log n) \<le> L \<and> (\<forall>p \<in> set (peers n). MatchIndex (snd p) \<le> L) \<and>
     ch \<le> next_ch n \<and> (\<forall>(c, r) \<in> set (results n). r = None \<longrightarrow> c < ch) \<and> (\<forall>(i, c) \<in> set (proposals n). ch \<le> c \<longrightarrow> L < i)"

lemma held_back_more: "held_back L ch b n \<Longrightarrow> b \<le> b' \<Longrightarrow> held_back L ch b' n"
  by (auto simp: held_back_def)

text \<open>The fields that matter here, unchanged.\<close>

definition same_commit :: "RaftNode \<Rightarrow> RaftNode \<Rightarrow> bool" where
  "same_commit n n' \<longleftrightarrow> node_id n' = node_id n \<and> peers n' = peers n \<and> entries (RaftNode.log n') = entries (RaftNode.log n) \<and>
     commitIndex (RaftNode.log n') = commitIndex (RaftNode.log n) \<and> next_ch n' = next_ch n \<and> results n' = results n \<and> proposals n' = proposals n"

lemma held_back_same: "same_commit n n' \<Longrightarrow> held_back L ch b n \<Longrightarrow> held_back L ch b n'"
  by (simp add: same_commit_def held_back_def peers_ok_def)

lemma same_commit_refl [simp]: "same_commit n n"
  by (simp add: same_commit_def)

section \<open>Every local step keeps it\<close>

lemma quorum_held_back:
  assumes "held_back L ch b n"
  shows "quorum_match n \<le> L"
proof (rule ccontr)
  assume "\<not> quorum_match n \<le> L"
  then have less: "L < quorum_match n" by simp
  have ok: "peers_ok n" "peers n \<noteq> []" "\<forall>p \<in> set (peers n). MatchIndex (snd p) \<le> L"
    using assms by (auto simp: held_back_def)
  have "node_quorum n (replicated_on (quorum_match n) n)"
    using quorum_match_iff [OF ok(1)] by blast
  moreover have "replicated_on (quorum_match n) n \<subseteq> {node_id n}"
    using ok(3) less by (auto simp: replicated_on_def)
  moreover have "2 \<le> quorum n"
    using ok(2) by (cases "peers n") (auto simp: quorum_def)
  ultimately show False
    using card_mono [of "{node_id n}" "replicated_on (quorum_match n) n"] by (simp add: node_quorum_def)
qed

lemma held_back_maybeCommit:
  assumes "maybeCommit n = Some n'" and "held_back L ch b n"
  shows "held_back L ch b n'"
proof -
  have "n' = (if can_commit n then spawn GoApply (n\<lparr>log := (RaftNode.log n)\<lparr>commitIndex := quorum_match n\<rparr>\<rparr>) else n)"
    using assms(1) by (simp add: maybeCommit_eq)
  then show ?thesis
    using assms(2) quorum_held_back [OF assms(2)] by (simp add: held_back_def peers_ok_def spawn_def)
qed

lemma LastIndex_above:
  assumes "held_back L ch b n" and "b < 2 ^ 64"
  shows "L < LastIndex (RaftNode.log n) + 1" and "LastIndex (RaftNode.log n) + 1 = word_of_nat (length (entries (RaftNode.log n)))"
proof -
  have es: "contig 0 (entries (RaftNode.log n))" "unat L < length (entries (RaftNode.log n))" "length (entries (RaftNode.log n)) < 2 ^ 64"
    using assms by (auto simp: held_back_def)
  then show eq: "LastIndex (RaftNode.log n) + 1 = word_of_nat (length (entries (RaftNode.log n)))"
    using contig_last [OF es(1)] by (cases "entries (RaftNode.log n)") (auto simp: LastIndex_def add.commute)
  show "L < LastIndex (RaftNode.log n) + 1"
    unfolding eq using es(2,3) by (simp add: u64_less_iff)
qed

lemma held_back_snoc:
  assumes "held_back L ch b n" and "b < 2 ^ 64" and "le_Index x = LastIndex (RaftNode.log n) + 1"
    and "entries (RaftNode.log n') = entries (RaftNode.log n) @ [x]" and "commitIndex (RaftNode.log n') = commitIndex (RaftNode.log n)"
    and "peers_ok n'" and "peers n' \<noteq> []" and "\<forall>p \<in> set (peers n'). MatchIndex (snd p) \<le> L"
    and "ch \<le> next_ch n'" and "results n' = results n" and "\<forall>(i, c) \<in> set (proposals n'). ch \<le> c \<longrightarrow> L < i"
  shows "held_back L ch (Suc b) n'"
  using assms LastIndex_above(2) [OF assms(1,2)] by (auto simp: held_back_def contig_append)

lemma held_back_lead:
  assumes "held_back L ch b n" and "b < 2 ^ 64"
  shows "held_back L ch (Suc b) (lead n)"
proof (rule held_back_snoc [OF assms, of "noop_entry n"])
  have "results (lead n) = results n" "proposals (lead n) = proposals n" "next_ch (lead n) = next_ch n"
    by (simp_all add: lead_def spawn_def)
  then show "results (lead n) = results n" "ch \<le> next_ch (lead n)" "\<forall>(i, c) \<in> set (proposals (lead n)). ch \<le> c \<longrightarrow> L < i"
    using assms(1) by (simp_all add: held_back_def)
  show "peers_ok (lead n)" "peers (lead n) \<noteq> []" "\<forall>p \<in> set (peers (lead n)). MatchIndex (snd p) \<le> L"
    using assms(1) by (auto simp: held_back_def peers_ok_def comp_def case_prod_beta image_image reset_peer_def)
qed (simp_all add: noop_entry_def)

lemma held_back_Propose:
  assumes "held_back L ch b n" and "b < 2 ^ 64"
  shows "held_back L ch (Suc b) (fst (Propose d n))"
    and "snd (Propose d n) = Inr (i, tm, c) \<Longrightarrow> ch \<le> c"
proof -
  show "ch \<le> c" if "snd (Propose d n) = Inr (i, tm, c)"
    using that assms(1) by (auto simp: Propose_def Append_def Let_def held_back_def split: if_splits prod.splits option.splits)
  have new: "\<forall>(i, c) \<in> set (AList.update (LastIndex (RaftNode.log n) + 1) (next_ch n) (proposals n)). ch \<le> c \<longrightarrow> L < i"
    using assms(1) LastIndex_above(1) [OF assms] by (auto simp: held_back_def dest!: update_member)
  show "held_back L ch (Suc b) (fst (Propose d n))"
  proof (cases "same_commit n (fst (Propose d n))")
    case True
    then show ?thesis using held_back_same held_back_more [OF assms(1), of "Suc b"] by simp
  next
    case False
    let ?x = "\<lparr>le_Index = LastIndex (RaftNode.log n) + 1, le_Term = currentTerm n, le_Type = EntryNormal, le_Data = d\<rparr>"
    have "entries (RaftNode.log (fst (Propose d n))) = entries (RaftNode.log n) @ [?x]" "results (fst (Propose d n)) = results n"
        "proposals (fst (Propose d n)) = AList.update (LastIndex (RaftNode.log n) + 1) (next_ch n) (proposals n)"
        "next_ch (fst (Propose d n)) = Suc (next_ch n)" "peers (fst (Propose d n)) = peers n" "node_id (fst (Propose d n)) = node_id n"
        "commitIndex (RaftNode.log (fst (Propose d n))) = commitIndex (RaftNode.log n)"
      using False by (auto simp: Propose_def same_commit_def Append_def spawn_def Let_def split: if_splits prod.splits option.splits)
    then show ?thesis
      using new assms(1) by (intro held_back_snoc [OF assms, of ?x]) (auto simp: held_back_def peers_ok_def)
  qed
qed

lemma held_back_mark:
  assumes "held_back L ch b n" and "le_Index x \<le> commitIndex (RaftNode.log n)"
  shows "held_back L ch b (apply_mark x n)"
proof -
  have "c < ch" if "map_of (proposals n) (le_Index x) = Some c" for c
  proof (rule ccontr)
    assume "\<not> c < ch"
    then have "L < le_Index x"
      using assms(1) map_of_SomeD [OF that] by (auto simp: held_back_def)
    then show False
      using assms by (auto simp: held_back_def)
  qed
  then show ?thesis
    using assms(1) by (auto simp: apply_mark_def notifyProposal_def held_back_def peers_ok_def SetLastApplied_def AList.delete_eq split: option.split)
qed

lemma same_commit_step:
  assumes "step e ev n = Some n'" and "local_event ev" and "\<nexists>c. ev = EvCampaignWon c" and "\<nexists>d. ev = EvPropose d" and "ev \<noteq> EvHeartbeats"
    and "\<nexists>x. ev = EvApplyMark x"
  shows "same_commit n n'"
  using assms
  by (cases ev) (auto simp: same_commit_def handleRequestVote_def campaign_start_def becomeCandidate_eq campaign_recv_def campaign_lost_def
      becomeFollower_eq run_election_fired_def run_timing_update_def apply_send_def timer_fire_def run_heartbeat_tick_def UpdateTimings_def
      resetElectionTimer_eq rearm_def cast_vote_def spawn_def bind_eq_Some_conv Let_def split: if_splits option.splits list.splits)

lemma held_back_step:
  assumes "step e ev n = Some n'" and "local_event ev" and "event_ok ev n" and "held_back L ch b n" and "b < 2 ^ 64"
  shows "held_back L ch (Suc b) n'"
proof -
  have more: "held_back L ch (Suc b) m" if "held_back L ch b m" for m
    using held_back_more [OF that] by simp
  consider (won) c where "ev = EvCampaignWon c" | (propose) d where "ev = EvPropose d" | (beat) "ev = EvHeartbeats"
    | (mark) x where "ev = EvApplyMark x" | (same) "same_commit n n'"
    using same_commit_step [OF assms(1,2)] by blast
  then show ?thesis
  proof cases
    case won
    show ?thesis
    proof (cases "cp_preVote c")
      case True
      then have "step e (EvCampaign False) n = Some n'"
        using assms(1) won by (simp add: campaign_won_def)
      then have "same_commit n n'"
        by (rule same_commit_step) simp_all
      then show ?thesis using more held_back_same assms(4) by blast
    next
      case False
      then have "n' = lead n"
        using assms(1) won by (auto simp: campaign_won_def becomeLeader_eq bind_eq_Some_conv split: if_splits)
      then show ?thesis using held_back_lead [OF assms(4,5)] by simp
    qed
  next
    case propose
    then show ?thesis using assms(1) held_back_Propose(1) [OF assms(4,5)] by auto
  next
    case beat
    obtain m where m: "maybeCommit n = Some m" "held_back L ch b m"
      using maybeCommit_total held_back_maybeCommit [OF _ assms(4)] by blast
    have spawn: "held_back L ch b (spawn t k)" if "held_back L ch b k" for t k
      using that by (simp add: held_back_def peers_ok_def spawn_def)
    have "held_back L ch b (fold (spawn \<circ> GoReplicate) ps k)" if "held_back L ch b k" for ps k
      using that by (induction ps arbitrary: k) (simp_all add: spawn)
    with m have "held_back L ch b (spawn GoApply (fold (spawn \<circ> GoReplicate) (map fst (peers m)) m))"
      by (blast intro: spawn)
    then show ?thesis
      using assms(1,4) beat more m(1) by (cases "state n = Leader") (auto simp: maybeSendHeartbeats_def)
  next
    case mark
    then show ?thesis using assms(1,3) more held_back_mark [OF assms(4)] by auto
  next
    case same
    then show ?thesis using more held_back_same assms(4) by blast
  qed
qed

text \<open>Waiting on a channel handed out since the cut never ends with success.\<close>

lemma held_back_wait: "held_back L ch b n \<Longrightarrow> ch \<le> c \<Longrightarrow> None \<notin> set (Propose_wait c n)"
  by (auto simp: held_back_def Propose_wait_def)

end
