(* ===== verification/Scenario_Torn.thy ===== *)
theory Scenario_Torn
  imports Scenario_Cluster Raft_Isolation
begin

text \<open>
  The torn-write scenario, \<open>src/scenarios/torn_write.go\<close>: a cluster of one node elects itself and takes five
  writes, is stopped, a partial record is appended to its file, and a new process recovers it and
  elects itself. What the goroutines do while the script waits is a schedule, as in the other
  scenarios. The election timer of the new process expires once before its two seconds are over,
  and appending the partial record succeeds; the text of the result is left out.
\<close>

section \<open>From the stop to the verdict\<close>

definition torn_config :: "string \<Rightarrow> Config" where
  "torn_config dataDir = (DefaultConfig ''node1'')\<lparr>DataDir := dataDir, Peers := []\<rparr>"

text \<open>The campaign of a node without peers: pre-vote, election and leadership without a message.\<close>

definition self_elect :: "env \<Rightarrow> RaftNode \<Rightarrow> RaftNode option" where
  "self_elect e n = do {
     (n1, next) \<leftarrow> campaign_start e True n;
     (case next of
        CampWon c \<Rightarrow> do {
          (n2, next2) \<leftarrow> campaign_won e c n1;
          (case next2 of CampWon c2 \<Rightarrow> do { (n3, _) \<leftarrow> campaign_won e c2 n2; Some n3 } | _ \<Rightarrow> None) }
      | _ \<Rightarrow> None) }"

record torn_result =
  tr_committed :: u64
  tr_recovered :: u64
  tr_Passed :: bool
  tr_truncated :: bool
  tr_node :: RaftNode

definition TornWrite_Run :: "string \<Rightarrow> env \<Rightarrow> RaftNode \<Rightarrow> torn_result result option" where
  "TornWrite_Run dataDir e node =
     (let goodCommit = ns_CommitIndex (Status node);
          file = w_file (wal (Stop node)) @ torn_tail in
      case NewRaftNode (torn_config dataDir) True file of
        None \<Rightarrow> None
      | Some (Inl err) \<Rightarrow> Some (Inl (''recovery failed: '' @ err))
      | Some (Inr recovered) \<Rightarrow> do {
          r1 \<leftarrow> Start e recovered;
          r2 \<leftarrow> self_elect e r1;
          let recoveredLogIndex = ns_LogIndex (Status r2);
          Some (Inr \<lparr>tr_committed = goodCommit, tr_recovered = recoveredLogIndex, tr_Passed = (recoveredLogIndex \<ge> goodCommit),
            tr_truncated = (recoveredLogIndex = goodCommit), tr_node = Stop r2\<rparr>) })"

section \<open>Recovery from a file with a torn tail\<close>

lemma read_torn_tail: "read_records \<lparr>rest = torn_tail, at_end = AtEOF\<rparr> acc = Some (acc, None)"
  by (subst read_records.simps) (simp add: torn_tail_def ReadFull_def)

lemma NewRaftNode_torn:
  assumes "node_durable n" and "node_log_ok n"
  obtains m where "NewRaftNode cfg True (w_file (wal (Stop n)) @ torn_tail) = Some (Inr m)" and "currentTerm m = currentTerm n"
    and "votedFor m = votedFor n" and "state m = Follower" and "entries (RaftNode.log m) = entries (RaftNode.log n)"
    and "config m = cfg" and "peers m = build_peers (Peers cfg) []" and "node_id m = NodeID cfg"
proof -
  obtain rs where rs: "wal_holds (wal n) rs" "replay_all rs = (currentTerm n, votedFor n, tl (entries (RaftNode.log n)))"
    using assms(1) by (auto simp: node_durable_def wal_durable_def)
  have content: "w_file (wal (Stop n)) = frames rs" and ok: "list_all rec_ok rs"
    using rs(1) by (auto simp: wal_holds_def wal_good_def Stop_def Close_def Flush_def)
  obtain w where w: "Open True (frames rs @ torn_tail) = Inr w"
    by (simp add: Open_def)
  have read: "ReadAll w = Some ((replay_all rs, None), w\<lparr>w_offset := length (frames rs @ torn_tail)\<rparr>)"
    using ReadAll_Open [OF w] read_frames [OF ok, of torn_tail AtEOF "(0, '''', [])"] by (simp add: read_torn_tail replay_all_def)
  have "entries (RaftNode.log n) = sentinel # tl (entries (RaftNode.log n))"
    using assms(2) by (metis hd_Cons_tl log_ok_nonempty node_log_ok_def)
  then have "(if tl (entries (RaftNode.log n)) = [] then Inr NewRaftLog else Append (tl (entries (RaftNode.log n))) NewRaftLog) =
      Inr (NewRaftLog\<lparr>entries := entries (RaftNode.log n)\<rparr>)"
    by (auto simp: Append_def NewRaftLog_def)
  then obtain m where m: "NewRaftNode cfg True (w_file (wal (Stop n)) @ torn_tail) = Some (Inr m)" "currentTerm m = currentTerm n"
      "votedFor m = votedFor n" "state m = Follower" "entries (RaftNode.log m) = entries (RaftNode.log n)"
    using w read rs(2) by (simp add: NewRaftNode_def content)
  show thesis
    using m NewRaftNode_config [OF m(1)] by (intro that [of m]) simp_all
qed

lemma self_elect_alone:
  assumes "started n" and "state n = Follower" and "peers n = []"
  shows "self_elect e n = Some (lead (stand e (n\<lparr>state := PreCandidate\<rparr>)))"
proof -
  have "started (n\<lparr>state := PreCandidate\<rparr>)" "electionTimer (stand e (n\<lparr>state := PreCandidate\<rparr>)) \<noteq> None"
    using assms(1) by (simp_all add: started_def stand_def rearm_def)
  then show ?thesis
    using assms by (simp add: self_elect_def campaign_start_def campaign_won_def becomeCandidate_eq becomeLeader_eq Let_def)
qed

section \<open>The writes before the stop\<close>

text \<open>
  What the goroutines of the only node do while the script waits. Messages cannot arrive, and an act that is
  not possible changes nothing.
\<close>

fun node_acts :: "(env \<times> event) list \<Rightarrow> RaftNode \<Rightarrow> RaftNode option" where
  "node_acts [] n = Some n"
| "node_acts ((e, ev) # as) n =
     (if local_event ev \<and> event_ok ev n then do { n' \<leftarrow> step e ev n; node_acts as n' } else node_acts as n)"

fun self_wait :: "(env \<times> event) list list \<Rightarrow> RaftNode \<Rightarrow> RaftNode option" where
  "self_wait [] n = Some n"
| "self_wait (as # polls) n = (if IsLeader n then Some n else do { n1 \<leftarrow> node_acts as n; self_wait polls n1 })"

text \<open>\<open>ProposeWithTimeout\<close> on this node; \<open>late\<close> says that the timer is taken although an answer is there.\<close>

definition propose_timed :: "byte list \<Rightarrow> (env \<times> event) list \<times> bool \<Rightarrow> RaftNode \<Rightarrow> (error option \<times> RaftNode) option" where
  "propose_timed data sched n = do {
     let timed_out = Some ''propose timeout after 500ms'';
     let (n1, r) = Propose data n;
     n2 \<leftarrow> node_acts (fst sched) n1;
     Some (if snd sched then timed_out
           else (case r of
                   Inl err \<Rightarrow> Some err
                 | Inr (index, tm, ch) \<Rightarrow> (case Propose_wait ch n2 of [] \<Rightarrow> timed_out | err # _ \<Rightarrow> err)), n2) }"

fun good_writes :: "int \<Rightarrow> ((env \<times> event) list \<times> bool) list \<Rightarrow> RaftNode \<Rightarrow> RaftNode result option" where
  "good_writes i [] n = Some (Inr n)"
| "good_writes i (sc # scs) n = do {
     (err, n1) \<leftarrow> propose_timed (bytes_of_string (''good-'' @ itoa i)) sc n;
     (case err of
        Some e \<Rightarrow> Some (Inl (''write '' @ itoa i @ '' failed: '' @ e))
      | None \<Rightarrow> good_writes (i + 1) scs n1) }"

text \<open>
  The whole script. \<open>mkdir\<close> is the error of creating the directory, \<open>contents\<close> what its file holds, \<open>e\<close> the
  environment at the starts; the rest is the schedule of the waits.
\<close>

record torn_sched =
  ts_polls :: "(env \<times> event) list list"
  ts_write :: "int \<Rightarrow> (env \<times> event) list \<times> bool"

definition TornWrite_script :: "error option \<Rightarrow> string \<Rightarrow> byte list \<Rightarrow> env \<Rightarrow> torn_sched \<Rightarrow> torn_result result option" where
  "TornWrite_script mkdir dataDir contents e sch =
     (case mkdir of
        Some err \<Rightarrow> Some (Inl err)
      | None \<Rightarrow>
          (case NewRaftNode (torn_config dataDir) True contents of
             None \<Rightarrow> None
           | Some (Inl err) \<Rightarrow> Some (Inl err)
           | Some (Inr node) \<Rightarrow> do {
               n1 \<leftarrow> Start e node;
               n2 \<leftarrow> self_wait (ts_polls sch) n1;
               if \<not> IsLeader n2 then Some (Inl ''single node did not elect itself as a leader'')
               else do {
                 r \<leftarrow> good_writes 1 (map (ts_write sch) [1..5]) n2;
                 (case r of Inl err \<Rightarrow> Some (Inl err) | Inr n3 \<Rightarrow> TornWrite_Run dataDir e n3) } }))"

section \<open>Safety of the writes\<close>

definition bounded :: "nat \<Rightarrow> RaftNode \<Rightarrow> bool" where
  "bounded b n \<longleftrightarrow> node_inv n \<and> length (entries (RaftNode.log n)) \<le> b"

lemma node_acts_bounded:
  "bounded b n \<Longrightarrow> \<exists>n'. node_acts as n = Some n' \<and> bounded (b + length as) n'"
proof (induction as arbitrary: b n)
  case (Cons a as)
  obtain e ev where a: "a = (e, ev)" by (cases a)
  show ?case
  proof (cases "local_event ev \<and> event_ok ev n")
    case True
    obtain n1 where n1: "step e ev n = Some n1" "node_inv n1"
      using step_inv [of n ev e] True Cons.prems by (auto simp: bounded_def)
    have "\<And>req. ev \<noteq> EvAppend req"
      using True by auto
    then have "bounded (Suc b) n1"
      using step_log_local [OF n1(1)] n1(2) Cons.prems by (fastforce simp: bounded_def keeps_log_def grows_log_def)
    from Cons.IH [OF this] show ?thesis
      using True n1(1) by (simp add: a)
  next
    case False
    have "bounded (Suc b) n"
      using Cons.prems by (simp add: bounded_def)
    from Cons.IH [OF this] show ?thesis
      using False by (auto simp: a)
  qed
qed simp

lemma self_wait_bounded:
  "bounded b n \<Longrightarrow> \<exists>n'. self_wait polls n = Some n' \<and> bounded (b + length (concat polls)) n'"
proof (induction polls arbitrary: b n)
  case (Cons as polls)
  show ?case
  proof (cases "IsLeader n")
    case False
    obtain n1 where n1: "node_acts as n = Some n1" "bounded (b + length as) n1"
      using node_acts_bounded [OF Cons.prems] by blast
    from Cons.IH [OF n1(2)] show ?thesis
      using False n1(1) by (simp add: add.assoc)
  qed (use Cons.prems in \<open>simp add: bounded_def\<close>)
qed simp

lemma propose_timed_bounded:
  assumes "bounded b n" and "b < 2 ^ 63" and "length data < 2 ^ 32 - 22"
  shows "\<exists>err n'. propose_timed data sc n = Some (err, n') \<and> bounded (Suc (b + length (fst sc))) n'"
proof -
  have ok: "event_ok (EvPropose data) n" and local_: "\<And>req. EvPropose data \<noteq> EvAppend req"
    using assms by (auto simp: bounded_def)
  obtain n1 where n1: "step undefined (EvPropose data) n = Some n1" "node_inv n1"
    using step_inv [of n "EvPropose data" undefined] ok assms(1) by (auto simp: bounded_def)
  have "bounded (Suc b) n1"
    using step_log_local [OF n1(1) local_] n1(2) assms(1) by (fastforce simp: bounded_def keeps_log_def grows_log_def)
  from node_acts_bounded [OF this, of "fst sc"] n1(1) show ?thesis
    by (cases "Propose data n") (auto simp: propose_timed_def Let_def)
qed

lemma length_decimal: "length (decimal k) \<le> Suc k"
proof (induction k rule: decimal.induct)
  case (1 k)
  show ?case
  proof (cases "k < 10")
    case False
    then have "Suc (k div 10) < k" by linarith
    with 1 False show ?thesis by (subst decimal.simps) simp
  qed (subst decimal.simps, simp)
qed

lemma length_good: "0 \<le> i \<Longrightarrow> i < 2 ^ 31 \<Longrightarrow> length (bytes_of_string (''good-'' @ itoa i)) < 2 ^ 32 - 22"
  using length_decimal [of "nat i"] by (simp add: bytes_of_string_def itoa_def)

lemma good_writes_bounded:
  assumes "bounded b n" and "0 \<le> i" and "i + int (length scs) < 2 ^ 31" and "b + length scs + length (concat (map fst scs)) < 2 ^ 63"
  shows "\<exists>r. good_writes i scs n = Some r \<and> (\<forall>n'. r = Inr n' \<longrightarrow> node_inv n')"
  using assms
proof (induction scs arbitrary: i b n)
  case Nil
  then show ?case by (simp add: bounded_def)
next
  case (Cons sc scs)
  have "b < 2 ^ 63" and "length (bytes_of_string (''good-'' @ itoa i)) < 2 ^ 32 - 22"
    using Cons.prems length_good [of i] by simp_all
  then obtain err n1 where n1: "propose_timed (bytes_of_string (''good-'' @ itoa i)) sc n = Some (err, n1)" "bounded (Suc (b + length (fst sc))) n1"
    using propose_timed_bounded [OF Cons.prems(1)] by blast
  have "\<exists>r. good_writes (i + 1) scs n1 = Some r \<and> (\<forall>n'. r = Inr n' \<longrightarrow> node_inv n')"
    using Cons.prems by (intro Cons.IH [OF n1(2)]) simp_all
  then show ?case
    using n1(1) by (auto split: option.split)
qed

section \<open>A schedule that completes\<close>

text \<open>The only node of its cluster as leader; answers wait only on channels already handed out.\<close>

definition lone :: "RaftNode \<Rightarrow> bool" where
  "lone n \<longleftrightarrow> node_inv n \<and> state n = Leader \<and> peers n = [] \<and> (\<forall>(c, r) \<in> set (results n). c < next_ch n)"

lemma lone_heartbeats:
  assumes "lone n" and "commitIndex (RaftNode.log n) < LastIndex (RaftNode.log n)"
    and "GetEntry (LastIndex (RaftNode.log n)) (RaftNode.log n) = Inr x" and "le_Term x = currentTerm n"
  shows "\<exists>n'. step e EvHeartbeats n = Some n' \<and> lone n' \<and> commitIndex (RaftNode.log n') = LastIndex (RaftNode.log n) \<and>
    entries (RaftNode.log n') = entries (RaftNode.log n) \<and> proposals n' = proposals n \<and> results n' = results n \<and> next_ch n' = next_ch n"
proof -
  obtain n' where n': "step e EvHeartbeats n = Some n'" "node_inv n'"
    using step_inv [of n EvHeartbeats e] assms(1) by (auto simp: lone_def)
  have "unat (LastIndex (RaftNode.log n)) < length (entries (RaftNode.log n))"
    using assms(3) by (simp add: GetEntry_Inr)
  then show ?thesis
    using n' assms
    by (auto simp: lone_def maybeSendHeartbeats_def maybeCommit_def quorum_def CommitIndex_def CommitTo_def spawn_def go_index_def Let_def
        split: if_splits)
qed

lemma propose_timed_ack:
  "Propose data n = (n1, Inr (i, tm, ch)) \<Longrightarrow> node_acts as n1 = Some n2 \<Longrightarrow> Propose_wait ch n2 = None # rs \<Longrightarrow>
   propose_timed data (as, False) n = Some (None, n2)"
  by (simp add: propose_timed_def)

lemma lone_write:
  assumes "lone n" and "length data < 2 ^ 32 - 22" and "length (entries (RaftNode.log n)) < 2 ^ 63"
  shows "\<exists>acts n'. propose_timed data (acts, False) n = Some (None, n') \<and> lone n' \<and>
    length (entries (RaftNode.log n')) = Suc (length (entries (RaftNode.log n))) \<and> length acts = 2"
proof -
  let ?l = "RaftNode.log n"
  have inv: "node_inv n" "node_durable n" "node_log_ok n" "log_ok ?l" "state n = Leader"
    using assms(1) by (auto simp: lone_def node_inv_def node_log_ok_def)
  let ?x = "\<lparr>le_Index = LastIndex ?l + 1, le_Term = currentTerm n, le_Type = EntryNormal, le_Data = data\<rparr>"
  obtain n1 where n1: "Propose data n = (n1, Inr (LastIndex ?l + 1, currentTerm n, next_ch n))" "entries (RaftNode.log n1) = entries ?l @ [?x]"
      "map_of (proposals n1) (LastIndex ?l + 1) = Some (next_ch n)"
    using Propose_durable [OF inv(2,3,5) assms(2)] by blast
  have frame: "state n1 = Leader" "peers n1 = []" "results n1 = results n" "next_ch n1 = Suc (next_ch n)" "currentTerm n1 = currentTerm n"
      "commitIndex (RaftNode.log n1) = commitIndex ?l"
    using n1(1) assms(1) by (auto simp: Propose_def Append_def lone_def spawn_def Let_def split: if_splits option.splits prod.splits sum.splits)
  have "node_inv n1"
    using step_inv [OF inv(1), of "EvPropose data" undefined] n1(1) assms(2,3) by simp
  then have lone1: "lone n1"
    using frame assms(1) by (auto simp: lone_def)
  have last1: "LastIndex (RaftNode.log n1) = LastIndex ?l + 1"
    by (simp add: LastIndex_def n1(2))
  have commit: "commitIndex (RaftNode.log n1) < LastIndex (RaftNode.log n1)"
    using inv(4) unfolding frame(6) last1 word_less_nat_alt unat_LastIndex_Suc [OF inv(4)] by (simp add: log_ok_def)
  have get: "GetEntry (LastIndex (RaftNode.log n1)) (RaftNode.log n1) = Inr ?x"
    unfolding last1 GetEntry_Inr unat_LastIndex_Suc [OF inv(4)] n1(2) by simp
  obtain n2 where n2: "step e EvHeartbeats n1 = Some n2" "lone n2" "commitIndex (RaftNode.log n2) = LastIndex ?l + 1"
      "entries (RaftNode.log n2) = entries (RaftNode.log n1)" "proposals n2 = proposals n1" "results n2 = results n" "next_ch n2 = Suc (next_ch n)"
    using lone_heartbeats [OF lone1 commit get] frame last1 by auto
  let ?n3 = "apply_mark ?x n2"
  have "event_ok (EvApplyMark ?x) n2"
    using n2(3) by simp
  then have "node_inv ?n3"
    using step_inv [of n2 "EvApplyMark ?x" e] n2(2) by (simp add: lone_def)
  moreover have "filter (\<lambda>(c, r). c = next_ch n) (results n) = []"
    using assms(1) by (fastforce simp: lone_def filter_empty_conv)
  ultimately have n3: "lone ?n3" "Propose_wait (next_ch n) ?n3 = None # drop 1 (Propose_wait (next_ch n) ?n3)"
      "length (entries (RaftNode.log ?n3)) = Suc (length (entries ?l))"
    using n2(2-7) n1(2,3) assms(1)
    by (auto simp: lone_def apply_mark_def notifyProposal_def SetLastApplied_def Propose_wait_def)
  have "node_acts [(e, EvHeartbeats), (e, EvApplyMark ?x)] n1 = Some ?n3"
    using n2(1,3) by simp
  then have "propose_timed data ([(e, EvHeartbeats), (e, EvApplyMark ?x)], False) n = Some (None, ?n3)"
    by (rule propose_timed_ack [OF n1(1) _ n3(2)])
  with n3(1,3) show ?thesis
    by (intro exI [of _ "[(e, EvHeartbeats), (e, EvApplyMark ?x)]"]) auto
qed

lemma lone_writes:
  "lone n \<Longrightarrow> 0 \<le> i \<Longrightarrow> i + int k < 2 ^ 31 \<Longrightarrow> length (entries (RaftNode.log n)) + k < 2 ^ 63 \<Longrightarrow>
   \<exists>f n'. good_writes i (map f [i..i + int k - 1]) n = Some (Inr n') \<and> (\<forall>j. length (fst (f j)) \<le> 2)"
proof (induction k arbitrary: i n)
  case 0
  then show ?case by (auto intro: exI [of _ "\<lambda>_. ([], False)"])
next
  case (Suc k)
  have "length (entries (RaftNode.log n)) < 2 ^ 63"
    using Suc.prems by simp
  then obtain as n1 where n1: "propose_timed (bytes_of_string (''good-'' @ itoa i)) (as, False) n = Some (None, n1)" "lone n1"
      "length (entries (RaftNode.log n1)) = Suc (length (entries (RaftNode.log n)))" "length as = 2"
    using lone_write [OF Suc.prems(1) length_good [of i]] Suc.prems by fastforce
  obtain f n' where f: "good_writes (i + 1) (map f [i + 1..i + 1 + int k - 1]) n1 = Some (Inr n')" "\<forall>j. length (fst (f j)) \<le> 2"
    using Suc.IH [OF n1(2), of "i + 1"] Suc.prems n1(3) by auto
  have "map (f(i := (as, False))) [i..i + int (Suc k) - 1] = (as, False) # map f [i + 1..i + 1 + int k - 1]"
    by (subst upto.simps) (auto intro: map_cong)
  then have "good_writes i (map (f(i := (as, False))) [i..i + int (Suc k) - 1]) n = Some (Inr n')"
    using n1(1) f(1) by simp
  moreover have "\<forall>j. length (fst ((f(i := (as, False))) j)) \<le> 2"
    using f(2) n1(4) by simp
  ultimately show ?case by blast
qed

lemma self_elect_acts:
  assumes "started n" and "state n = Follower" and "peers n = []" and "currentTerm n = 0" and "length (entries (RaftNode.log n)) < 2 ^ 63"
  shows "\<exists>as. node_acts as n = Some (lead (stand e (n\<lparr>state := PreCandidate\<rparr>))) \<and> length as = 3"
proof -
  let ?n1 = "n\<lparr>state := PreCandidate\<rparr>" and ?n2 = "stand e (n\<lparr>state := PreCandidate\<rparr>)"
  have "started ?n1" "electionTimer ?n2 \<noteq> None"
    using assms(1) by (simp_all add: started_def stand_def rearm_def)
  then obtain c c2 x where "campaign_start e True n = Some (?n1, CampWon c)" "campaign_won e c ?n1 = Some (?n2, CampWon c2)"
      "campaign_won e c2 ?n2 = Some (lead ?n2, x)"
    using assms by (simp add: campaign_start_def campaign_won_def becomeCandidate_eq becomeLeader_eq Let_def)
  moreover have "currentTerm ?n2 = 1" "length (entries (RaftNode.log ?n2)) < 2 ^ 63"
    using assms(4,5) by (simp_all add: stand_def rearm_def)
  ultimately have "node_acts [(e, EvCampaign True), (e, EvCampaignWon c), (e, EvCampaignWon c2)] n = Some (lead ?n2)"
    using assms(4,5) by simp
  then show ?thesis
    by (intro exI [of _ "[(e, EvCampaign True), (e, EvCampaignWon c), (e, EvCampaignWon c2)]"]) simp
qed

text \<open>The node on an empty directory.\<close>

lemma torn_fresh:
  obtains m n where "NewRaftNode (torn_config dataDir) True [] = Some (Inr m)" and "Start e m = Some n" and "bounded 1 n"
    and "state n = Follower" and "peers n = []" and "currentTerm n = 0" and "results n = []"
proof -
  let ?cfg = "torn_config dataDir"
  have cfg: "0 < ElectionTimeout ?cfg" "id_fits (NodeID ?cfg)" "distinct (map pc_ID (Peers ?cfg))" "NodeID ?cfg \<notin> pc_ID ` set (Peers ?cfg)"
      "Peers ?cfg = []"
    by (simp_all add: torn_config_def DefaultConfig_def Millisecond_def id_fits_def)
  obtain m n where m: "NewRaftNode ?cfg True [] = Some (Inr m)" "Start e m = Some n" "node_inv n" "state n = Follower" "currentTerm n = 0"
    using fresh_node [OF cfg(1-4)] by metis
  have "entries (RaftNode.log m) = [sentinel]" "results m = []" "peers m = []"
    using m(1) cfg(5)
    by (auto simp: NewRaftNode_def Open_def ReadAll_def file_stream_def read_records.simps ReadFull_def NewRaftLog_def Let_def split: if_splits)
  then show thesis
    using m by (intro that [of m n]) (auto simp: bounded_def Start_def resetElectionTimer_def bind_eq_Some_conv spawn_def Let_def split: if_splits option.splits)
qed

text \<open>Recovery after the torn record, for every node in its invariant.\<close>

lemma torn_run:
  assumes "node_inv n"
  shows "\<exists>r. TornWrite_Run dataDir e n = Some (Inr r) \<and> tr_Passed r \<and> \<not> tr_truncated r \<and>
    (\<exists>noop. entries (RaftNode.log (tr_node r)) = entries (RaftNode.log n) @ [noop] \<and> le_Data noop = [])"
proof -
  have inv: "node_durable n" "node_log_ok n" "log_ok (RaftNode.log n)"
    using assms by (auto simp: node_inv_def node_log_ok_def)
  obtain m where m: "NewRaftNode (torn_config dataDir) True (w_file (wal (Stop n)) @ torn_tail) = Some (Inr m)"
      "currentTerm m = currentTerm n" "state m = Follower" "entries (RaftNode.log m) = entries (RaftNode.log n)"
      "config m = torn_config dataDir" "peers m = build_peers (Peers (torn_config dataDir)) []"
    by (rule NewRaftNode_torn [OF inv(1,2)])
  have pos: "0 < ElectionTimeout (config m)" and alone: "peers m = []"
    by (simp_all add: m(5,6) torn_config_def DefaultConfig_def Millisecond_def)
  let ?r1 = "spawn GoRun (rearm e m)"
  let ?r2 = "lead (stand e (?r1\<lparr>state := PreCandidate\<rparr>))"
  have start: "Start e m = Some ?r1" "self_elect e ?r1 = Some ?r2"
    using pos alone m(3) by (auto simp: Start_eq started_def rearm_def spawn_def intro!: self_elect_alone)
  let ?L = "LastIndex (RaftNode.log n)"
  have same: "LastIndex (RaftNode.log m) = ?L"
    by (simp add: LastIndex_def m(4))
  then have log2: "entries (RaftNode.log ?r2) = entries (RaftNode.log n) @ [\<lparr>le_Index = ?L + 1, le_Term = currentTerm n + 1, le_Type = EntryNormal, le_Data = []\<rparr>]"
    by (simp add: m(2,4) noop_entry_def)
  then have idx: "ns_LogIndex (Status ?r2) = ?L + 1"
    by (simp add: Status_def LastIndex_def del: lead_simps)
  have "commitIndex (RaftNode.log n) \<le> ?L" "?L < ?L + 1"
    using inv(3) u64_less_Suc [OF LastIndex_not_max [OF inv(3)]]
    by (simp_all add: le_LastIndex_iff) (simp add: log_ok_def)
  then show ?thesis
    using m(1) start idx log2
    by (simp add: TornWrite_Run_def Let_def Status_def [of n] CommitIndex_def) (auto simp: Stop_def)
qed

lemma torn_completes: "\<exists>good r. TornWrite_script None dataDir [] e good = Some (Inr r)"
proof -
  obtain m n where m: "NewRaftNode (torn_config dataDir) True [] = Some (Inr m)" "Start e m = Some n" "bounded 1 n"
    and n: "state n = Follower" "peers n = []" "currentTerm n = 0" "results n = []"
    by (rule torn_fresh)
  let ?n2 = "lead (stand e (n\<lparr>state := PreCandidate\<rparr>))"
  have "started n" "length (entries (RaftNode.log n)) < 2 ^ 63"
    using m(3) by (simp_all add: bounded_def node_inv_def)
  then obtain as where as: "node_acts as n = Some ?n2" "length as = 3"
    using self_elect_acts [OF _ n(1-3), of e] by blast
  have "bounded 4 ?n2"
    using node_acts_bounded [OF m(3), of as] as by simp
  then have "lone ?n2" "length (entries (RaftNode.log ?n2)) + 5 < 2 ^ 63"
    using n(2,4) by (simp_all add: lone_def bounded_def) (simp_all add: lead_def spawn_def)
  then obtain f n3 where f: "good_writes 1 (map f [1..1 + int 5 - 1]) ?n2 = Some (Inr n3)" "\<forall>j. length (fst (f j)) \<le> 2"
    using lone_writes [of ?n2 1 5] by auto
  have "length (fst (f 1)) \<le> 2" "length (fst (f 2)) \<le> 2" "length (fst (f 3)) \<le> 2" "length (fst (f 4)) \<le> 2" "length (fst (f 5)) \<le> 2"
    using f(2) by simp_all
  then have "4 + length (map f [1..1 + int 5 - 1]) + length (concat (map fst (map f [1..1 + int 5 - 1]))) < 2 ^ 63"
    by (simp add: upto.simps)
  from good_writes_bounded [OF \<open>bounded 4 ?n2\<close> _ _ this, of 1] f(1) have "node_inv n3"
    by simp
  then obtain r where r: "TornWrite_Run dataDir e n3 = Some (Inr r)"
    using torn_run by blast
  have "self_wait [as] n = Some ?n2"
    using as(1) n(1) by (simp add: IsLeader_def)
  then have "TornWrite_script None dataDir [] e \<lparr>ts_polls = [as], ts_write = f\<rparr> = Some (Inr r)"
    using m(1,2) f(1) r by (simp add: TornWrite_script_def IsLeader_def)
  then show ?thesis by blast
qed

section \<open>The outcome\<close>



end
