(* ===== verification/Scenario_World.thy ===== *)
theory Scenario_World
  imports Scenario_Cluster Raft_Isolation
begin

text \<open>
  How a scenario script of \<open>src/scenarios\<close> and the cluster run side by side. A script calls into the
  cluster and waits; while it waits the goroutines of the nodes run. What they do is a schedule: a
  list of acts, each a locked region of a node or a stage of an append call. Schedules are arguments
  of the scripts, so a statement for all schedules is one for all timings. Votes and their answers
  appear in schedules as they are, which allows more than the code does.

  The theory holds \<open>ProposeWithTimeout\<close> of \<open>scenario.go\<close>, the loops that all scripts share, and the
  theorem on writes to an isolated leader.
\<close>

section \<open>The cluster while a script waits\<close>

text \<open>An append call that has passed the proxy, and its answer on the way back.\<close>

datatype rpc =
    CallAppend string string AppendEntriesRequest
  | AnswerAppend string string AppendEntriesRequest AppendEntriesResponse

record sim =
  sm_cluster :: Cluster
  sm_calls :: "rpc list"
  sm_now :: int

datatype act =
    ActWait int
  | ActNode string env event
  | ActSend string string call
  | ActHandle nat env
  | ActAnswer nat env

definition sim_node :: "string \<Rightarrow> sim \<Rightarrow> RaftNode option" where
  "sim_node i s = ci_nodes (cl_Injector (sm_cluster s)) i"

definition inject :: "(ChaosInjector \<Rightarrow> ChaosInjector) \<Rightarrow> sim \<Rightarrow> sim" where
  "inject f s = s\<lparr>sm_cluster := (sm_cluster s)\<lparr>cl_Injector := f (cl_Injector (sm_cluster s))\<rparr>\<rparr>"

definition put_sim :: "string \<Rightarrow> RaftNode \<Rightarrow> sim \<Rightarrow> sim" where
  "put_sim i n s = inject (\<lambda>c. c\<lparr>ci_nodes := (ci_nodes c)(i \<mapsto> n)\<rparr>) s"

definition remove_nth :: "nat \<Rightarrow> 'a list \<Rightarrow> 'a list" where
  "remove_nth k xs = take k xs @ drop (Suc k) xs"

text \<open>\<open>None\<close> is a panic; an act that is not possible in the state changes nothing.\<close>

fun act_step :: "act \<Rightarrow> sim \<Rightarrow> sim option" where
  "act_step (ActWait d) s = Some (s\<lparr>sm_now := sm_now s + d\<rparr>)"
| "act_step (ActNode i e ev) s =
     (case sim_node i s of
        None \<Rightarrow> Some s
      | Some n \<Rightarrow> if local_event ev \<and> event_ok ev n then map_option (\<lambda>n'. put_sim i n' s) (step e ev n) else Some s)"
| "act_step (ActSend i p c) s =
     (case sim_node i s of
        None \<Rightarrow> Some s
      | Some n \<Rightarrow>
          if p \<in> fst ` set (peers n) then
            (case replicateTo_begin p n of
               None \<Rightarrow> None
             | Some None \<Rightarrow> Some s
             | Some (Some req) \<Rightarrow>
                 (case applyProxy i c p (cluster_net (sm_cluster s)) of
                    Some err \<Rightarrow> Some s
                  | None \<Rightarrow> Some (s\<lparr>sm_calls := sm_calls s @ [CallAppend i p req]\<rparr>)))
          else Some s)"
| "act_step (ActHandle k e) s =
     (case go_index (sm_calls s) k of
        Some (CallAppend i p req) \<Rightarrow>
          (case registry_get p (cluster_net (sm_cluster s)) of
             None \<Rightarrow> Some (s\<lparr>sm_calls := remove_nth k (sm_calls s)\<rparr>)
           | Some peer \<Rightarrow> do {
               (n, resp) \<leftarrow> handleAppendEntries e req peer;
               Some ((put_sim p n s)\<lparr>sm_calls := (sm_calls s)[k := AnswerAppend i p req resp]\<rparr>) })
      | _ \<Rightarrow> Some s)"
| "act_step (ActAnswer k e) s =
     (case go_index (sm_calls s) k of
        Some (AnswerAppend i p req resp) \<Rightarrow>
          (case sim_node i s of
             None \<Rightarrow> Some s
           | Some n \<Rightarrow> do {
               n' \<leftarrow> replicateTo_finish e p req resp n;
               Some ((put_sim i n' s)\<lparr>sm_calls := remove_nth k (sm_calls s)\<rparr>) })
      | _ \<Rightarrow> Some s)"

fun run_acts :: "act list \<Rightarrow> sim \<Rightarrow> sim option" where
  "run_acts [] s = Some s"
| "run_acts (a # as) s = do { s' \<leftarrow> act_step a s; run_acts as s' }"

section \<open>Proposals with a timeout\<close>

text \<open>
  What happens until the \<open>select\<close> returns, and whether the timer is taken although an answer is there. The
  new goroutine calls \<open>Propose\<close> first; what runs before it belongs to the wait before the call.
\<close>

type_synonym sched = "act list \<times> bool"

definition ProposeWithTimeout :: "string \<Rightarrow> byte list \<Rightarrow> sched \<Rightarrow> string \<Rightarrow> sim \<Rightarrow> (error option \<times> sim) option" where
  "ProposeWithTimeout timeout data sched i s = do {
     n \<leftarrow> sim_node i s;
     let timed_out = Some (''propose timeout after '' @ timeout);
     let (n1, r) = Propose data n;
     s1 \<leftarrow> run_acts (fst sched) (put_sim i n1 s);
     (case r of
        Inl err \<Rightarrow> Some (if snd sched then timed_out else Some err, s1)
      | Inr (index, tm, ch) \<Rightarrow> do {
          n2 \<leftarrow> sim_node i s1;
          Some (if snd sched then timed_out else (case Propose_wait ch n2 of [] \<Rightarrow> timed_out | err # _ \<Rightarrow> err), s1) }) }"

section \<open>Loops of the scripts\<close>

text \<open>Writes that must succeed, numbered from \<open>i\<close>: the first error ends the loop.\<close>

fun write_all :: "string \<Rightarrow> string \<Rightarrow> (int \<Rightarrow> byte list) \<Rightarrow> int \<Rightarrow> sched list \<Rightarrow> sim \<Rightarrow> ((int \<times> error) option \<times> sim) option" where
  "write_all timeout leader payload i [] s = Some (None, s)"
| "write_all timeout leader payload i (sc # scs) s = do {
     (err, s1) \<leftarrow> ProposeWithTimeout timeout (payload i) sc leader s;
     (case err of
        Some e \<Rightarrow> Some (Some (i, e), s1)
      | None \<Rightarrow> write_all timeout leader payload (i + 1) scs s1) }"

text \<open>Writes of which the successful ones are counted.\<close>

fun count_writes :: "string \<Rightarrow> string \<Rightarrow> (int \<Rightarrow> byte list) \<Rightarrow> int \<Rightarrow> sched list \<Rightarrow> sim \<Rightarrow> (nat \<times> sim) option" where
  "count_writes timeout leader payload i [] s = Some (0, s)"
| "count_writes timeout leader payload i (sc # scs) s = do {
     (err, s1) \<leftarrow> ProposeWithTimeout timeout (payload i) sc leader s;
     (k, s2) \<leftarrow> count_writes timeout leader payload (i + 1) scs s1;
     Some (if err = None then Suc k else k, s2) }"

text \<open>\<open>WaitForLeader\<close>: each poll visits the nodes in some order and then sleeps.\<close>

definition visit :: "string list \<Rightarrow> sim \<Rightarrow> (string \<times> RaftNode) list" where
  "visit order s = concat (map (\<lambda>i. case sim_node i s of None \<Rightarrow> [] | Some n \<Rightarrow> [(i, n)]) order)"

fun wait_leader :: "string \<Rightarrow> (string list \<times> act list) list \<Rightarrow> sim \<Rightarrow> (string result \<times> sim) option" where
  "wait_leader timeout [] s = Some (WaitForLeader timeout [], s)"
| "wait_leader timeout ((order, acts) # polls) s =
     (case first_leader (visit order s) of
        Some i \<Rightarrow> Some (Inr i, s)
      | None \<Rightarrow> do { s1 \<leftarrow> run_acts acts s; wait_leader timeout polls s1 })"

definition observe :: "string \<Rightarrow> sim \<Rightarrow> sim" where
  "observe text s = inject (RecordObservation (sm_now s) (ObsText text)) s"

definition partition_node :: "string \<Rightarrow> sim \<Rightarrow> sim" where
  "partition_node i s = inject (\<lambda>c. snd (PartitionNode (sm_now s) i 0 c)) s"

definition heal_all :: "sim \<Rightarrow> sim" where
  "heal_all s = inject (Heal (sm_now s)) s"

section \<open>Frames\<close>

lemma sim_frame [simp]:
  "sim_node j (put_sim i n s) = (if j = i then Some n else sim_node j s)"
  "sm_calls (put_sim i n s) = sm_calls s" "sm_calls (inject f s) = sm_calls s"
  "ci_proxy (cl_Injector (sm_cluster (put_sim i n s))) = ci_proxy (cl_Injector (sm_cluster s))"
  "sim_node j (s\<lparr>sm_calls := cs\<rparr>) = sim_node j s" "sim_node j (s\<lparr>sm_now := t\<rparr>) = sim_node j s"
  "cl_NodeIDs (sm_cluster (put_sim i n s)) = cl_NodeIDs (sm_cluster s)"
  by (simp_all add: sim_node_def put_sim_def inject_def)

lemma sim_registered: "registry_get p (cluster_net (sm_cluster s)) = Some n \<Longrightarrow> sim_node p s = Some n"
  by (simp add: registry_get_def cluster_net_def sim_node_def split: if_splits)

text \<open>Calls that neither come from \<open>x\<close> nor go to it.\<close>

fun avoids :: "string \<Rightarrow> rpc \<Rightarrow> bool" where
  "avoids x (CallAppend i p req) = (i \<noteq> x \<and> p \<noteq> x)"
| "avoids x (AnswerAppend i p req resp) = (i \<noteq> x \<and> p \<noteq> x)"

definition isolated :: "string \<Rightarrow> u64 \<Rightarrow> nat \<Rightarrow> nat \<Rightarrow> sim \<Rightarrow> bool" where
  "isolated x L ch b s \<longleftrightarrow> list_all (avoids x) (sm_calls s) \<and>
     (\<forall>dr src dst. src = x \<or> dst = x \<longrightarrow> \<not> fst (ShouldDeliver dr src dst (ci_proxy (cl_Injector (sm_cluster s))))) \<and>
     (\<exists>n. sim_node x s = Some n \<and> held_back L ch b n)"

lemma isolated_more: "isolated x L ch b s \<Longrightarrow> b \<le> b' \<Longrightarrow> isolated x L ch b' s"
  by (auto simp: isolated_def intro: held_back_more)

lemma list_all_remove_nth: "list_all P xs \<Longrightarrow> list_all P (remove_nth k xs)"
  by (auto simp: remove_nth_def list_all_iff dest: in_set_takeD in_set_dropD)

lemma list_all_update: "list_all P xs \<Longrightarrow> P x \<Longrightarrow> list_all P (xs[k := x])"
  by (auto simp: list_all_iff dest: set_update_subset_insert [THEN subsetD])

lemma go_index_all: "go_index xs k = Some x \<Longrightarrow> list_all P xs \<Longrightarrow> P x"
  by (auto simp: go_index_def list_all_iff split: if_splits)

lemma isolated_put:
  assumes "isolated x L ch b s" and "i = x \<Longrightarrow> held_back L ch b' n" and "b \<le> b'"
  shows "isolated x L ch b' (put_sim i n s)"
  using assms by (auto simp: isolated_def intro: held_back_more)

lemma isolated_step:
  assumes "act_step a s = Some s'" and "isolated x L ch b s" and "b < 2 ^ 64"
  shows "isolated x L ch (Suc b) s'"
proof -
  obtain n where n: "sim_node x s = Some n" "held_back L ch b n"
    using assms(2) by (auto simp: isolated_def)
  have calls: "list_all (avoids x) (sm_calls s)"
    and cut: "\<And>dr src dst. src = x \<or> dst = x \<Longrightarrow> \<not> fst (ShouldDeliver dr src dst (ci_proxy (cl_Injector (sm_cluster s))))"
    using assms(2) by (auto simp: isolated_def)
  note more = isolated_more [OF assms(2), of "Suc b", simplified]
  show ?thesis
  proof (cases a)
    case (ActWait d)
    then show ?thesis using assms(1) more by (auto simp: isolated_def)
  next
    case (ActNode i e ev)
    have "held_back L ch (Suc b) n'" if "i = x" "step e ev m = Some n'" "sim_node i s = Some m" "local_event ev" "event_ok ev m" for m n'
      using that n held_back_step [OF that(2,4,5) _ assms(3)] by simp
    then show ?thesis
      using assms(1) ActNode more by (auto intro!: isolated_put [OF assms(2)] split: option.splits if_splits)
  next
    case (ActSend i p c)
    have "\<exists>err. applyProxy i c p (cluster_net (sm_cluster s)) = Some err" if "i = x \<or> p = x"
      using applyProxy_dropped [of c i p "cluster_net (sm_cluster s)"] cut [OF that] by (simp add: cluster_net_def)
    then have "i \<noteq> x \<and> p \<noteq> x" if "applyProxy i c p (cluster_net (sm_cluster s)) = None"
      using that by fastforce
    then show ?thesis
      using assms(1) ActSend more by (auto simp: isolated_def split: option.splits if_splits)
  next
    case (ActHandle k e)
    show ?thesis
    proof (cases "\<exists>i p req. go_index (sm_calls s) k = Some (CallAppend i p req)")
      case True
      then obtain i p req where call: "go_index (sm_calls s) k = Some (CallAppend i p req)" by blast
      then have ne: "i \<noteq> x" "p \<noteq> x"
        using go_index_all [OF call calls] by auto
      then show ?thesis
        using assms(1) ActHandle call more calls
        by (auto simp: isolated_def bind_eq_Some_conv intro!: list_all_remove_nth list_all_update split: option.splits)
    qed (use assms(1) ActHandle more in \<open>auto split: option.splits rpc.splits\<close>)
  next
    case (ActAnswer k e)
    show ?thesis
    proof (cases "\<exists>i p req r. go_index (sm_calls s) k = Some (AnswerAppend i p req r)")
      case True
      then obtain i p req r where call: "go_index (sm_calls s) k = Some (AnswerAppend i p req r)" by blast
      then have ne: "i \<noteq> x"
        using go_index_all [OF call calls] by auto
      then show ?thesis
        using assms(1) ActAnswer call more calls
        by (auto simp: isolated_def bind_eq_Some_conv intro!: list_all_remove_nth split: option.splits)
    qed (use assms(1) ActAnswer more in \<open>auto split: option.splits rpc.splits\<close>)
  qed
qed

lemma isolated_run:
  "run_acts as s = Some s' \<Longrightarrow> isolated x L ch b s \<Longrightarrow> b + length as < 2 ^ 64 \<Longrightarrow> isolated x L ch (b + length as) s'"
proof (induction as arbitrary: s b)
  case (Cons a as)
  then obtain s1 where s1: "act_step a s = Some s1" "run_acts as s1 = Some s'"
    by (auto simp: bind_eq_Some_conv)
  then show ?case
    using Cons.IH [OF s1(2) isolated_step [OF s1(1) Cons.prems(2)]] Cons.prems(3) by simp
qed simp

text \<open>A proposal to the isolated node is not acknowledged.\<close>

lemma isolated_propose:
  assumes "ProposeWithTimeout timeout d sc x s = Some (r, s')" and "isolated x L ch b s" and "Suc (b + length (fst sc)) < 2 ^ 64"
  shows "r \<noteq> None" and "isolated x L ch (Suc (b + length (fst sc))) s'"
proof -
  obtain n where n: "sim_node x s = Some n" "held_back L ch b n"
    using assms(2) by (auto simp: isolated_def)
  obtain n1 res where pr: "Propose d n = (n1, res)" by force
  have b: "b < 2 ^ 64" using assms(3) by simp
  have hb: "held_back L ch (Suc b) n1" and fresh: "\<And>i tm c. res = Inr (i, tm, c) \<Longrightarrow> ch \<le> c"
    using held_back_Propose [OF n(2) b, of d] pr by auto
  obtain s1 where s1: "run_acts (fst sc) (put_sim x n1 s) = Some s1" "s' = s1"
    using assms(1) n(1) pr by (cases res) (auto simp: ProposeWithTimeout_def Let_def bind_eq_Some_conv)
  have "isolated x L ch (Suc b) (put_sim x n1 s)"
    using hb by (intro isolated_put [OF assms(2)]) simp_all
  from isolated_run [OF s1(1) this] assms(3) have iso: "isolated x L ch (Suc (b + length (fst sc))) s'"
    by (simp add: s1(2))
  then show "isolated x L ch (Suc (b + length (fst sc))) s'" .
  obtain n2 where n2: "sim_node x s1 = Some n2" "held_back L ch (Suc (b + length (fst sc))) n2"
    using iso s1(2) by (auto simp: isolated_def)
  have "None \<notin> set (Propose_wait c n2)" if "res = Inr (i, tm, c)" for i tm c
    using held_back_wait [OF n2(2) fresh [OF that]] .
  then show "r \<noteq> None"
    using assms(1) n(1) pr s1 n2(1)
    by (cases res; cases r) (auto simp: ProposeWithTimeout_def Let_def split: list.splits if_splits)
qed

definition acts_of :: "sched list \<Rightarrow> nat" where
  "acts_of scs = sum_list (map (Suc \<circ> length \<circ> fst) scs)"

lemma isolated_count:
  "count_writes timeout x payload i scs s = Some (k, s') \<Longrightarrow> isolated x L ch b s \<Longrightarrow> b + acts_of scs < 2 ^ 64 \<Longrightarrow>
   k = 0 \<and> isolated x L ch (b + acts_of scs) s'"
proof (induction scs arbitrary: i s b k)
  case (Cons sc scs)
  then obtain r s1 k1 where s1: "ProposeWithTimeout timeout (payload i) sc x s = Some (r, s1)"
      "count_writes timeout x payload (i + 1) scs s1 = Some (k1, s')" "k = (if r = None then Suc k1 else k1)"
    by (auto simp: bind_eq_Some_conv)
  have b: "Suc (b + length (fst sc)) < 2 ^ 64" "Suc (b + length (fst sc)) + acts_of scs < 2 ^ 64"
    using Cons.prems(3) by (simp_all add: acts_of_def)
  from isolated_propose [OF s1(1) Cons.prems(2) b(1)] Cons.IH [OF s1(2) _ b(2)] s1(3) show ?case
    by (auto simp: acts_of_def ac_simps)
qed (simp add: acts_of_def)

section \<open>Writes to an isolated leader\<close>

text \<open>
  A node at the moment of the cut: its log is in order, it has peers, it believes nothing of them that
  is not in its own log, and its channels are old.
\<close>

definition cut_ready :: "RaftNode \<Rightarrow> bool" where
  "cut_ready n \<longleftrightarrow> node_log_ok n \<and> peers_ok n \<and> peers n \<noteq> [] \<and> (\<forall>p \<in> set (peers n). MatchIndex (snd p) \<le> LastIndex (RaftNode.log n)) \<and>
     (\<forall>(i, c) \<in> set (proposals n). c < next_ch n) \<and> (\<forall>(c, r) \<in> set (results n). c < next_ch n)"

lemma cut_ready_held_back:
  "cut_ready n \<Longrightarrow> held_back (LastIndex (RaftNode.log n)) (next_ch n) (length (entries (RaftNode.log n))) n"
  using unat_LastIndex [of "RaftNode.log n"] log_ok_length [of "RaftNode.log n"]
  by (fastforce simp: cut_ready_def held_back_def node_log_ok_def log_ok_def le_LastIndex_iff)

lemma partition_isolated:
  assumes "sim_node x s = Some n" and "cut_ready n" and "x \<noteq> ''''" and "list_all (avoids x) (sm_calls s)"
    and "ids_ok (cl_Injector (sm_cluster s))" and "room (cl_Injector (sm_cluster s))" and "rules (ci_proxy (cl_Injector (sm_cluster s))) = []"
  shows "isolated x (LastIndex (RaftNode.log n)) (next_ch n) (length (entries (RaftNode.log n))) (partition_node x s)"
proof -
  let ?c = "cl_Injector (sm_cluster s)"
  obtain r c' where part: "PartitionNode (sm_now s) x 0 ?c = (r, c')" "ci_nodes c' = ci_nodes ?c"
    using PartitionNode_eq [OF assms(5,6)] by blast
  have "\<not> fst (ShouldDeliver dr src dst (ci_proxy c'))" if "src = x \<or> dst = x" for dr src dst
    using PartitionNode_drops [OF assms(5,6) part(1) assms(3)] that assms(7) by simp
  then show ?thesis
    using assms(1,4) part cut_ready_held_back [OF assms(2)] by (simp add: isolated_def partition_node_def inject_def sim_node_def)
qed

lemma isolated_observe: "isolated x L ch b (observe text s) \<longleftrightarrow> isolated x L ch b s"
  by (simp add: isolated_def observe_def inject_def sim_node_def)

text \<open>
  C14. Writes to an isolated leader are never acknowledged. After \<open>PartitionNode\<close> on a cluster without
  other faults and without calls of the node in flight, for every schedule of all goroutines and
  every series of timed proposals to that node: no proposal returns success, and the commit index
  does not pass the log the node had when it was cut off.
\<close>

theorem isolated_writes_not_acknowledged:
  assumes "sim_node x s = Some n" and "cut_ready n" and "x \<noteq> ''''" and "list_all (avoids x) (sm_calls s)"
    and "ids_ok (cl_Injector (sm_cluster s))" and "room (cl_Injector (sm_cluster s))" and "rules (ci_proxy (cl_Injector (sm_cluster s))) = []"
    and "length (entries (RaftNode.log n)) + acts_of scs < 2 ^ 64"
    and "count_writes timeout x payload i scs (partition_node x s) = Some (k, s')"
  shows "k = 0 \<and> (\<exists>n'. sim_node x s' = Some n' \<and> commitIndex (RaftNode.log n') \<le> LastIndex (RaftNode.log n))"
  using isolated_count [OF assms(9) partition_isolated [OF assms(1-7)] assms(8)] by (auto simp: isolated_def held_back_def)

definition sample_sim :: "string \<Rightarrow> RaftNode \<Rightarrow> sim" where
  "sample_sim i n = \<lparr>sm_cluster = \<lparr>cl_NodeIDs = [i], cl_Injector = NewChaosInjector NewNetworkProxy [i \<mapsto> n], cl_registered = {i}\<rparr>,
     sm_calls = [], sm_now = 0\<rparr>"

lemma sample_sim_simps [simp]:
  "sim_node i (sample_sim i n) = Some n" "sm_calls (sample_sim i n) = []" "ids_ok (cl_Injector (sm_cluster (sample_sim i n)))"
  "room (cl_Injector (sm_cluster (sample_sim i n)))" "rules (ci_proxy (cl_Injector (sm_cluster (sample_sim i n)))) = []"
  by (simp_all add: sample_sim_def sim_node_def NewChaosInjector_def NewNetworkProxy_def ids_ok_def room_def)

lemma ProposeWithTimeout_now: "sim_node i s = Some n \<Longrightarrow> \<exists>r s'. ProposeWithTimeout timeout d ([], late) i s = Some (r, s')"
  by (cases "Propose d n"; cases "snd (Propose d n)") (auto simp: ProposeWithTimeout_def Let_def)

lemma sim_node_inject [simp]: "(\<And>c. ci_nodes (f c) = ci_nodes c) \<Longrightarrow> sim_node i (inject f s) = sim_node i s"
  by (simp add: sim_node_def inject_def)

lemma sample_cut:
  obtains n where "state n = Leader" and "cut_ready n" and "length (entries (RaftNode.log n)) = 3"
proof -
  obtain m :: RaftNode where m: "state m = Leader" "node_log_ok m" "node_id m = ''a''"
      "peers m = map (\<lambda>k. (k, \<lparr>p_ID = k, NextIndex = 2, MatchIndex = 0\<rparr>)) [''b'', ''c'']"
      "RaftNode.log m = \<lparr>entries = [sentinel, sample_entry, \<lparr>le_Index = 2, le_Term = 3, le_Type = EntryNormal, le_Data = []\<rparr>],
           commitIndex = 0, lastApplied = 0\<rparr>"
    by (rule sample_leader) blast
  then have "cut_ready (m\<lparr>proposals := [], results := []\<rparr>)"
    by (simp add: cut_ready_def node_log_ok_def peers_ok_def)
  then show thesis
    using m(1,5) by (intro that [of "m\<lparr>proposals := [], results := []\<rparr>"]) simp_all
qed

lemma sim_node_partition [simp]: "sim_node i (partition_node x s) = sim_node i s"
  by (simp add: partition_node_def PartitionNode_def inject_pair_def nextID_def add_rule_def Let_def)

lemma sim_node_observe [simp]: "sim_node i (observe text s) = sim_node i s"
  by (simp add: observe_def)

lemma count_one_now:
  assumes "sim_node i s = Some n"
  shows "\<exists>k s'. count_writes timeout i pl j [([], late)] s = Some (k, s')"
  using ProposeWithTimeout_now [OF assms, of timeout "pl j" late] by auto

theorem isolated_writes_not_acknowledged_witness:
  "\<exists>n k s'. state n = Leader \<and> count_writes ''150ms'' ''a'' (\<lambda>_. [1]) 21 [([], False)] (partition_node ''a'' (sample_sim ''a'' n)) = Some (k, s') \<and> k = 0"
proof -
  obtain n :: RaftNode where n: "state n = Leader" "cut_ready n" "length (entries (RaftNode.log n)) = 3"
    by (rule sample_cut)
  let ?s = "partition_node ''a'' (sample_sim ''a'' n)"
  have "sim_node ''a'' ?s = Some n" by simp
  from count_one_now [OF this] obtain k s' where run: "count_writes ''150ms'' ''a'' (\<lambda>_. [1]) 21 [([], False)] ?s = Some (k, s')"
    by blast
  have "k = 0"
    using isolated_writes_not_acknowledged [OF _ n(2) _ _ _ _ _ _ run] n(3) by (simp add: acts_of_def)
  with run n(1) show ?thesis by blast
qed

end
