(* ===== verification/Scenario_Scripts.thy ===== *)
theory Scenario_Scripts
  imports Scenario_World
begin

text \<open>
  The three scenario scripts on several nodes: \<open>src/scenarios/leader_isolation.go\<close>,
  \<open>split_brain.go\<close> and \<open>stale_election.go\<close>. Each is a function of its schedule, which holds what the
  goroutines do during every wait and the orders in which Go visits the map of nodes. \<open>None\<close> is a
  panic of the process. Observations keep their text; the report that is printed from them is the
  list of observations.
\<close>

section \<open>Results\<close>

record ScenarioResult =
  sr_Passed :: bool
  sr_Summary :: "(string \<times> string) list"
  sr_Observations :: "(int \<times> obs) list"

definition udec :: "u64 \<Rightarrow> string" where
  "udec x = decimal (unat x)"

definition bool_text :: "bool \<Rightarrow> string" where
  "bool_text b = (if b then ''true'' else ''false'')"

definition em_dash :: string where
  "em_dash = [CHR 0xE2, CHR 0x80, CHR 0x94]"

definition report :: "sim \<Rightarrow> (int \<times> obs) list" where
  "report s = observations (cl_Injector (sm_cluster s))"

definition status_of :: "string \<Rightarrow> sim \<Rightarrow> NodeStatus option" where
  "status_of i s = map_option Status (sim_node i s)"

definition payload :: "string \<Rightarrow> int \<Rightarrow> byte list" where
  "payload pre i = bytes_of_string (pre @ ''-'' @ itoa i)"

text \<open>Creation and start of the three nodes, the body, and the deferred stop.\<close>

record scenario_io =
  io_mkdir :: "error option"
  io_join :: "string \<Rightarrow> string \<Rightarrow> string"
  io_ok :: "string \<Rightarrow> bool"
  io_disk :: "string \<Rightarrow> byte list"
  io_env :: "string \<Rightarrow> env"

definition with_cluster ::
    "scenario_io \<Rightarrow> string \<Rightarrow> (sim \<Rightarrow> (ScenarioResult result \<times> sim) option) \<Rightarrow> (ScenarioResult result \<times> Cluster option) option" where
  "with_cluster io dataDir body =
     (case NewCluster (io_mkdir io) (io_join io) (io_ok io) (io_disk io) [''node1'', ''node2'', ''node3''] dataDir of
        None \<Rightarrow> None
      | Some (Inl err) \<Rightarrow> Some (Inl err, None)
      | Some (Inr c) \<Rightarrow> do {
          c1 \<leftarrow> Cluster_Start (io_env io) c;
          (r, s) \<leftarrow> body \<lparr>sm_cluster = c1, sm_calls = [], sm_now = 0\<rparr>;
          Some (r, Some (Cluster_Stop (sm_cluster s))) })"

section \<open>Leader isolation\<close>

record iso_sched =
  is_polls :: "(string list \<times> act list) list"
  is_base :: "int \<Rightarrow> sched"
  is_isolated :: "sched list"
  is_sleep :: "act list"

text \<open>From the partition on; the attempts go on for one second, as many as \<open>is_isolated\<close> has schedules.\<close>

definition LeaderIsolation_after :: "iso_sched \<Rightarrow> string \<Rightarrow> u64 \<Rightarrow> sim \<Rightarrow> (ScenarioResult \<times> sim) option" where
  "LeaderIsolation_after sch leader baselineCommit s = do {
     let s1 = observe (''isolated leader: '' @ leader) (partition_node leader s);
     let isolatedAttempts = length (is_isolated sch);
     (isolatedCommits, s2) \<leftarrow> count_writes ''150ms'' leader (payload ''isolated'') 21 (is_isolated sch) s1;
     st2 \<leftarrow> status_of leader s2;
     let isolatedLogGrowth = ns_LogIndex st2 - baselineCommit;
     let s3 = heal_all (observe (''isolated leader: '' @ decimal isolatedAttempts @ '' attempts, '' @ decimal isolatedCommits @
                '' commits, log grew by '' @ udec isolatedLogGrowth @ '' entries'') s2);
     s4 \<leftarrow> run_acts (is_sleep sch) s3;
     st4 \<leftarrow> status_of leader s4;
     let survivingIsolatedWrites = ns_LogIndex st4 - baselineCommit;
     let s5 = observe (''post-heal: commit='' @ udec (ns_CommitIndex st4) @ '' log='' @ udec (ns_LogIndex st4) @
                '' surviving-isolated-entries='' @ udec survivingIsolatedWrites) s4;
     Some (\<lparr>sr_Passed = (isolatedCommits = 0 \<and> survivingIsolatedWrites \<le> 1),
        sr_Summary = [(''baseline_commit'', udec baselineCommit), (''isolated_attempts'', decimal isolatedAttempts),
          (''isolated_commits'', decimal isolatedCommits), (''surviving_isolated_writes'', udec survivingIsolatedWrites)],
        sr_Observations = report s5\<rparr>, s5) }"

definition LeaderIsolation_body :: "iso_sched \<Rightarrow> sim \<Rightarrow> (ScenarioResult result \<times> sim) option" where
  "LeaderIsolation_body sch s = do {
     (r, s1) \<leftarrow> wait_leader ''2s'' (is_polls sch) s;
     (case r of
        Inl err \<Rightarrow> Some (Inl err, s1)
      | Inr leader \<Rightarrow> do {
          (werr, s2) \<leftarrow> write_all ''500ms'' leader (payload ''committed'') 1 (map (is_base sch) [1..20]) s1;
          (case werr of
             Some (i, err) \<Rightarrow> Some (Inl (''baseline write '' @ itoa i @ '' failed: '' @ err), s2)
           | None \<Rightarrow> do {
               st2 \<leftarrow> status_of leader s2;
               let baselineCommit = ns_CommitIndex st2;
               (res, s3) \<leftarrow> LeaderIsolation_after sch leader baselineCommit
                 (observe (''baseline: '' @ udec baselineCommit @ '' entries committed'') s2);
               Some (Inr res, s3) }) }) }"

definition LeaderIsolation_Run :: "scenario_io \<Rightarrow> string \<Rightarrow> iso_sched \<Rightarrow> (ScenarioResult result \<times> Cluster option) option" where
  "LeaderIsolation_Run io dataDir sch = with_cluster io dataDir (LeaderIsolation_body sch)"

section \<open>Split brain\<close>

record split_sched =
  ss_polls :: "(string list \<times> act list) list"
  ss_base :: "int \<Rightarrow> sched"
  ss_isolated :: "int \<Rightarrow> sched"
  ss_look :: "string list"
  ss_wait :: "(string list \<times> act list) list"
  ss_again :: "string list"
  ss_new :: "int \<Rightarrow> sched"
  ss_converge :: "act list"
  ss_settle :: "act list"
  ss_final :: "string list"

text \<open>The loop over the map of nodes for a leader other than the old one; the empty id when there is none.\<close>

definition other_leader :: "string \<Rightarrow> string list \<Rightarrow> sim \<Rightarrow> string" where
  "other_leader leader order s =
     (case filter (\<lambda>(i, n). i \<noteq> leader \<and> IsLeader n) (visit order s) of [] \<Rightarrow> '''' | (i, n) # _ \<Rightarrow> i)"

text \<open>Polls that visit only some of the nodes.\<close>

definition among :: "string list \<Rightarrow> (string list \<times> act list) list \<Rightarrow> (string list \<times> act list) list" where
  "among ids polls = map (\<lambda>(order, acts). (filter (\<lambda>i. i \<in> set ids) order, acts)) polls"

text \<open>Writes whose failures are only recorded.\<close>

fun write_observed :: "string \<Rightarrow> string \<Rightarrow> (int \<Rightarrow> byte list) \<Rightarrow> string \<Rightarrow> int \<Rightarrow> sched list \<Rightarrow> sim \<Rightarrow> sim option" where
  "write_observed timeout leader pl what i [] s = Some s"
| "write_observed timeout leader pl what i (sc # scs) s = do {
     (err, s1) \<leftarrow> ProposeWithTimeout timeout (pl i) sc leader s;
     write_observed timeout leader pl what (i + 1) scs
       (case err of None \<Rightarrow> s1 | Some e \<Rightarrow> observe (what @ '' '' @ itoa i @ '' failed: '' @ e) s1) }"

text \<open>From the search for the new leader on.\<close>

definition SplitBrain_after :: "split_sched \<Rightarrow> string \<Rightarrow> u64 \<Rightarrow> nat \<Rightarrow> sim \<Rightarrow> (ScenarioResult result \<times> sim) option" where
  "SplitBrain_after sch leader prePartitionCommit isolatedWrites s = do {
     (r, s1) \<leftarrow> (if other_leader leader (ss_look sch) s = '''' then wait_leader ''2s'' (among [''node2'', ''node3''] (ss_wait sch)) s else Some (Inr '''', s));
     (case r of
        Inl err \<Rightarrow> Some (Inl (''new leader election failed: '' @ err), s1)
      | Inr _ \<Rightarrow> do {
          let found = other_leader leader (ss_again sch) s1;
          let newLeaderID = (if found = '''' then other_leader leader (ss_look sch) s else found);
          let s2 = observe (''new leader elected: '' @ newLeaderID) s1;
          s3 \<leftarrow> write_observed ''500ms'' newLeaderID (payload ''new-leader'') ''new-leader write'' 1 (map (ss_new sch) [1..5]) s2;
          s4 \<leftarrow> run_acts (ss_converge sch) (heal_all s3);
          st \<leftarrow> status_of leader s4;
          let s5 = observe (''post-heal: old leader commit='' @ udec (ns_CommitIndex st) @ '' log='' @ udec (ns_LogIndex st) @
                '' (isolated log entries truncated: '' @ bool_text (ns_LogIndex st = ns_CommitIndex st) @ '')'') s4;
          s6 \<leftarrow> run_acts (ss_settle sch) s5;
          let consistent = NodesConsistent (map snd (visit (ss_final sch) s6));
          Some (Inr \<lparr>sr_Passed = (isolatedWrites = 0 \<and> consistent),
             sr_Summary = [(''pre_partition_commit'', udec prePartitionCommit), (''isolated_commits'', decimal isolatedWrites),
               (''cluster_consistent'', bool_text consistent)],
             sr_Observations = report s6\<rparr>, s6) }) }"

definition SplitBrain_body :: "split_sched \<Rightarrow> sim \<Rightarrow> (ScenarioResult result \<times> sim) option" where
  "SplitBrain_body sch s = do {
     (r, s1) \<leftarrow> wait_leader ''2s'' (ss_polls sch) s;
     (case r of
        Inl err \<Rightarrow> Some (Inl (''initial election failed: '' @ err), s1)
      | Inr leader \<Rightarrow> do {
          (werr, s2) \<leftarrow> write_all ''500ms'' leader (payload ''entry'') 1 (map (ss_base sch) [1..10]) (observe (''initial leader: '' @ leader) s1);
          (case werr of
             Some (i, err) \<Rightarrow> Some (Inl (''pre-partition write '' @ itoa i @ '' failed: '' @ err), s2)
           | None \<Rightarrow> do {
               st2 \<leftarrow> status_of leader s2;
               let prePartitionCommit = ns_CommitIndex st2;
               let s3 = observe (''partitioned leader: '' @ leader)
                 (partition_node leader (observe (''pre-partition commit index: '' @ udec prePartitionCommit) s2));
               (isolatedWrites, s4) \<leftarrow> count_writes ''200ms'' leader (payload ''isolated'') 11 (map (ss_isolated sch) [11..15]) s3;
               st4 \<leftarrow> status_of leader s4;
               SplitBrain_after sch leader prePartitionCommit isolatedWrites
                 (observe (''isolated leader: '' @ decimal isolatedWrites @ '' proposals committed, log index now '' @ udec (ns_LogIndex st4)) s4) }) }) }"

definition SplitBrain_Run :: "scenario_io \<Rightarrow> string \<Rightarrow> split_sched \<Rightarrow> (ScenarioResult result \<times> Cluster option) option" where
  "SplitBrain_Run io dataDir sch = with_cluster io dataDir (SplitBrain_body sch)"

section \<open>Stale election\<close>

record stale_sched =
  st_polls :: "(string list \<times> act list) list"
  st_base :: "int \<Rightarrow> sched"
  st_spread :: "act list"
  st_pick :: "string list"
  st_more :: "int \<Rightarrow> sched"
  st_spread2 :: "act list"
  st_wait :: "(string list \<times> act list) list"
  st_sync :: "act list"

definition crash_node :: "string \<Rightarrow> sim \<Rightarrow> sim" where
  "crash_node i s = inject (\<lambda>c. snd (CrashNode (sm_now s) i c)) s"

text \<open>The first id in the map's order that is not the leader's.\<close>

definition other_id :: "string \<Rightarrow> string list \<Rightarrow> string" where
  "other_id leader order = (case filter (\<lambda>i. i \<noteq> leader) order of [] \<Rightarrow> '''' | i # _ \<Rightarrow> i)"

definition StaleElection_after :: "stale_sched \<Rightarrow> string \<Rightarrow> u64 \<Rightarrow> sim \<Rightarrow> (ScenarioResult \<times> sim) option" where
  "StaleElection_after sch leader allNodesCommit s = do {
     let node3ID = other_id leader (st_pick sch);
     let s1 = observe (''node3 ('' @ node3ID @ '') partitioned'') (partition_node node3ID s);
     s2 \<leftarrow> write_observed ''500ms'' leader (payload ''entry'') ''write'' 11 (map (st_more sch) [11..20]) s1;
     s3 \<leftarrow> run_acts (st_spread2 sch) s2;
     lst \<leftarrow> status_of leader s3;
     nst \<leftarrow> status_of node3ID s3;
     let advancedCommit = ns_CommitIndex lst;
     let node3LogIndex = ns_LogIndex nst;
     let s4 = observe (''cluster committed up to '' @ udec advancedCommit @ ''; node3's log ends at '' @ udec node3LogIndex @
                '' (stale by '' @ udec (advancedCommit - node3LogIndex) @ '' entries)'') s3;
     let s5 = observe (''leader '' @ leader @ '' crashed'') (crash_node leader s4);
     let s6 = observe (''partition healed '' @ em_dash @ '' node3 rejoins cluster'') (heal_all s5);
     (r, s7) \<leftarrow> wait_leader ''2s'' (st_wait sch) s6;
     n3 \<leftarrow> sim_node node3ID s7;
     let newLeaderID = (case r of Inl _ \<Rightarrow> '''' | Inr i \<Rightarrow> i);
     let node3IsLeader = IsLeader n3;
     let s8 = observe (''new leader: '' @ newLeaderID @ '' (node3 is leader: '' @ bool_text node3IsLeader @ '' '' @ em_dash @ '' must be false)'') s7;
     s9 \<leftarrow> run_acts (st_sync sch) s8;
     st9 \<leftarrow> status_of node3ID s9;
     let node3FinalCommit = ns_CommitIndex st9;
     let s10 = observe (''node3 final commit index: '' @ udec node3FinalCommit @ '' (expected '' @ udec advancedCommit @ '')'') s9;
     Some (\<lparr>sr_Passed = (\<not> node3IsLeader \<and> node3FinalCommit \<ge> advancedCommit),
        sr_Summary = [(''pre_partition_commit'', udec allNodesCommit), (''node3_stale_log_index'', udec node3LogIndex),
          (''advanced_commit'', udec advancedCommit), (''node3_became_leader'', bool_text node3IsLeader),
          (''node3_final_commit'', udec node3FinalCommit)],
        sr_Observations = report s10\<rparr>, s10) }"

definition StaleElection_body :: "stale_sched \<Rightarrow> sim \<Rightarrow> (ScenarioResult result \<times> sim) option" where
  "StaleElection_body sch s = do {
     (r, s1) \<leftarrow> wait_leader ''2s'' (st_polls sch) s;
     (case r of
        Inl err \<Rightarrow> Some (Inl err, s1)
      | Inr leader \<Rightarrow> do {
          (werr, s2) \<leftarrow> write_all ''500ms'' leader (payload ''entry'') 1 (map (st_base sch) [1..10]) s1;
          (case werr of
             Some (i, err) \<Rightarrow> Some (Inl (''write '' @ itoa i @ '': '' @ err), s2)
           | None \<Rightarrow> do {
               s3 \<leftarrow> run_acts (st_spread sch) s2;
               st \<leftarrow> status_of leader s3;
               (res, s4) \<leftarrow> StaleElection_after sch leader (ns_CommitIndex st)
                 (observe (''all nodes at commit index '' @ udec (ns_CommitIndex st)) s3);
               Some (Inr res, s4) }) }) }"

definition StaleElection_Run :: "scenario_io \<Rightarrow> string \<Rightarrow> stale_sched \<Rightarrow> (ScenarioResult result \<times> Cluster option) option" where
  "StaleElection_Run io dataDir sch = with_cluster io dataDir (StaleElection_body sch)"

section \<open>Verdicts\<close>

lemma decimal_zero: "decimal 0 = ''0''"
  by code_simp

text \<open>
  The leader isolation scenario on a cluster without other faults: whatever the goroutines do, the
  number of isolated commits it reports is 0, so its verdict depends only on how many entries the
  old leader has beyond the baseline after healing.
\<close>

theorem leader_isolation_verdict:
  assumes "sim_node leader s = Some n" and "cut_ready n" and "leader \<noteq> ''''" and "list_all (avoids leader) (sm_calls s)"
    and "ids_ok (cl_Injector (sm_cluster s))" and "room (cl_Injector (sm_cluster s))" and "rules (ci_proxy (cl_Injector (sm_cluster s))) = []"
    and "length (entries (RaftNode.log n)) + acts_of (is_isolated sch) < 2 ^ 64"
    and "LeaderIsolation_after sch leader baselineCommit s = Some (r, s')"
  shows "map_of (sr_Summary r) ''isolated_commits'' = Some ''0'' \<and>
    (\<exists>surviving. map_of (sr_Summary r) ''surviving_isolated_writes'' = Some (udec surviving) \<and> (sr_Passed r \<longleftrightarrow> surviving \<le> 1))"
proof -
  let ?s = "observe (''isolated leader: '' @ leader) (partition_node leader s)"
  have iso: "isolated leader (LastIndex (RaftNode.log n)) (next_ch n) (length (entries (RaftNode.log n))) ?s"
    using partition_isolated [OF assms(1-7)] isolated_observe by blast
  obtain k s2 where k: "count_writes ''150ms'' leader (payload ''isolated'') 21 (is_isolated sch) ?s = Some (k, s2)"
    using assms(9) by (auto simp: LeaderIsolation_after_def Let_def bind_eq_Some_conv)
  have "k = 0"
    using isolated_count [OF k iso assms(8)] by blast
  then show ?thesis
    using assms(9) k by (auto simp: LeaderIsolation_after_def Let_def bind_eq_Some_conv decimal_zero)
qed

lemma first_leader_only:
  assumes "\<forall>j m. (j, m) \<in> set ps \<and> IsLeader m \<longrightarrow> j = i" and "(i, n) \<in> set ps" and "IsLeader n"
  shows "first_leader ps = Some i"
  using assms
proof (induction ps)
  case (Cons a ps)
  show ?case
  proof (cases "IsLeader (snd a)")
    case True
    moreover have "(fst a, snd a) \<in> set (a # ps)" by simp
    ultimately have "fst a = i" using Cons.prems(1) by blast
    with True show ?thesis by (cases a) simp
  next
    case False
    then have "(i, n) \<in> set ps" using Cons.prems(2,3) by auto
    moreover have "\<forall>j m. (j, m) \<in> set ps \<and> IsLeader m \<longrightarrow> j = i"
      using Cons.prems(1) by (meson list.set_intros(2))
    ultimately have "first_leader ps = Some i" using Cons.IH Cons.prems(3) by blast
    with False show ?thesis by (cases a) simp
  qed
qed simp

text \<open>
  C39. The split-brain scenario can crash. When the partitioned leader is \<open>node2\<close> or \<open>node3\<close> and nobody else
  leads yet, the script waits for a leader among these two, finds the old leader at once, has no
  id for the new one, and proposes through a nil node.
\<close>

theorem split_brain_panics:
  assumes "sim_node leader s = Some n" and "IsLeader n" and "leader \<in> {''node2'', ''node3''}"
    and "\<forall>i m. sim_node i s = Some m \<and> IsLeader m \<longrightarrow> i = leader" and "sim_node '''' s = None"
    and "ss_wait sch = (order, acts) # polls" and "{''node2'', ''node3''} \<subseteq> set order"
  shows "SplitBrain_after sch leader pre isolatedWrites s = None"
proof -
  have visit: "set (visit o' s) = {(i, m). i \<in> set o' \<and> sim_node i s = Some m}" for o'
    by (auto simp: visit_def split: option.splits)
  have none: "other_leader leader o' s = ''''" for o'
  proof -
    have "filter (\<lambda>(i, m). i \<noteq> leader \<and> IsLeader m) (visit o' s) = []"
      using assms(4) by (auto simp: filter_empty_conv visit)
    then show ?thesis by (simp add: other_leader_def)
  qed
  let ?order = "filter (\<lambda>i. i \<in> set [''node2'', ''node3'']) order"
  have "first_leader (visit ?order s) = Some leader"
  proof (rule first_leader_only [where n = n])
    show "\<forall>j m. (j, m) \<in> set (visit ?order s) \<and> IsLeader m \<longrightarrow> j = leader"
      using assms(4) unfolding visit by blast
    show "(leader, n) \<in> set (visit ?order s)" "IsLeader n"
      using assms(1-3,7) unfolding visit by auto
  qed
  then have wait: "wait_leader ''2s'' (among [''node2'', ''node3''] (ss_wait sch)) s = Some (Inr leader, s)"
    by (simp add: assms(6) among_def)
  have "sim_node '''' (observe t s) = None" for t
    using assms(5) by (simp add: observe_def)
  then have "ProposeWithTimeout timeout d sc '''' (observe t s) = None" for timeout d sc t
    by (simp add: ProposeWithTimeout_def)
  then have "write_observed ''500ms'' '''' (payload ''new-leader'') ''new-leader write'' 1 (map (ss_new sch) [1..5]) (observe t s) = None" for t
    by (simp add: upto.simps)
  then show ?thesis
    by (simp add: SplitBrain_after_def none wait Let_def)
qed

text \<open>
  A crashed leader takes part again as soon as the partition is healed: \<open>Heal\<close> removes the rules that
  cut off the crashed node as well, the stopped node is still registered, and its handler grants a
  vote as if it were running.
\<close>

theorem crashed_leader_still_votes:
  assumes "sim_node leader s = Some n" and "node_inv n" and "leader \<in> cl_registered (sm_cluster s)" and "may_vote req n"
  shows "\<exists>r net'. SendRequestVote candidate c leader req (cluster_net (sm_cluster (heal_all (crash_node leader s)))) = Some (Inr r, net') \<and> vr_VoteGranted r"
proof -
  let ?c = "cl_Injector (sm_cluster s)"
  have node: "ci_nodes (snd (CrashNode t leader ?c)) leader = Some (Stop n)" for t
    using assms(1) by (simp add: sim_node_def CrashNode_def inject_pair_def nextID_def add_rule_def Let_def)
  have net: "net_nodes (cluster_net (sm_cluster (heal_all (crash_node leader s)))) leader = Some (Stop n)"
      "rules (net_proxy (cluster_net (sm_cluster (heal_all (crash_node leader s))))) = []"
    using assms(3) node by (simp_all add: cluster_net_def heal_all_def crash_node_def inject_def Heal_def ClearRules_def)
  have "started (Stop n)" "may_vote req (Stop n)"
    using assms(2,4) by (auto simp: node_inv_def started_def Stop_def may_vote_def Let_def)
  then show ?thesis
    using net by (simp add: SendRequestVote_def applyProxy_def ShouldDeliver_def registry_get_def handleRequestVote_started vote_reply_def Let_def)
qed

section \<open>Samples\<close>

definition sample_iso_sched :: iso_sched where
  "sample_iso_sched = \<lparr>is_polls = [], is_base = (\<lambda>_. ([], False)), is_isolated = [([], False)], is_sleep = []\<rparr>"

lemma sim_node_heal [simp]: "sim_node i (heal_all s) = sim_node i s"
  by (simp add: heal_all_def Heal_def)

theorem leader_isolation_verdict_witness:
  "\<exists>n r s'. state n = Leader \<and> LeaderIsolation_after sample_iso_sched ''a'' 2 (sample_sim ''a'' n) = Some (r, s') \<and>
     map_of (sr_Summary r) ''isolated_commits'' = Some ''0''"
proof -
  obtain n :: RaftNode where n: "state n = Leader" "cut_ready n" "length (entries (RaftNode.log n)) = 3"
    by (rule sample_cut)
  let ?s = "observe (''isolated leader: '' @ ''a'') (partition_node ''a'' (sample_sim ''a'' n))"
  have node: "sim_node ''a'' ?s = Some n" by simp
  from count_one_now [OF node] obtain k s2 where run: "count_writes ''150ms'' ''a'' (payload ''isolated'') 21 [([], False)] ?s = Some (k, s2)"
    by blast
  have size: "length (entries (RaftNode.log n)) + acts_of [([], False)] < 2 ^ 64"
    using n(3) by (simp add: acts_of_def)
  have "isolated ''a'' (LastIndex (RaftNode.log n)) (next_ch n) (length (entries (RaftNode.log n))) ?s"
    using partition_isolated [of "''a''" "sample_sim ''a'' n" n] n(2) isolated_observe by simp
  from isolated_count [OF run this size] obtain n2 where "sim_node ''a'' s2 = Some n2"
    by (auto simp: isolated_def)
  then have "\<exists>r s'. LeaderIsolation_after sample_iso_sched ''a'' 2 (sample_sim ''a'' n) = Some (r, s')"
    using run unfolding LeaderIsolation_after_def Let_def sample_iso_sched_def by (simp add: status_of_def)
  then obtain r s' where after: "LeaderIsolation_after sample_iso_sched ''a'' 2 (sample_sim ''a'' n) = Some (r, s')"
    by blast
  from leader_isolation_verdict [OF _ n(2) _ _ _ _ _ _ after] size have "map_of (sr_Summary r) ''isolated_commits'' = Some ''0''"
    by (simp add: sample_iso_sched_def)
  with after n(1) show ?thesis by blast
qed

definition sample_split_sched :: split_sched where
  "sample_split_sched = \<lparr>ss_polls = [], ss_base = (\<lambda>_. ([], False)), ss_isolated = (\<lambda>_. ([], False)), ss_look = [''node1'', ''node2'', ''node3''],
     ss_wait = [([''node3'', ''node2''], [])], ss_again = [''node1'', ''node2'', ''node3''], ss_new = (\<lambda>_. ([], False)), ss_converge = [],
     ss_settle = [], ss_final = [''node1'', ''node2'', ''node3'']\<rparr>"

theorem split_brain_panics_witness:
  "\<exists>n. state n = Leader \<and> SplitBrain_after sample_split_sched ''node2'' 11 0 (sample_sim ''node2'' n) = None"
proof -
  obtain n :: RaftNode where n: "state n = Leader"
    by (rule sample_cut)
  have "IsLeader n" using n by (simp add: IsLeader_def)
  moreover have only: "\<forall>i m. sim_node i (sample_sim ''node2'' n) = Some m \<and> IsLeader m \<longrightarrow> i = ''node2''"
      "sim_node '''' (sample_sim ''node2'' n) = None"
    by (auto simp: sample_sim_def sim_node_def NewChaosInjector_def split: if_splits)
  moreover have "ss_wait sample_split_sched = ([''node3'', ''node2''], []) # []"
    by (simp add: sample_split_sched_def)
  ultimately show ?thesis
    using split_brain_panics [of "''node2''" "sample_sim ''node2'' n" n sample_split_sched "[''node3'', ''node2'']" "[]" "[]" 11 0] n by auto
qed

theorem crashed_leader_still_votes_witness:
  "\<exists>n r net'. node_inv n \<and> SendRequestVote ''a'' \<lparr>c_draw = \<lparr>d_int = 0, d_float = 0\<rparr>, ctx_first = False, c_env = sample_env\<rparr> ''c'' (sample_vote_request 5 ''a'')
       (cluster_net (sm_cluster (heal_all (crash_node ''c'' (sample_sim ''c'' n))))) = Some (Inr r, net') \<and> vr_VoteGranted r"
proof -
  obtain n :: RaftNode where n: "node_inv n" "currentTerm n = 0" "votedFor n = ''''" "RaftNode.log n = NewRaftLog"
    by (rule sample_voter_inv) blast
  have may: "may_vote (sample_vote_request 5 ''a'') n"
    using n by (simp add: may_vote_def sample_vote_request_def logIsUpToDate_def NewRaftLog_def LastTerm_def LastIndex_def sentinel_def)
  have "''c'' \<in> cl_registered (sm_cluster (sample_sim ''c'' n))"
    by (simp add: sample_sim_def)
  from crashed_leader_still_votes [OF sample_sim_simps(1) n(1) this may] n(1) show ?thesis
    by blast
qed

end
