(* ===== verification/Go_JSON.thy ===== *)
theory Go_JSON
  imports Go_Text
begin

text \<open>
  What the servers use of \<open>encoding/json\<close>, on bytes: quoting and unquoting of strings with
  their UTF-8 rules, the grammar of values, and the rule that finds the struct field for a key.
  Numbers keep their literal.
\<close>

section \<open>UTF-8\<close>

text \<open>Length of the well-formed sequence at the front, 0 when there is none (\<open>utf8.DecodeRune\<close>).\<close>

definition cont :: "char \<Rightarrow> nat \<Rightarrow> nat \<Rightarrow> bool" where
  "cont c lo hi \<longleftrightarrow> lo \<le> of_char c \<and> of_char c \<le> hi"

fun rune_len :: "string \<Rightarrow> nat" where
  "rune_len [] = 0"
| "rune_len (a # s) =
     (if cont a 0 0x7F then 1
      else case s of [] \<Rightarrow> 0 | b # s2 \<Rightarrow>
        if cont a 0xC2 0xDF then (if cont b 0x80 0xBF then 2 else 0)
        else case s2 of [] \<Rightarrow> 0 | c # s3 \<Rightarrow>
          if cont a 0xE0 0xEF then
            (if cont b (if cont a 0xE0 0xE0 then 0xA0 else 0x80) (if cont a 0xED 0xED then 0x9F else 0xBF) \<and> cont c 0x80 0xBF then 3 else 0)
          else case s3 of [] \<Rightarrow> 0 | d # s4 \<Rightarrow>
            if cont a 0xF0 0xF4 then
              (if cont b (if cont a 0xF0 0xF0 then 0x90 else 0x80) (if cont a 0xF4 0xF4 then 0x8F else 0xBF) \<and>
                  cont c 0x80 0xBF \<and> cont d 0x80 0xBF then 4 else 0)
            else 0)"

definition replacement :: string where
  "replacement = map char_of [0xEF, 0xBF, 0xBD :: nat]"

lemma rune_len_le: "rune_len s \<le> length s"
  by (cases s rule: rune_len.cases) (auto split: list.split)

function to_valid :: "string \<Rightarrow> string" where
  "to_valid [] = []"
| "to_valid (a # s) =
     (let k = rune_len (a # s) in
      if k = 0 then replacement @ to_valid s else take k (a # s) @ to_valid (drop k (a # s)))"
  by pat_completeness auto
termination
  by (relation "measure length") (auto simp: Let_def)

section \<open>Strings\<close>

definition hex_digit :: "nat \<Rightarrow> char" where
  "hex_digit d = (if d < 10 then char_of (48 + d) else char_of (87 + d))"

definition quote_ascii :: "char \<Rightarrow> string" where
  "quote_ascii c =
     (if c = CHR 0x22 \<or> c = CHR 0x5C then [CHR 0x5C, c]
      else if c = CHR 0x08 then [CHR 0x5C, CHR ''b'']
      else if c = CHR 0x0C then [CHR 0x5C, CHR ''f'']
      else if c = CHR 0x0A then [CHR 0x5C, CHR ''n'']
      else if c = CHR 0x0D then [CHR 0x5C, CHR ''r'']
      else if c = CHR 0x09 then [CHR 0x5C, CHR ''t'']
      else if of_char c < (0x20 :: nat) \<or> c = CHR 0x3C \<or> c = CHR 0x3E \<or> c = CHR 0x26 then
        [CHR 0x5C, CHR ''u'', CHR ''0'', CHR ''0'', hex_digit (of_char c div 16), hex_digit (of_char c mod 16)]
      else [c])"

text \<open>U+2028 and U+2029.\<close>

definition line_sep :: "string \<Rightarrow> char \<Rightarrow> bool" where
  "line_sep s z \<longleftrightarrow> take 3 s = [CHR 0xE2, CHR 0x80, z]"

function quote_body :: "string \<Rightarrow> string" where
  "quote_body [] = []"
| "quote_body (a # s) =
     (let k = rune_len (a # s) in
      if k = 0 then CHR 0x5C # ''ufffd'' @ quote_body s
      else if k = 1 then quote_ascii a @ quote_body s
      else (if line_sep (a # s) (CHR 0xA8) then CHR 0x5C # ''u2028''
            else if line_sep (a # s) (CHR 0xA9) then CHR 0x5C # ''u2029''
            else take k (a # s)) @ quote_body (drop k (a # s)))"
  by pat_completeness auto
termination
  by (relation "measure length") (auto simp: Let_def)

definition json_quote :: "string \<Rightarrow> string" where
  "json_quote s = CHR 0x22 # quote_body s @ [CHR 0x22]"

definition unhex :: "char \<Rightarrow> nat option" where
  "unhex c =
     (let v = of_char c in
      if 48 \<le> v \<and> v \<le> 57 then Some (v - 48)
      else if 97 \<le> v \<and> v \<le> 102 then Some (v - 87)
      else if 65 \<le> v \<and> v \<le> 70 then Some (v - 55) else None)"

fun hex4 :: "string \<Rightarrow> (nat \<times> string) option" where
  "hex4 (a # b # c # d # s) =
     (case (unhex a, unhex b, unhex c, unhex d) of
        (Some w, Some x, Some y, Some z) \<Rightarrow> Some (((w * 16 + x) * 16 + y) * 16 + z, s)
      | _ \<Rightarrow> None)"
| "hex4 _ = None"

lemma hex4_length: "hex4 s = Some (v, t) \<Longrightarrow> length t < length s"
  by (cases s rule: hex4.cases) (auto split: option.splits)

definition encode_rune :: "nat \<Rightarrow> string" where
  "encode_rune r = map char_of
     (if r < 0x80 then [r]
      else if r < 0x800 then [0xC0 + r div 64, 0x80 + r mod 64]
      else if r > 0x10FFFF \<or> 0xD800 \<le> r \<and> r < 0xE000 then [0xEF, 0xBF, 0xBD]
      else if r < 0x10000 then [0xE0 + r div 4096, 0x80 + (r div 64) mod 64, 0x80 + r mod 64]
      else [0xF0 + r div 262144, 0x80 + (r div 4096) mod 64, 0x80 + (r div 64) mod 64, 0x80 + r mod 64])"

text \<open>
  The rune of an escape \<open>\u\<close> and what is left: a surrogate pair is combined, a lone surrogate
  becomes the replacement character and what follows it is read again.
\<close>

definition escape_rune :: "nat \<Rightarrow> string \<Rightarrow> string \<times> string" where
  "escape_rune r s =
     (if 0xD800 \<le> r \<and> r < 0xE000 then
        (case s of
           x # y # s1 \<Rightarrow>
             if x = CHR 0x5C \<and> y = CHR ''u'' then
               (case hex4 s1 of
                  Some (r2, s2) \<Rightarrow>
                    if r < 0xDC00 \<and> 0xDC00 \<le> r2 \<and> r2 < 0xE000
                    then (encode_rune ((r - 0xD800) * 0x400 + (r2 - 0xDC00) + 0x10000), s2)
                    else (replacement, s)
                | None \<Rightarrow> (replacement, s))
             else (replacement, s)
         | _ \<Rightarrow> (replacement, s))
      else (encode_rune r, s))"

lemma escape_rune_length: "length (snd (escape_rune r s)) \<le> length s"
  by (auto simp: escape_rune_def split: list.split option.split dest: hex4_length)

definition simple_escape :: "char \<Rightarrow> char option" where
  "simple_escape c =
     (if c = CHR 0x22 \<or> c = CHR 0x5C \<or> c = CHR ''/'' then Some c
      else if c = CHR ''b'' then Some (CHR 0x08)
      else if c = CHR ''f'' then Some (CHR 0x0C)
      else if c = CHR ''n'' then Some (CHR 0x0A)
      else if c = CHR ''r'' then Some (CHR 0x0D)
      else if c = CHR ''t'' then Some (CHR 0x09)
      else None)"

text \<open>The body of a string literal up to its closing quote, and the rest; \<open>None\<close> is a syntax error.\<close>

function unquote_body :: "string \<Rightarrow> (string \<times> string) option" where
  "unquote_body [] = None"
| "unquote_body (a # s) =
     (if a = CHR 0x22 then Some ([], s)
      else if a = CHR 0x5C then
        (case s of
           [] \<Rightarrow> None
         | c # s1 \<Rightarrow>
             if c = CHR ''u'' then
               (case hex4 s1 of
                  None \<Rightarrow> None
                | Some (r, s2) \<Rightarrow> map_option (map_prod ((@) (fst (escape_rune r s2))) id) (unquote_body (snd (escape_rune r s2))))
             else (case simple_escape c of
                     None \<Rightarrow> None
                   | Some d \<Rightarrow> map_option (map_prod ((#) d) id) (unquote_body s1)))
      else if of_char a < (0x20 :: nat) then None
      else let k = rune_len (a # s) in
        if k = 0 then map_option (map_prod ((@) replacement) id) (unquote_body s)
        else map_option (map_prod ((@) (take k (a # s))) id) (unquote_body (drop k (a # s))))"
  by pat_completeness auto
termination
proof (relation "measure length", goal_cases)
  case (2 a s c s1 x r s2)
  then show ?case
    using hex4_length [of s1 r s2] escape_rune_length [of r s2] by simp
qed (auto simp: Let_def)

declare to_valid.simps [simp del] quote_body.simps [simp del] unquote_body.simps [simp del]

section \<open>Strings survive quoting\<close>

lemma rune_len_take:
  assumes "rune_len s = k" and "k \<noteq> 0"
  shows "rune_len (take k s @ t) = k"
proof (cases s)
  case (Cons a s1)
  show ?thesis
    using assms unfolding Cons
    by (cases s1; cases "tl s1"; cases "tl (tl s1)") (auto split: if_split_asm)
qed (use assms in simp)

lemma rune_len_one: "rune_len (a # s) = 1 \<longleftrightarrow> of_char a < (128 :: nat)"
  by (auto simp: cont_def split: list.split)

lemma rune_len_big: "rune_len (a # s) = k \<Longrightarrow> 1 < k \<Longrightarrow> 128 \<le> (of_char a :: nat)"
  using rune_len_one [of a s] by (cases "of_char a < (128 :: nat)") auto

declare rune_len.simps [simp del]

lemma append_single: "(@) [x] = (#) x"
  by (simp add: fun_eq_iff)

lemma unhex_hex_digit: "d < 16 \<Longrightarrow> unhex (hex_digit d) = Some d"
  by (auto simp: unhex_def hex_digit_def Let_def)

lemma unquote_plain:
  "a \<noteq> CHR 0x22 \<Longrightarrow> a \<noteq> CHR 0x5C \<Longrightarrow> 32 \<le> (of_char a :: nat) \<Longrightarrow> rune_len (a # s) = k \<Longrightarrow> k \<noteq> 0 \<Longrightarrow>
   unquote_body (a # s) = map_option (map_prod ((@) (take k (a # s))) id) (unquote_body (drop k (a # s)))"
  by (simp add: unquote_body.simps(2) Let_def)

lemma unquote_u:
  "hex4 s = Some (r, t) \<Longrightarrow> \<not> (0xD800 \<le> r \<and> r < 0xE000) \<Longrightarrow>
   unquote_body (CHR 0x5C # CHR ''u'' # s) = map_option (map_prod ((@) (encode_rune r)) id) (unquote_body t)"
proof -
  assume r: "hex4 s = Some (r, t)" "\<not> (0xD800 \<le> r \<and> r < 0xE000)"
  from r(2) have "escape_rune r t = (encode_rune r, t)"
    unfolding escape_rune_def by (rule if_not_P)
  with r(1) show ?thesis
    by (simp add: unquote_body.simps(2))
qed

lemma unquote_quote_ascii:
  assumes "of_char c < (128 :: nat)"
  shows "unquote_body (quote_ascii c @ t) = map_option (map_prod ((#) c) id) (unquote_body t)"
proof -
  define v :: nat where "v = of_char c"
  have c: "c = char_of v" and v: "v < 128"
    using assms by (simp_all add: v_def)
  have hex: "unquote_body ([CHR 0x5C, CHR ''u'', CHR ''0'', CHR ''0'', hex_digit (v div 16), hex_digit (v mod 16)] @ t)
      = map_option (map_prod ((#) c) id) (unquote_body t)"
  proof -
    have "unhex (hex_digit (v div 16)) = Some (v div 16)" "unhex (hex_digit (v mod 16)) = Some (v mod 16)" "unhex (CHR ''0'') = Some 0"
      using v by (simp_all add: unhex_hex_digit) (simp add: unhex_def)
    then have "hex4 (CHR ''0'' # CHR ''0'' # hex_digit (v div 16) # hex_digit (v mod 16) # t) = Some (v, t)"
      by simp
    from unquote_u [OF this] show ?thesis
      using v by (simp add: encode_rune_def c append_single)
  qed
  have plain: "unquote_body (c # t) = map_option (map_prod ((#) c) id) (unquote_body t)"
    if "c \<noteq> CHR 0x22" "c \<noteq> CHR 0x5C" "\<not> v < 32"
    using unquote_plain [of c t 1] that rune_len_one [of c t] v by (simp add: v_def append_single)
  show ?thesis
    using hex plain by (auto simp: quote_ascii_def v_def [symmetric] unquote_body.simps(2) simple_escape_def)
qed

lemma line_sep_chars:
  "char_of (226 :: nat) = CHR 0xE2" "char_of (128 :: nat) = CHR 0x80" "char_of (168 :: nat) = CHR 0xA8" "char_of (169 :: nat) = CHR 0xA9"
  by code_simp+

lemma unquote_quote_body: "unquote_body (quote_body s @ CHR 0x22 # t) = Some (to_valid s, t)"
proof (induction s rule: quote_body.induct)
  case 1
  show ?case by (simp add: quote_body.simps unquote_body.simps to_valid.simps)
next
  case (2 a s)
  define k where "k = rune_len (a # s)"
  consider (bad) "k = 0" | (ascii) "k = 1" | (multi) "1 < k" by linarith
  then show ?case
  proof cases
    case bad
    have "hex4 (''fffd'' @ quote_body s @ CHR 0x22 # t) = Some (0xFFFD, quote_body s @ CHR 0x22 # t)"
      by (simp add: unhex_def)
    from unquote_u [OF this] show ?thesis
      using bad 2(1) [OF k_def] by (simp add: quote_body.simps(2) to_valid.simps(2) k_def encode_rune_def replacement_def)
  next
    case ascii
    then show ?thesis
      using 2(2) [OF k_def] rune_len_one [of a s] unquote_quote_ascii
      by (simp add: quote_body.simps(2) to_valid.simps(2) k_def)
  next
    case multi
    have IH: "unquote_body (quote_body (drop k (a # s)) @ CHR 0x22 # t) = Some (to_valid (drop k (a # s)), t)"
      using 2(3) [OF k_def] multi by (simp add: k_def)
    have valid: "to_valid (a # s) = take k (a # s) @ to_valid (drop k (a # s))"
      using multi by (simp add: to_valid.simps(2) k_def [symmetric] Let_def)
    have sep: "unquote_body (CHR 0x5C # CHR ''u'' # CHR ''2'' # CHR ''0'' # CHR ''2'' # z # quote_body (drop k (a # s)) @ CHR 0x22 # t)
        = Some (to_valid (a # s), t)"
      if "line_sep (a # s) y" "z = CHR ''8'' \<and> y = CHR 0xA8 \<or> z = CHR ''9'' \<and> y = CHR 0xA9" for y z
    proof -
      have "k = 3"
        using that by (auto simp: k_def line_sep_def cont_def rune_len.simps split: list.splits)
      have "hex4 (CHR ''2'' # CHR ''0'' # CHR ''2'' # z # quote_body (drop k (a # s)) @ CHR 0x22 # t)
          = Some (if z = CHR ''8'' then 0x2028 else 0x2029, quote_body (drop k (a # s)) @ CHR 0x22 # t)"
        using that(2) by (auto simp: unhex_def)
      from unquote_u [OF this] show ?thesis
        using that IH valid \<open>k = 3\<close> by (auto simp: line_sep_def encode_rune_def line_sep_chars)
    qed
    have raw: "unquote_body (take k (a # s) @ quote_body (drop k (a # s)) @ CHR 0x22 # t) = Some (to_valid (a # s), t)"
    proof -
      have front: "take k (a # s) @ u = a # take (k - 1) s @ u" for u
        using multi by (cases k) simp_all
      have big: "128 \<le> (of_char a :: nat)"
        using rune_len_big [of a s k] multi by (simp add: k_def)
      then have ne: "a \<noteq> CHR 0x22" "a \<noteq> CHR 0x5C" by auto
      have len: "length (take k (a # s)) = k"
        using rune_len_le [of "a # s"] by (simp add: k_def)
      let ?u = "quote_body (drop k (a # s)) @ CHR 0x22 # t"
      have "rune_len (take k (a # s) @ ?u) = k"
        using rune_len_take [of "a # s" k ?u] multi by (simp add: k_def)
      then have "unquote_body (take k (a # s) @ ?u) =
          map_option (map_prod ((@) (take k (take k (a # s) @ ?u))) id) (unquote_body (drop k (take k (a # s) @ ?u)))"
        unfolding front using unquote_plain [OF ne] big multi by simp
      moreover have "take k (take k (a # s) @ ?u) = take k (a # s)" "drop k (take k (a # s) @ ?u) = ?u"
        using len by simp_all
      ultimately show ?thesis
        using IH valid by simp
    qed
    show ?thesis
      using sep [of "CHR 0xA8" "CHR ''8''"] sep [of "CHR 0xA9" "CHR ''9''"] raw multi
      by (simp add: quote_body.simps(2) k_def [symmetric] Let_def)
  qed
qed

section \<open>Values\<close>

datatype json = JNull | JBool bool | JNum string | JStr string | JArr "json list" | JObj "(string \<times> json) list"

definition is_ws :: "char \<Rightarrow> bool" where
  "is_ws c \<longleftrightarrow> c = CHR 0x20 \<or> c = CHR 0x09 \<or> c = CHR 0x0D \<or> c = CHR 0x0A"

definition skip_ws :: "string \<Rightarrow> string" where
  "skip_ws s = dropWhile is_ws s"

definition is_digit :: "char \<Rightarrow> bool" where
  "is_digit c \<longleftrightarrow> 48 \<le> (of_char c :: nat) \<and> of_char c \<le> (57 :: nat)"

definition digits :: "string \<Rightarrow> (string \<times> string) option" where
  "digits s = (if takeWhile is_digit s = [] then None else Some (takeWhile is_digit s, dropWhile is_digit s))"

definition num_int :: "string \<Rightarrow> (string \<times> string) option" where
  "num_int s = (case s of c # r \<Rightarrow> if c = CHR ''0'' then Some ([c], r) else digits s | [] \<Rightarrow> None)"

definition num_frac :: "string \<Rightarrow> (string \<times> string) option" where
  "num_frac s =
     (case s of c # r \<Rightarrow> if c = CHR ''.'' then map_option (map_prod ((#) c) id) (digits r) else Some ([], s) | [] \<Rightarrow> Some ([], s))"

definition num_exp :: "string \<Rightarrow> (string \<times> string) option" where
  "num_exp s =
     (case s of
        c # r \<Rightarrow>
          if c = CHR ''e'' \<or> c = CHR ''E'' then
            (case r of
               g # r2 \<Rightarrow> if g = CHR ''+'' \<or> g = CHR ''-'' then map_option (map_prod ((@) [c, g]) id) (digits r2)
                         else map_option (map_prod ((#) c) id) (digits r)
             | [] \<Rightarrow> None)
          else Some ([], s)
      | [] \<Rightarrow> Some ([], s))"

definition parse_number :: "string \<Rightarrow> (json \<times> string) option" where
  "parse_number s =
     (let (m, s1) = (case s of c # r \<Rightarrow> if c = CHR ''-'' then ([c], r) else ([], s) | [] \<Rightarrow> ([], s)) in
      case num_int s1 of None \<Rightarrow> None | Some (i, s2) \<Rightarrow>
      (case num_frac s2 of None \<Rightarrow> None | Some (f, s3) \<Rightarrow>
      (case num_exp s3 of None \<Rightarrow> None | Some (x, s4) \<Rightarrow> Some (JNum (m @ i @ f @ x), s4))))"

definition literal :: "string \<Rightarrow> json \<Rightarrow> string \<Rightarrow> (json \<times> string) option" where
  "literal w v s = (if take (length w) s = w then Some (v, drop (length w) s) else None)"

definition max_depth :: nat where
  "max_depth = 10000"

text \<open>Fuel bounds the number of calls; \<open>json_value\<close> below gives enough of it.\<close>

fun parse_value :: "nat \<Rightarrow> nat \<Rightarrow> string \<Rightarrow> (json \<times> string) option"
  and parse_elems :: "nat \<Rightarrow> nat \<Rightarrow> string \<Rightarrow> (json list \<times> string) option"
  and parse_members :: "nat \<Rightarrow> nat \<Rightarrow> string \<Rightarrow> ((string \<times> json) list \<times> string) option" where
  "parse_value 0 d s = None"
| "parse_value (Suc k) d s =
     (case s of
        [] \<Rightarrow> None
      | c # r \<Rightarrow>
          if c = CHR 0x22 then map_option (map_prod JStr id) (unquote_body r)
          else if c = CHR ''['' then
            if max_depth \<le> d then None
            else (case skip_ws r of
                    [] \<Rightarrow> None
                  | e # r1 \<Rightarrow> if e = CHR '']'' then Some (JArr [], r1)
                              else map_option (map_prod JArr id) (parse_elems k (Suc d) (e # r1)))
          else if c = CHR ''{'' then
            if max_depth \<le> d then None
            else (case skip_ws r of
                    [] \<Rightarrow> None
                  | e # r1 \<Rightarrow> if e = CHR ''}'' then Some (JObj [], r1)
                              else map_option (map_prod JObj id) (parse_members k (Suc d) (e # r1)))
          else if c = CHR ''t'' then literal ''true'' (JBool True) s
          else if c = CHR ''f'' then literal ''false'' (JBool False) s
          else if c = CHR ''n'' then literal ''null'' JNull s
          else parse_number s)"
| "parse_elems 0 d s = None"
| "parse_elems (Suc k) d s =
     (case parse_value k d s of
        None \<Rightarrow> None
      | Some (v, r) \<Rightarrow>
          (case skip_ws r of
             [] \<Rightarrow> None
           | e # r1 \<Rightarrow>
               if e = CHR '','' then map_option (map_prod ((#) v) id) (parse_elems k d (skip_ws r1))
               else if e = CHR '']'' then Some ([v], r1) else None))"
| "parse_members 0 d s = None"
| "parse_members (Suc k) d s =
     (case s of
        [] \<Rightarrow> None
      | q # r \<Rightarrow>
          if q \<noteq> CHR 0x22 then None
          else case unquote_body r of
            None \<Rightarrow> None
          | Some (key, r0) \<Rightarrow>
              (case skip_ws r0 of
                 [] \<Rightarrow> None
               | e # r1 \<Rightarrow>
                   if e \<noteq> CHR '':'' then None
                   else case parse_value k d (skip_ws r1) of
                     None \<Rightarrow> None
                   | Some (v, r2) \<Rightarrow>
                       (case skip_ws r2 of
                          [] \<Rightarrow> None
                        | e2 # r3 \<Rightarrow>
                            if e2 = CHR '','' then map_option (map_prod ((#) (key, v)) id) (parse_members k d (skip_ws r3))
                            else if e2 = CHR ''}'' then Some ([(key, v)], r3) else None)))"

text \<open>The first value of a text and the rest: what \<open>Decoder.Decode\<close> reads.\<close>

definition json_value :: "string \<Rightarrow> (json \<times> string) option" where
  "json_value s = parse_value (2 * length s + 2) 0 (skip_ws s)"

text \<open>A whole text: what \<open>Unmarshal\<close> reads.\<close>

definition json_document :: "string \<Rightarrow> json option" where
  "json_document s = (case json_value s of Some (v, r) \<Rightarrow> if skip_ws r = [] then Some v else None | None \<Rightarrow> None)"

section \<open>Structs of strings\<close>

text \<open>
  Keys are matched exactly, then up to case folding; the Kelvin sign and the long s are the only
  characters outside ASCII that fold to an ASCII letter.
\<close>

fun fold_name :: "string \<Rightarrow> string" where
  "fold_name [] = []"
| "fold_name (a # s) =
     (if 97 \<le> (of_char a :: nat) \<and> of_char a \<le> (122 :: nat) then char_of (of_char a - 32 :: nat) # fold_name s
      else if take 3 (a # s) = [CHR 0xE2, CHR 0x84, CHR 0xAA] then CHR ''K'' # fold_name (drop 2 s)
      else if take 2 (a # s) = [CHR 0xC5, CHR 0xBF] then CHR ''S'' # fold_name (drop 1 s)
      else a # fold_name s)"

definition find_field :: "string list \<Rightarrow> string \<Rightarrow> string option" where
  "find_field names key =
     (if key \<in> set names then Some key else find (\<lambda>n. fold_name n = fold_name key) names)"

text \<open>\<open>None\<close> is an error of the decoder; a \<open>null\<close> leaves its field alone.\<close>

fun decode_members :: "string list \<Rightarrow> (string \<times> json) list \<Rightarrow> (string \<Rightarrow> string) \<Rightarrow> (string \<Rightarrow> string) option" where
  "decode_members names [] f = Some f"
| "decode_members names ((key, v) # ms) f =
     (case find_field names key of
        None \<Rightarrow> decode_members names ms f
      | Some n \<Rightarrow>
          (case v of
             JStr x \<Rightarrow> decode_members names ms (f(n := x))
           | JNull \<Rightarrow> decode_members names ms f
           | _ \<Rightarrow> None))"

definition decode_struct :: "string list \<Rightarrow> json \<Rightarrow> (string \<Rightarrow> string) option" where
  "decode_struct names v =
     (case v of JObj ms \<Rightarrow> decode_members names ms (\<lambda>_. '''') | JNull \<Rightarrow> Some (\<lambda>_. '''') | _ \<Rightarrow> None)"

text \<open>The text of a struct or sorted map of strings.\<close>

fun members_text :: "(string \<times> string) list \<Rightarrow> string" where
  "members_text [] = []"
| "members_text [(k, v)] = json_quote k @ '':'' @ json_quote v"
| "members_text ((k, v) # m # ms) = json_quote k @ '':'' @ json_quote v @ '','' @ members_text (m # ms)"

definition object_text :: "(string \<times> string) list \<Rightarrow> string" where
  "object_text ms = ''{'' @ members_text ms @ ''}''"

section \<open>Encoding\<close>

fun join :: "string \<Rightarrow> string list \<Rightarrow> string" where
  "join sep [] = []"
| "join sep [x] = x"
| "join sep (x # y # ys) = x @ sep @ join sep (y # ys)"

fun json_text :: "json \<Rightarrow> string" where
  "json_text JNull = ''null''"
| "json_text (JBool b) = (if b then ''true'' else ''false'')"
| "json_text (JNum s) = s"
| "json_text (JStr s) = json_quote s"
| "json_text (JArr vs) = ''['' @ join '','' (map json_text vs) @ '']''"
| "json_text (JObj ms) = ''{'' @ join '','' (map (\<lambda>(k, v). json_quote k @ '':'' @ json_text v) ms) @ ''}''"

lemma members_text_join: "members_text ms = join '','' (map (\<lambda>(k, v). json_quote k @ '':'' @ json_quote v) ms)"
  by (induction ms rule: members_text.induct) auto

lemma json_text_object: "json_text (JObj (map (\<lambda>(k, v). (k, JStr v)) ms)) = object_text ms"
  by (simp add: object_text_def members_text_join comp_def case_prod_unfold)

section \<open>The parser consumes its input\<close>

lemma skip_ws_length: "length (skip_ws s) \<le> length s"
  by (simp add: skip_ws_def length_dropWhile_le)

lemma skip_ws_Cons: "skip_ws s = c # r \<Longrightarrow> length r < length s"
  using skip_ws_length [of s] by simp

lemma unquote_body_length: "unquote_body s = Some (x, r) \<Longrightarrow> length r < length s"
proof (induction s arbitrary: x r rule: unquote_body.induct)
  case 1
  then show ?case by (simp add: unquote_body.simps)
next
  case (2 a s)
  consider (close) "a = CHR 0x22"
    | (esc) c s1 where "a = CHR 0x5C" "s = c # s1"
    | (ctrl) "a \<noteq> CHR 0x22" "a = CHR 0x5C" "s = []"
    | (raw) "a \<noteq> CHR 0x22" "a \<noteq> CHR 0x5C"
    by (cases s) auto
  then show ?case
  proof cases
    case close
    then show ?thesis using 2(5) by (simp add: unquote_body.simps(2))
  next
    case esc
    show ?thesis
    proof (cases "c = CHR ''u''")
      case True
      then obtain v s2 y where h: "hex4 s1 = Some (v, s2)" "unquote_body (snd (escape_rune v s2)) = Some (y, r)"
        using 2(5) esc by (auto simp: unquote_body.simps(2) split: option.splits)
      have "a \<noteq> CHR 0x22" using esc by simp
      from 2(1) [OF this esc(1,2) True h(1) refl h(2)] show ?thesis
        using hex4_length [OF h(1)] escape_rune_length [of v s2] esc(2) by simp
    next
      case False
      then obtain e y where h: "simple_escape c = Some e" "unquote_body s1 = Some (y, r)"
        using 2(5) esc by (auto simp: unquote_body.simps(2) split: option.splits)
      have "a \<noteq> CHR 0x22" using esc by simp
      from 2(2) [OF this esc(1,2) False h] show ?thesis
        using esc(2) by simp
    qed
  next
    case ctrl
    then show ?thesis using 2(5) by (simp add: unquote_body.simps(2))
  next
    case raw
    then have p: "\<not> of_char a < (0x20 :: nat)"
      using 2(5) by (auto simp: unquote_body.simps(2))
    show ?thesis
    proof (cases "rune_len (a # s) = 0")
      case True
      then obtain y where h: "unquote_body s = Some (y, r)"
        using 2(5) raw p by (auto simp: unquote_body.simps(2))
      from 2(3) [OF raw p refl True h] show ?thesis by simp
    next
      case False
      then obtain y where h: "unquote_body (drop (rune_len (a # s)) (a # s)) = Some (y, r)"
        using 2(5) raw p by (auto simp: unquote_body.simps(2) Let_def)
      from 2(4) [OF raw p refl False h] show ?thesis by simp
    qed
  qed
qed

lemma digits_length: "digits s = Some (x, r) \<Longrightarrow> length r < length s"
  by (cases s) (auto simp: digits_def length_dropWhile_le less_Suc_eq_le split: if_splits)

lemma num_lengths:
  "num_frac s = Some (x, r) \<Longrightarrow> length r \<le> length s" "num_exp s = Some (x, r) \<Longrightarrow> length r \<le> length s"
  "num_int s = Some (x, r) \<Longrightarrow> length r < length s"
    apply (fastforce simp: num_frac_def split: list.split_asm if_split_asm dest: digits_length)
   apply (fastforce simp: num_exp_def split: list.split_asm if_split_asm dest: digits_length)
  apply (fastforce simp: num_int_def split: list.split_asm if_split_asm dest: digits_length)
  done

lemma parse_number_length:
  assumes "parse_number s = Some (v, r)"
  shows "length r < length s"
proof -
  define ms where "ms = (case s of c # r \<Rightarrow> if c = CHR ''-'' then ([c], r) else ([], s) | [] \<Rightarrow> ([], s))"
  have "length (snd ms) \<le> length s"
    by (simp add: ms_def split: list.split)
  moreover obtain i s2 f s3 x where "num_int (snd ms) = Some (i, s2)" "num_frac s2 = Some (f, s3)" "num_exp s3 = Some (x, r)"
    using assms unfolding parse_number_def ms_def [symmetric] by (simp split: prod.split_asm option.split_asm)
  ultimately show ?thesis
    using num_lengths(3) num_lengths(1) num_lengths(2) by (meson le_trans less_le_trans order_le_less_trans)
qed

lemma literal_length: "literal w v s = Some (x, r) \<Longrightarrow> w \<noteq> [] \<Longrightarrow> length r < length s"
  by (cases s) (auto simp: literal_def split: if_splits)

lemma map_option_prod_Some: "map_option (map_prod f id) o1 = Some (y, r) \<Longrightarrow> \<exists>x. o1 = Some (x, r) \<and> y = f x"
  by (cases o1) auto

lemma parse_value_cases:
  assumes "parse_value (Suc k) d s = Some (v, r)"
  obtains (str) s1 x where "length s1 < length s" "unquote_body s1 = Some (x, r)"
    | (elems) s1 vs where "length s1 < length s" "parse_elems k (Suc d) s1 = Some (vs, r)"
    | (members) s1 ms where "length s1 < length s" "parse_members k (Suc d) s1 = Some (ms, r)"
    | (flat) "length r < length s"
proof (cases s)
  case Nil
  then show thesis using assms by simp
next
  case (Cons c t)
  have ws: "length (e # r1) < length s" if "skip_ws t = e # r1" for e r1
    using skip_ws_length [of t] that Cons by simp
  consider "c = CHR 0x22" | "c = CHR ''[''" | "c = CHR ''{''" | "c \<noteq> CHR 0x22 \<and> c \<noteq> CHR ''['' \<and> c \<noteq> CHR ''{''"
    by blast
  then show thesis
  proof cases
    case 1
    then show thesis using assms Cons str [of t] by (auto dest!: map_option_prod_Some)
  next
    case 2
    then obtain e r1 where e: "skip_ws t = e # r1" "r1 = r \<or> (\<exists>vs. parse_elems k (Suc d) (e # r1) = Some (vs, r))"
      using assms Cons by (auto dest!: map_option_prod_Some split: list.split_asm if_split_asm)
    then show thesis
      using ws [OF e(1)] flat elems [of "e # r1"] by auto
  next
    case 3
    then obtain e r1 where e: "skip_ws t = e # r1" "r1 = r \<or> (\<exists>ms. parse_members k (Suc d) (e # r1) = Some (ms, r))"
      using assms Cons by (auto dest!: map_option_prod_Some split: list.split_asm if_split_asm)
    then show thesis
      using ws [OF e(1)] flat members [of "e # r1"] by auto
  next
    case 4
    then have "\<exists>w x. w \<noteq> [] \<and> literal w x s = Some (v, r) \<or> parse_number s = Some (v, r)"
      using assms Cons by (auto split: if_split_asm)
    then show thesis
      using flat literal_length parse_number_length by blast
  qed
qed

lemma parse_elems_cases:
  assumes "parse_elems (Suc k) d s = Some (vs, r)"
  obtains v r0 e r1 where "parse_value k d s = Some (v, r0)" "skip_ws r0 = e # r1"
    "r1 = r \<or> (\<exists>ws. parse_elems k d (skip_ws r1) = Some (ws, r))"
  using assms by (auto dest!: map_option_prod_Some split: list.split_asm if_split_asm option.split_asm)

lemma parse_members_cases:
  assumes "parse_members (Suc k) d s = Some (ms, r)"
  obtains q s1 key r0 e r1 v r2 e2 r3 where "s = q # s1" "unquote_body s1 = Some (key, r0)" "skip_ws r0 = e # r1"
    "parse_value k d (skip_ws r1) = Some (v, r2)" "skip_ws r2 = e2 # r3"
    "r3 = r \<or> (\<exists>ws. parse_members k d (skip_ws r3) = Some (ws, r))"
  using assms by (auto dest!: map_option_prod_Some split: list.split_asm if_split_asm option.split_asm)

lemma parse_lengths:
  "parse_value k d s = Some (v, r) \<Longrightarrow> length r < length s"
  "parse_elems k d s = Some (vs, r) \<Longrightarrow> length r < length s"
  "parse_members k d s = Some (ms, r) \<Longrightarrow> length r < length s"
proof (induction k arbitrary: d s v vs ms r)
  case (Suc k)
  {
    case 1
    then show ?case
    proof (cases rule: parse_value_cases)
      case (str s1 x)
      then show ?thesis using unquote_body_length [of s1] by fastforce
    next
      case (elems s1 vs)
      then show ?thesis using Suc.IH(2) by fastforce
    next
      case (members s1 ms)
      then show ?thesis using Suc.IH(3) by fastforce
    qed simp_all
  next
    case 2
    then obtain v r0 e r1 where p: "parse_value k d s = Some (v, r0)" "skip_ws r0 = e # r1"
      "r1 = r \<or> (\<exists>ws. parse_elems k d (skip_ws r1) = Some (ws, r))"
      by (rule parse_elems_cases)
    moreover have "length r \<le> length r1"
      using p(3) Suc.IH(2) [of d "skip_ws r1" _ r] skip_ws_length [of r1] by fastforce
    ultimately show ?case
      using Suc.IH(1) [OF p(1)] skip_ws_Cons [OF p(2)] by simp
  next
    case 3
    then obtain q s1 key r0 e r1 v r2 e2 r3 where p: "s = q # s1" "unquote_body s1 = Some (key, r0)" "skip_ws r0 = e # r1"
      "parse_value k d (skip_ws r1) = Some (v, r2)" "skip_ws r2 = e2 # r3"
      "r3 = r \<or> (\<exists>ws. parse_members k d (skip_ws r3) = Some (ws, r))"
      by (rule parse_members_cases)
    moreover have "length r \<le> length r3"
      using p(6) Suc.IH(3) [of d "skip_ws r3" _ r] skip_ws_length [of r3] by fastforce
    ultimately show ?case
      using Suc.IH(1) [OF p(4)] skip_ws_Cons [OF p(5)] skip_ws_Cons [OF p(3)] unquote_body_length [OF p(2)] skip_ws_length [of r1]
      by simp
  }
qed simp_all

text \<open>More fuel than twice the length changes nothing.\<close>

lemma parse_fuel:
  "2 * length s + 2 \<le> k \<Longrightarrow> parse_value (Suc k) d s = parse_value k d s"
  "2 * length s + 3 \<le> k \<Longrightarrow> parse_elems (Suc k) d s = parse_elems k d s"
  "2 * length s + 3 \<le> k \<Longrightarrow> parse_members (Suc k) d s = parse_members k d s"
proof (induction k arbitrary: d s)
  case (Suc k)
  {
    case 1
    show ?case
    proof (cases s)
      case (Cons c t)
      have sub: "parse_elems (Suc k) (Suc d) u = parse_elems k (Suc d) u" "parse_members (Suc k) (Suc d) u = parse_members k (Suc d) u"
        if "length u \<le> length t" for u
        using that 1 Cons Suc.IH(2,3) [of u "Suc d"] by simp_all
      show ?thesis
      proof (cases "skip_ws t")
        case (Cons e r1)
        then have "length (e # r1) \<le> length t"
          using skip_ws_length [of t] by simp
        from sub [OF this] show ?thesis
          unfolding \<open>s = c # t\<close> parse_value.simps list.case Cons by (simp only:)
      qed (simp add: \<open>s = c # t\<close>)
    qed simp
  next
    case 2
    have v: "parse_value (Suc k) d s = parse_value k d s"
      using Suc.IH(1) 2 by simp
    have e: "parse_elems (Suc k) d (skip_ws r1) = parse_elems k d (skip_ws r1)"
      if "parse_value k d s = Some (v, r)" "skip_ws r = e # r1" for v r e r1
      using that 2 parse_lengths(1) [OF that(1)] skip_ws_Cons [OF that(2)] skip_ws_length [of r1] Suc.IH(2) [of "skip_ws r1" d] by simp
    show ?case
      unfolding parse_elems.simps(2) [of "Suc k" d s] parse_elems.simps(2) [of k d s] v
      by (rule option.case_cong [OF refl]) (auto simp del: parse_elems.simps simp: e split: list.split)
  next
    case 3
    have v: "parse_value (Suc k) d (skip_ws r1) = parse_value k d (skip_ws r1)"
      if "s = q # s1" "unquote_body s1 = Some (key, r0)" "skip_ws r0 = e # r1" for q s1 key r0 e r1
      using that 3 unquote_body_length [OF that(2)] skip_ws_Cons [OF that(3)] skip_ws_length [of r1] Suc.IH(1) [of "skip_ws r1" d] by simp
    have m: "parse_members (Suc k) d (skip_ws r3) = parse_members k d (skip_ws r3)"
      if "s = q # s1" "unquote_body s1 = Some (key, r0)" "skip_ws r0 = e # r1"
        "parse_value k d (skip_ws r1) = Some (v, r2)" "skip_ws r2 = e2 # r3" for q s1 key r0 e r1 v r2 e2 r3
      using that 3 unquote_body_length [OF that(2)] skip_ws_Cons [OF that(3)] skip_ws_length [of r1] parse_lengths(1) [OF that(4)]
        skip_ws_Cons [OF that(5)] skip_ws_length [of r3] Suc.IH(3) [of "skip_ws r3" d] by simp
    show ?case
      unfolding parse_members.simps(2) [of "Suc k" d s] parse_members.simps(2) [of k d s]
      by (auto simp del: parse_members.simps parse_value.simps simp: v m split: list.split option.split)
  }
qed simp_all

lemma parse_value_fuel: "2 * length s + 2 \<le> k \<Longrightarrow> parse_value k d s = parse_value (2 * length s + 2) d s"
  by (induction k rule: nat_induct_at_least) (simp_all only: parse_fuel(1))

section \<open>Round trip of structs\<close>

lemma skip_ws_stop: "\<not> is_ws c \<Longrightarrow> skip_ws (c # s) = c # s"
  by (simp add: skip_ws_def)

lemma json_quote_append: "json_quote s @ t = CHR 0x22 # quote_body s @ CHR 0x22 # t"
  by (simp add: json_quote_def)

lemma not_ws [simp]: "\<not> is_ws (CHR 0x22)" "\<not> is_ws (CHR '':'')" "\<not> is_ws (CHR '','')" "\<not> is_ws (CHR ''}'')" "\<not> is_ws (CHR ''{'')"
  by (simp_all add: is_ws_def)

lemma parse_value_quote: "parse_value (Suc k) d (json_quote s @ t) = Some (JStr (to_valid s), t)"
  by (simp add: json_quote_append unquote_quote_body)

lemma skip_ws_quote: "skip_ws (json_quote s @ t) = json_quote s @ t"
  by (simp add: json_quote_append skip_ws_stop)

lemma members_text_quote: "ms \<noteq> [] \<Longrightarrow> \<exists>u. members_text ms = CHR 0x22 # u"
  by (cases ms rule: members_text.cases) (auto simp: json_quote_def)

lemma parse_members_text:
  "ms \<noteq> [] \<Longrightarrow> length ms < k \<Longrightarrow>
   parse_members k d (members_text ms @ CHR ''}'' # t) = Some (map (\<lambda>(x, v). (to_valid x, JStr (to_valid v))) ms, t)"
proof (induction ms arbitrary: k rule: members_text.induct)
  case (2 x v)
  then obtain j where k: "k = Suc (Suc j)"
    by (cases k; cases "k - 1") auto
  have "parse_value (Suc j) d (skip_ws (json_quote v @ CHR ''}'' # t)) = Some (JStr (to_valid v), CHR ''}'' # t)"
    by (simp only: skip_ws_quote parse_value_quote)
  then show ?case
    by (simp add: k json_quote_append [of x] unquote_quote_body skip_ws_stop del: parse_value.simps)
next
  case (3 x v m ms)
  then obtain j where k: "k = Suc (Suc j)" "length (m # ms) < Suc j"
    by (cases k; cases "k - 1") auto
  let ?rest = "members_text (m # ms) @ CHR ''}'' # t"
  have "parse_value (Suc j) d (skip_ws (json_quote v @ CHR '','' # ?rest)) = Some (JStr (to_valid v), CHR '','' # ?rest)"
    by (simp only: skip_ws_quote parse_value_quote)
  moreover have "skip_ws ?rest = ?rest"
    using members_text_quote [of "m # ms"] by (auto simp: skip_ws_stop simp del: members_text.simps)
  moreover have "parse_members (Suc j) d ?rest = Some (map (\<lambda>(x, v). (to_valid x, JStr (to_valid v))) (m # ms), t)"
    using "3.IH" [of "Suc j"] k(2) by blast
  ultimately show ?case
    by (simp add: k(1) json_quote_append [of x] unquote_quote_body skip_ws_stop del: parse_value.simps parse_members.simps(2))
      (simp add: json_quote_append [of x] unquote_quote_body skip_ws_stop del: parse_value.simps)
qed simp

lemma json_value_object:
  assumes "ms \<noteq> []"
  shows "json_value (object_text ms @ t) = Some (JObj (map (\<lambda>(x, v). (to_valid x, JStr (to_valid v))) ms), t)"
proof -
  obtain u where u: "members_text ms = CHR 0x22 # u"
    using members_text_quote [OF assms] by blast
  have "length ms \<le> length (members_text ms)"
    by (induction ms rule: members_text.induct) (auto simp: json_quote_def)
  then have "parse_members (Suc (2 * length (object_text ms @ t))) 1 (members_text ms @ CHR ''}'' # t) =
      Some (map (\<lambda>(x, v). (to_valid x, JStr (to_valid v))) ms, t)"
    using parse_members_text [OF assms, of "Suc (2 * length (object_text ms @ t))" 1 t] by (simp add: object_text_def)
  then show ?thesis
    by (simp add: json_value_def object_text_def skip_ws_stop max_depth_def u del: parse_members.simps)
qed

lemma json_document_object:
  "ms \<noteq> [] \<Longrightarrow> json_document (object_text ms) = Some (JObj (map (\<lambda>(x, v). (to_valid x, JStr (to_valid v))) ms))"
  using json_value_object [of ms "[]"] by (simp add: json_document_def skip_ws_def)

text \<open>ASCII text is valid.\<close>

definition ascii :: "string \<Rightarrow> bool" where
  "ascii s \<longleftrightarrow> (\<forall>c \<in> set s. of_char c < (128 :: nat))"

lemma to_valid_ascii [simp]: "ascii s \<Longrightarrow> to_valid s = s"
proof (induction s)
  case (Cons a s)
  then have "rune_len (a # s) = 1"
    by (simp only: rune_len_one) (simp add: ascii_def)
  with Cons show ?case
    by (simp add: to_valid.simps ascii_def)
qed (simp add: to_valid.simps)

lemma decode_members_exact:
  "\<forall>(x, v) \<in> set ms. x \<in> set names \<Longrightarrow>
   decode_members names (map (\<lambda>(x, v). (x, JStr (g v))) ms) f = Some (fold (\<lambda>(x, v) h. h(x := g v)) ms f)"
  by (induction ms arbitrary: f) (auto simp: find_field_def)

lemma json_struct_roundtrip:
  assumes "ms \<noteq> []" and "\<forall>(x, v) \<in> set ms. x \<in> set names \<and> ascii x"
  shows "\<exists>v. json_document (object_text ms) = Some v \<and> decode_struct names v = Some (fold (\<lambda>(x, v) h. h(x := to_valid v)) ms (\<lambda>_. ''''))"
proof -
  have "map (\<lambda>(x, v). (to_valid x, JStr (to_valid v))) ms = map (\<lambda>(x, v). (x, JStr (to_valid v))) ms"
    using assms(2) by (intro map_cong) auto
  then have "json_document (object_text ms) = Some (JObj (map (\<lambda>(x, v). (x, JStr (to_valid v))) ms))"
    using json_document_object [OF assms(1)] by metis
  moreover have "decode_members names (map (\<lambda>(x, v). (x, JStr (to_valid v))) ms) f = Some (fold (\<lambda>(x, v) h. h(x := to_valid v)) ms f)" for f
    using assms(2) by (intro decode_members_exact) auto
  ultimately show ?thesis
    by (simp add: decode_struct_def)
qed

end
