(* ===== verification/Server_KV.thy ===== *)
theory Server_KV
  imports Net_Chaos Go_JSON
begin

text \<open>
  The key-value server, \<open>src/server/api.go\<close>: the state machine driven by committed entries, the
  HTTP handlers around it, and the view of the whole cluster with its events. Commands travel as
  JSON text in the log entries. A handler is split at its calls into the node, because the node
  may change between them; the client of \<open>net/http\<close> that reaches other servers is an argument.
\<close>

section \<open>Requests and responses\<close>

record http_request =
  rq_Method :: string
  rq_URI :: string
  rq_Path :: string
  rq_Header :: "(string \<times> string) list"
  rq_Body :: string

record http_response =
  rs_Status :: nat
  rs_Header :: "(string \<times> string) list"
  rs_Body :: string

record http_client =
  hc_new :: "string \<Rightarrow> error option"
  hc_do :: "http_request \<Rightarrow> http_response result"

text \<open>
  \<open>hc_new\<close> is the error of building a request for a URL, \<open>hc_do\<close> the exchange; an outgoing
  request carries the whole URL in \<open>rq_URI\<close>.
\<close>

definition http_Error :: "string \<Rightarrow> nat \<Rightarrow> http_response" where
  "http_Error msg code =
     \<lparr>rs_Status = code, rs_Header = [(''Content-Type'', ''text/plain; charset=utf-8''), (''X-Content-Type-Options'', ''nosniff'')],
      rs_Body = msg @ [CHR 0x0A]\<rparr>"

definition write_json :: "string \<Rightarrow> http_response" where
  "write_json text = \<lparr>rs_Status = 200, rs_Header = [(''Content-Type'', ''application/json'')], rs_Body = text @ [CHR 0x0A]\<rparr>"

definition write_ok :: http_response where
  "write_ok = \<lparr>rs_Status = 200, rs_Header = [], rs_Body = []\<rparr>"

section \<open>The state machine\<close>

record Command =
  cmd_Op :: string
  cmd_Key :: string
  cmd_Value :: string

definition marshal_command :: "Command \<Rightarrow> byte list" where
  "marshal_command cmd = bytes_of_string (object_text
     ([(''op'', cmd_Op cmd), (''key'', cmd_Key cmd)] @ (if cmd_Value cmd = '''' then [] else [(''value'', cmd_Value cmd)])))"

definition unmarshal_command :: "byte list \<Rightarrow> Command option" where
  "unmarshal_command data =
     (case json_document (string_of_bytes data) of
        None \<Rightarrow> None
      | Some v \<Rightarrow> map_option (\<lambda>f. \<lparr>cmd_Op = f ''op'', cmd_Key = f ''key'', cmd_Value = f ''value''\<rparr>)
                   (decode_struct [''op'', ''key'', ''value''] v))"

text \<open>\<open>kv_total\<close> is the metric \<open>LogEntriesTotal\<close>, absent when the server has no metrics.\<close>

record KVStore =
  kv_data :: "string \<rightharpoonup> string"
  kv_httpPeers :: "(string \<times> string) list"
  kv_total :: "nat option"

definition NewKVStore :: "(string \<times> string) list \<Rightarrow> bool \<Rightarrow> KVStore" where
  "NewKVStore httpPeers m = \<lparr>kv_data = Map.empty, kv_httpPeers = httpPeers, kv_total = (if m then Some 0 else None)\<rparr>"

definition kv_apply :: "LogEntry \<Rightarrow> KVStore \<Rightarrow> KVStore" where
  "kv_apply entry kv =
     (case unmarshal_command (le_Data entry) of
        None \<Rightarrow> kv
      | Some cmd \<Rightarrow>
          if cmd_Op cmd = ''put'' then
            kv\<lparr>kv_data := (kv_data kv)(cmd_Key cmd \<mapsto> cmd_Value cmd), kv_total := map_option Suc (kv_total kv)\<rparr>
          else if cmd_Op cmd = ''delete'' then
            kv\<lparr>kv_data := (kv_data kv)(cmd_Key cmd := None), kv_total := map_option Suc (kv_total kv)\<rparr>
          else kv)"

text \<open>One round of the apply loop: the next entry of the channel, if there is one.\<close>

definition applyLoop_step :: "RaftNode \<Rightarrow> KVStore \<Rightarrow> (RaftNode \<times> KVStore) option" where
  "applyLoop_step n kv =
     (case commitCh n of [] \<Rightarrow> None | entry # es \<Rightarrow> Some (n\<lparr>commitCh := es\<rparr>, kv_apply entry kv))"

section \<open>Handlers\<close>

definition proxyToLeader :: "http_client \<Rightarrow> RaftNode \<Rightarrow> http_request \<Rightarrow> KVStore \<Rightarrow> http_response" where
  "proxyToLeader hc n r kv =
     (let leader = LeaderID n in
      if leader = '''' then http_Error ''no leader elected'' 503
      else (case map_of (kv_httpPeers kv) leader of
              None \<Rightarrow> http_Error (''leader '' @ leader @ '' address unknown'') 503
            | Some addr \<Rightarrow>
                let target = ''http://'' @ addr @ rq_URI r in
                (case hc_new hc target of
                   Some err \<Rightarrow> http_Error (''proxy error: '' @ err) 500
                 | None \<Rightarrow>
                     (case hc_do hc (r\<lparr>rq_URI := target\<rparr>) of
                        Inl err \<Rightarrow> http_Error (''proxy to leader failed: '' @ err) 502
                      | Inr resp \<Rightarrow> resp))))"

text \<open>
  The decoder reads the body in blocks: besides the value it takes \<open>ahead\<close> bytes that follow it,
  and only the rest is left in the body.
\<close>

definition HandlePut_begin :: "http_client \<Rightarrow> nat \<Rightarrow> RaftNode \<Rightarrow> http_request \<Rightarrow> KVStore \<Rightarrow> http_response + (byte list \<times> http_request)" where
  "HandlePut_begin hc ahead n r kv =
     (if \<not> IsLeader n then Inl (proxyToLeader hc n r kv)
      else let key = TrimPrefix (rq_Path r) ''/keys/'' in
        if key = '''' then Inl (http_Error ''key required'' 400)
        else (case json_value (rq_Body r) of
                None \<Rightarrow> Inl (http_Error ''invalid JSON body'' 400)
              | Some (v, unread) \<Rightarrow>
                  (case decode_struct [''value''] v of
                     None \<Rightarrow> Inl (http_Error ''invalid JSON body'' 400)
                   | Some body \<Rightarrow>
                       Inr (marshal_command \<lparr>cmd_Op = ''put'', cmd_Key = key, cmd_Value = body ''value''\<rparr>,
                            r\<lparr>rq_Body := drop ahead unread\<rparr>))))"

definition HandleDelete_begin :: "http_client \<Rightarrow> RaftNode \<Rightarrow> http_request \<Rightarrow> KVStore \<Rightarrow> http_response + (byte list \<times> http_request)" where
  "HandleDelete_begin hc n r kv =
     (if \<not> IsLeader n then Inl (proxyToLeader hc n r kv)
      else let key = TrimPrefix (rq_Path r) ''/keys/'' in
        if key = '''' then Inl (http_Error ''key required'' 400)
        else Inr (marshal_command \<lparr>cmd_Op = ''delete'', cmd_Key = key, cmd_Value = ''''\<rparr>, r))"

text \<open>What both handlers do with the outcome of \<open>Propose\<close>, immediate or awaited.\<close>

definition propose_reply :: "http_client \<Rightarrow> RaftNode \<Rightarrow> http_request \<Rightarrow> KVStore \<Rightarrow> error option \<Rightarrow> http_response" where
  "propose_reply hc n r kv res =
     (case res of
        None \<Rightarrow> write_ok
      | Some err \<Rightarrow> if Contains err ''not leader'' then proxyToLeader hc n r kv else http_Error err 500)"

text \<open>The call of \<open>Propose\<close>: a refusal is answered at once, otherwise the handler waits on the channel.\<close>

definition handler_propose :: "http_client \<Rightarrow> byte list \<Rightarrow> http_request \<Rightarrow> KVStore \<Rightarrow> RaftNode \<Rightarrow> RaftNode \<times> (http_response + nat)" where
  "handler_propose hc cmd r kv n =
     (case Propose cmd n of
        (n', Inl err) \<Rightarrow> (n', Inl (propose_reply hc n' r kv (Some err)))
      | (n', Inr (index, tm, ch)) \<Rightarrow> (n', Inr ch))"

definition handler_finish :: "http_client \<Rightarrow> nat \<Rightarrow> http_request \<Rightarrow> KVStore \<Rightarrow> RaftNode \<Rightarrow> http_response list" where
  "handler_finish hc ch r kv n = map (propose_reply hc n r kv) (Propose_wait ch n)"

definition HandleGet :: "http_client \<Rightarrow> RaftNode \<Rightarrow> http_request \<Rightarrow> KVStore \<Rightarrow> http_response" where
  "HandleGet hc n r kv =
     (if \<not> IsLeader n then proxyToLeader hc n r kv
      else let key = TrimPrefix (rq_Path r) ''/keys/'' in
        if key = '''' then http_Error ''key required'' 400
        else (case kv_data kv key of
                None \<Rightarrow> http_Error ''key not found'' 404
              | Some value \<Rightarrow> write_json (object_text [(''key'', key), (''value'', value)])))"

section \<open>The view of the cluster\<close>

record nodeView =
  nv_ID :: string
  nv_State :: string
  nv_Term :: u64
  nv_LeaderID :: string
  nv_CommitIndex :: u64
  nv_LastApplied :: u64
  nv_Reachable :: bool

record clusterView =
  cv_Nodes :: "nodeView list"
  cv_LeaderID :: string
  cv_Term :: u64
  cv_Timestamp :: int

definition local_view :: "NodeStatus \<Rightarrow> nodeView" where
  "local_view s = \<lparr>nv_ID = ns_ID s, nv_State = NodeState_String (ns_State s), nv_Term = ns_Term s, nv_LeaderID = ns_LeaderID s,
     nv_CommitIndex = ns_CommitIndex s, nv_LastApplied = ns_LastApplied s, nv_Reachable = True\<rparr>"

definition down_view :: "string \<Rightarrow> nodeView" where
  "down_view i = \<lparr>nv_ID = i, nv_State = ''Down'', nv_Term = 0, nv_LeaderID = '''', nv_CommitIndex = 0, nv_LastApplied = 0,
     nv_Reachable = False\<rparr>"

text \<open>
  \<open>fetch\<close> is the exchange with \<open>/status\<close> of an address, \<open>None\<close> when the request fails or its
  answer does not decode.
\<close>

definition fetchNodeStatus :: "(string \<Rightarrow> nodeView option) \<Rightarrow> string \<Rightarrow> string \<Rightarrow> nodeView" where
  "fetchNodeStatus fetch i addr =
     (case fetch (''http://'' @ addr @ ''/status'') of None \<Rightarrow> down_view i | Some raw \<Rightarrow> raw\<lparr>nv_Reachable := True\<rparr>)"

definition snapshot_step :: "nodeView \<Rightarrow> clusterView \<Rightarrow> clusterView" where
  "snapshot_step n snap =
     (let s1 = (if nv_State n = ''Leader'' then snap\<lparr>cv_LeaderID := nv_ID n\<rparr> else snap)
      in if nv_Term n > cv_Term s1 then s1\<lparr>cv_Term := nv_Term n\<rparr> else s1)"

definition fetchClusterSnapshot :: "(string \<Rightarrow> nodeView option) \<Rightarrow> int \<Rightarrow> RaftNode \<Rightarrow> KVStore \<Rightarrow> clusterView" where
  "fetchClusterSnapshot fetch ts n kv =
     (let status = Status n;
          views = sort_key nv_ID (map (\<lambda>i. if i = ns_ID status then local_view status
                     else fetchNodeStatus fetch i (case map_of (kv_httpPeers kv) i of Some a \<Rightarrow> a | None \<Rightarrow> '''')) (sorted_keys (kv_httpPeers kv)))
      in fold snapshot_step views \<lparr>cv_Nodes = views, cv_LeaderID = '''', cv_Term = 0, cv_Timestamp = ts\<rparr>)"

text \<open>The status and the snapshot as JSON, and the dispatch on the method of a request for a key.\<close>

definition num :: "u64 \<Rightarrow> json" where
  "num x = JNum (decimal (unat x))"

definition HandleStatus :: "RaftNode \<Rightarrow> http_response" where
  "HandleStatus n =
     (let s = Status n in
      write_json (json_text (JObj [(''commit_index'', num (ns_CommitIndex s)), (''id'', JStr (ns_ID s)),
        (''last_applied'', num (ns_LastApplied s)), (''leader_id'', JStr (ns_LeaderID s)),
        (''state'', JStr (NodeState_String (ns_State s))), (''term'', num (ns_Term s))])))"

definition view_json :: "nodeView \<Rightarrow> json" where
  "view_json v = JObj [(''id'', JStr (nv_ID v)), (''state'', JStr (nv_State v)), (''term'', num (nv_Term v)),
     (''leader_id'', JStr (nv_LeaderID v)), (''commit_index'', num (nv_CommitIndex v)), (''last_applied'', num (nv_LastApplied v)),
     (''reachable'', JBool (nv_Reachable v))]"

definition cluster_json :: "clusterView \<Rightarrow> json" where
  "cluster_json snap = JObj [(''nodes'', JArr (map view_json (cv_Nodes snap))), (''leader_id'', JStr (cv_LeaderID snap)),
     (''term'', num (cv_Term snap)), (''timestamp'', JNum (itoa (cv_Timestamp snap)))]"

definition HandleCluster :: "(string \<Rightarrow> nodeView option) \<Rightarrow> int \<Rightarrow> RaftNode \<Rightarrow> KVStore \<Rightarrow> http_response" where
  "HandleCluster fetch ts n kv = write_json (json_text (cluster_json (fetchClusterSnapshot fetch ts n kv)))"

datatype key_route = RouteGet | RoutePut | RouteDelete | RouteReply http_response

definition route_keys :: "http_request \<Rightarrow> key_route" where
  "route_keys r =
     (if rq_Method r = ''GET'' then RouteGet
      else if rq_Method r = ''PUT'' then RoutePut
      else if rq_Method r = ''DELETE'' then RouteDelete
      else RouteReply (http_Error ''method not allowed'' 405))"

text \<open>The events between two snapshots, in the order in which they are sent.\<close>

datatype kv_event =
    EvStatus clusterView
  | EvLeaderChange string string
  | EvTermChange u64 u64
  | EvNodeDown string
  | EvNodeUp string

fun last_view :: "nodeView list \<Rightarrow> string \<Rightarrow> nodeView option" where
  "last_view [] i = None"
| "last_view (v # vs) i = (case last_view vs i of Some w \<Rightarrow> Some w | None \<Rightarrow> if nv_ID v = i then Some v else None)"

definition node_events :: "nodeView list \<Rightarrow> nodeView \<Rightarrow> kv_event list" where
  "node_events prev n =
     (case last_view prev (nv_ID n) of
        None \<Rightarrow> []
      | Some p \<Rightarrow>
          (if nv_Reachable p \<and> \<not> nv_Reachable n then [EvNodeDown (nv_ID n)] else []) @
          (if \<not> nv_Reachable p \<and> nv_Reachable n then [EvNodeUp (nv_ID n)] else []))"

definition tick_events :: "clusterView \<Rightarrow> clusterView \<Rightarrow> kv_event list" where
  "tick_events old cur =
     [EvStatus cur] @
     (if cv_LeaderID cur \<noteq> cv_LeaderID old \<and> cv_LeaderID cur \<noteq> '''' then [EvLeaderChange (cv_LeaderID old) (cv_LeaderID cur)] else []) @
     (if cv_Term cur > cv_Term old then [EvTermChange (cv_Term old) (cv_Term cur)] else []) @
     concat (map (node_events (cv_Nodes old)) (cv_Nodes cur))"

text \<open>The stream for the snapshots of successive ticks.\<close>

fun HandleEvents_loop :: "clusterView \<Rightarrow> clusterView list \<Rightarrow> kv_event list" where
  "HandleEvents_loop old [] = []"
| "HandleEvents_loop old (cur # snaps) = tick_events old cur @ HandleEvents_loop cur snaps"

definition HandleEvents :: "clusterView \<Rightarrow> clusterView list \<Rightarrow> kv_event list" where
  "HandleEvents first_snap snaps = EvStatus first_snap # HandleEvents_loop first_snap snaps"

section \<open>Commands survive the log\<close>

lemma ascii_names: "ascii ''op''" "ascii ''key''" "ascii ''value''"
  by (simp_all add: ascii_def)

lemma unmarshal_marshal:
  "unmarshal_command (marshal_command cmd) =
     Some \<lparr>cmd_Op = to_valid (cmd_Op cmd), cmd_Key = to_valid (cmd_Key cmd), cmd_Value = to_valid (cmd_Value cmd)\<rparr>"
proof -
  let ?ms = "[(''op'', cmd_Op cmd), (''key'', cmd_Key cmd)] @ (if cmd_Value cmd = '''' then [] else [(''value'', cmd_Value cmd)])"
  have "?ms \<noteq> []" "\<forall>(x, v) \<in> set ?ms. x \<in> set [''op'', ''key'', ''value''] \<and> ascii x"
    by (simp_all add: ascii_names)
  from json_struct_roundtrip [OF this] obtain v where
    "json_document (object_text ?ms) = Some v"
    "decode_struct [''op'', ''key'', ''value''] v = Some (fold (\<lambda>(x, v) h. h(x := to_valid v)) ?ms (\<lambda>_. ''''))"
    by blast
  then show ?thesis
    by (simp add: unmarshal_command_def marshal_command_def to_valid.simps)
qed

text \<open>The abstract state machine: a map driven by put and delete.\<close>

datatype kv_op = Put string string | Delete string | Skip

fun kv_run :: "kv_op \<Rightarrow> (string \<rightharpoonup> string) \<Rightarrow> (string \<rightharpoonup> string)" where
  "kv_run (Put k v) m = m(k \<mapsto> v)"
| "kv_run (Delete k) m = m(k := None)"
| "kv_run Skip m = m"

definition op_of :: "LogEntry \<Rightarrow> kv_op" where
  "op_of entry =
     (case unmarshal_command (le_Data entry) of
        None \<Rightarrow> Skip
      | Some cmd \<Rightarrow> if cmd_Op cmd = ''put'' then Put (cmd_Key cmd) (cmd_Value cmd)
                    else if cmd_Op cmd = ''delete'' then Delete (cmd_Key cmd) else Skip)"

lemma kv_apply_run: "kv_data (kv_apply entry kv) = kv_run (op_of entry) (kv_data kv)"
  by (simp add: kv_apply_def op_of_def split: option.split)

lemma kv_apply_frame [simp]: "kv_httpPeers (kv_apply entry kv) = kv_httpPeers kv"
  by (simp add: kv_apply_def split: option.split)

text \<open>
  What a replicated state machine owes its clients: each committed entry acts on the abstract
  state as one operation, so a replica's state is a function of the entries it was given.
\<close>

locale replicated_machine =
  fixes step :: "'e \<Rightarrow> 's \<Rightarrow> 's" and abs :: "'s \<Rightarrow> 'a" and op :: "'e \<Rightarrow> 'o" and run :: "'o \<Rightarrow> 'a \<Rightarrow> 'a"
  assumes step_abs: "abs (step e s) = run (op e) (abs s)"
begin

lemma fold_abs: "abs (fold step es s) = fold run (map op es) (abs s)"
  by (induction es arbitrary: s) (simp_all add: step_abs)

lemma replicas_agree: "abs s = abs s' \<Longrightarrow> abs (fold step es s) = abs (fold step es s')"
  by (simp add: fold_abs)

end

interpretation kv_machine: replicated_machine kv_apply kv_data op_of kv_run
  by unfold_locales (rule kv_apply_run)

text \<open>The last operation on a key decides.\<close>

fun op_key :: "kv_op \<Rightarrow> string option" where
  "op_key (Put k v) = Some k"
| "op_key (Delete k) = Some k"
| "op_key Skip = None"

fun op_value :: "kv_op \<Rightarrow> string option" where
  "op_value (Put k v) = Some v"
| "op_value _ = None"

definition last_on :: "string \<Rightarrow> kv_op list \<Rightarrow> kv_op option" where
  "last_on k ops =
     (let xs = filter (\<lambda>x. op_key x = Some k) ops in if xs = [] then None else Some (last xs))"

lemma last_on_snoc: "last_on k (ops @ [x]) = (if op_key x = Some k then Some x else last_on k ops)"
  by (simp add: last_on_def Let_def)

lemma fold_kv_run: "fold kv_run ops m k = (case last_on k ops of None \<Rightarrow> m k | Some x \<Rightarrow> op_value x)"
proof (induction ops rule: rev_induct)
  case Nil
  then show ?case by (simp add: last_on_def)
next
  case (snoc x ops)
  then show ?case
    by (cases x) (auto simp: last_on_snoc split: option.split)
qed

lemma op_of_command:
  assumes "le_Data entry = marshal_command \<lparr>cmd_Op = o1, cmd_Key = k, cmd_Value = v\<rparr>"
  shows "o1 = ''put'' \<Longrightarrow> op_of entry = Put (to_valid k) (to_valid v)"
    and "o1 = ''delete'' \<Longrightarrow> op_of entry = Delete (to_valid k)"
proof -
  have "ascii ''put''" "ascii ''delete''"
    by (simp_all add: ascii_def)
  then show "o1 = ''put'' \<Longrightarrow> op_of entry = Put (to_valid k) (to_valid v)" "o1 = ''delete'' \<Longrightarrow> op_of entry = Delete (to_valid k)"
    by (simp_all add: op_of_def assms unmarshal_marshal)
qed

text \<open>A put at a leader, from the request to the entry of the log, and the answer of a get once an entry is applied.\<close>

lemma put_served:
  assumes "node_durable n" and "node_log_ok n" and "state n = Leader" and "rq_Path r = ''/keys/'' @ key" and "key \<noteq> ''''"
    and "json_value (rq_Body r) = Some (v, unread)" and "decode_struct [''value''] v = Some f"
    and "length (marshal_command \<lparr>cmd_Op = ''put'', cmd_Key = key, cmd_Value = f ''value''\<rparr>) < 2 ^ 32 - 22"
  shows "\<exists>cmd r' n' entry. HandlePut_begin hc ahead n r kv = Inr (cmd, r') \<and> handler_propose hc cmd r' kv n = (n', Inr (next_ch n)) \<and>
    entries (RaftNode.log n') = entries (RaftNode.log n) @ [entry] \<and>
    le_Data entry = marshal_command \<lparr>cmd_Op = ''put'', cmd_Key = key, cmd_Value = f ''value''\<rparr>"
proof -
  let ?cmd = "marshal_command \<lparr>cmd_Op = ''put'', cmd_Key = key, cmd_Value = f ''value''\<rparr>"
  obtain n' where n': "Propose ?cmd n = (n', Inr (LastIndex (RaftNode.log n) + 1, currentTerm n, next_ch n))"
      "entries (RaftNode.log n') = entries (RaftNode.log n) @ [\<lparr>le_Index = LastIndex (RaftNode.log n) + 1, le_Term = currentTerm n,
           le_Type = EntryNormal, le_Data = ?cmd\<rparr>]"
    using Propose_durable [OF assms(1-3,8)] by blast
  have key: "TrimPrefix (rq_Path r) ''/keys/'' = key"
    by (simp only: assms(4) TrimPrefix_append)
  have "HandlePut_begin hc ahead n r kv = Inr (?cmd, r\<lparr>rq_Body := drop ahead unread\<rparr>)"
    unfolding HandlePut_begin_def key using assms(3,5-7) by (simp add: IsLeader_def)
  then show ?thesis
    using n' by (auto simp: handler_propose_def)
qed

lemma get_applied:
  assumes "le_Data entry = marshal_command \<lparr>cmd_Op = ''put'', cmd_Key = key, cmd_Value = v\<rparr>" and "key \<noteq> ''''" and "to_valid key = key"
    and "state m = Leader" and "rq_Path r = ''/keys/'' @ key"
  shows "HandleGet hc m r (kv_apply entry kv) = write_json (object_text [(''key'', key), (''value'', to_valid v)])"
proof -
  have "TrimPrefix (rq_Path r) ''/keys/'' = key"
    by (simp only: assms(5) TrimPrefix_append)
  then show ?thesis
    using assms(2-4) by (simp add: HandleGet_def IsLeader_def kv_apply_run op_of_command [OF assms(1)])
qed

section \<open>Properties of the key-value server\<close>


text \<open>
  Commands survive the way through the log: the entry that holds the JSON text of a put or
  delete acts on the store as exactly that command, for every key and value, up to the
  replacement of bytes that are not UTF-8.
\<close>

theorem command_roundtrip:
  "kv_data (kv_apply \<lparr>le_Index = i, le_Term = t, le_Type = ty,
       le_Data = marshal_command \<lparr>cmd_Op = ''put'', cmd_Key = k, cmd_Value = v\<rparr>\<rparr> kv) = (kv_data kv)(to_valid k \<mapsto> to_valid v) \<and>
   kv_data (kv_apply \<lparr>le_Index = i, le_Term = t, le_Type = ty,
       le_Data = marshal_command \<lparr>cmd_Op = ''delete'', cmd_Key = k, cmd_Value = ''''\<rparr>\<rparr> kv) = (kv_data kv)(to_valid k := None)"
  by (simp add: kv_apply_run op_of_command)

text \<open>
  A write through the server. On a leader a PUT whose body decodes is proposed as the next
  entry of the log; once that entry is applied, a GET of the same key at a leader answers 200
  with the written value.
\<close>

theorem put_then_get:
  assumes "node_durable n" and "node_log_ok n" and "state n = Leader"
    and "rq_Path r = ''/keys/'' @ key" and "key \<noteq> ''''" and "to_valid key = key"
    and "json_value (rq_Body r) = Some (v, unread)" and "decode_struct [''value''] v = Some f"
    and "length (marshal_command \<lparr>cmd_Op = ''put'', cmd_Key = key, cmd_Value = f ''value''\<rparr>) < 2 ^ 32 - 22"
  shows "\<exists>cmd r' n' entry. HandlePut_begin hc ahead n r kv = Inr (cmd, r') \<and> handler_propose hc cmd r' kv n = (n', Inr (next_ch n)) \<and>
    entries (RaftNode.log n') = entries (RaftNode.log n) @ [entry] \<and>
    (\<forall>kv' m r2. state m = Leader \<and> rq_Path r2 = ''/keys/'' @ key \<longrightarrow>
       HandleGet hc m r2 (kv_apply entry kv') = write_json (object_text [(''key'', key), (''value'', to_valid (f ''value''))]))"
proof -
  obtain cmd r' n' entry where "HandlePut_begin hc ahead n r kv = Inr (cmd, r')" "handler_propose hc cmd r' kv n = (n', Inr (next_ch n))"
      "entries (RaftNode.log n') = entries (RaftNode.log n) @ [entry]"
      "le_Data entry = marshal_command \<lparr>cmd_Op = ''put'', cmd_Key = key, cmd_Value = f ''value''\<rparr>"
    using put_served [OF assms(1-5,7-9), where hc = hc and ahead = ahead and kv = kv] by blast
  with get_applied [OF _ assms(5,6)] show ?thesis by blast
qed

definition sample_put :: http_request where
  "sample_put = \<lparr>rq_Method = ''PUT'', rq_URI = ''/keys/x'', rq_Path = ''/keys/x'', rq_Header = [],
     rq_Body = object_text [(''value'', ''1'')]\<rparr>"

definition sample_client :: "http_response \<Rightarrow> http_client" where
  "sample_client resp = \<lparr>hc_new = (\<lambda>_. None), hc_do = (\<lambda>_. Inr resp)\<rparr>"

lemma sample_put_body:
  "json_value (rq_Body sample_put) = Some (JObj [(''value'', JStr ''1'')], [])"
  "decode_struct [''value''] (JObj [(''value'', JStr ''1'')]) = Some ((\<lambda>_. '''')(''value'' := ''1''))"
  using json_value_object [of "[(''value'', ''1'')]" "[]"]
  by (simp_all add: sample_put_def decode_struct_def find_field_def ascii_def)

theorem put_then_get_witness:
  "\<exists>n cmd r' n' entry. HandlePut_begin (sample_client write_ok) 0 n sample_put (NewKVStore [] True) = Inr (cmd, r') \<and>
     handler_propose (sample_client write_ok) cmd r' (NewKVStore [] True) n = (n', Inr (next_ch n)) \<and>
     entries (RaftNode.log n') = entries (RaftNode.log n) @ [entry] \<and>
     HandleGet (sample_client write_ok) n sample_put (kv_apply entry (NewKVStore [] True)) =
       write_json (object_text [(''key'', ''x''), (''value'', ''1'')])"
proof -
  obtain n :: RaftNode where n: "node_durable n" "node_log_ok n" "state n = Leader"
    by (rule sample_leader) blast
  have path: "rq_Path sample_put = ''/keys/'' @ ''x''" and key: "''x'' \<noteq> ''''" "to_valid ''x'' = ''x''" and one: "to_valid ''1'' = ''1''"
    by (simp_all add: sample_put_def ascii_def)
  let ?f = "(\<lambda>_. '''')(''value'' := ''1'')"
  have len: "length (marshal_command \<lparr>cmd_Op = ''put'', cmd_Key = ''x'', cmd_Value = ?f ''value''\<rparr>) < 2 ^ 32 - 22"
    by (simp add: marshal_command_def bytes_of_string_def object_text_def json_quote_def quote_body.simps Let_def rune_len.simps
        cont_def quote_ascii_def)
  from put_then_get [OF n path key sample_put_body len, of "sample_client write_ok" 0 "NewKVStore [] True"] n(3) path one
  show ?thesis by fastforce
qed

text \<open>
  C34. A PUT that is forwarded after it was decoded loses its body. When the node stops being
  leader between the check at the start of the handler and \<open>Propose\<close>, the request is forwarded
  although the decoder has already taken the JSON value from it, and the new leader answers 400
  to a request that was in order.
\<close>

theorem forwarded_put_loses_body:
  assumes "HandlePut_begin hc ahead n r kv = Inr (cmd, r')" and "json_value (rq_Body r) = Some (v, unread)"
    and "skip_ws (drop ahead unread) = []" and "state n' \<noteq> Leader" and "leaderID n' \<noteq> ''''"
    and "map_of (kv_httpPeers kv) (leaderID n') = Some addr" and "hc_new hc (''http://'' @ addr @ rq_URI r) = None"
    and "TrimPrefix (rq_Path r) ''/keys/'' \<noteq> ''''"
  shows "\<exists>fwd. handler_propose hc cmd r' kv n' =
       (n', Inl (case hc_do hc fwd of Inl err \<Rightarrow> http_Error (''proxy to leader failed: '' @ err) 502 | Inr resp \<Rightarrow> resp)) \<and>
     rq_Path fwd = rq_Path r \<and>
     (\<forall>hc2 a2 m kv2. state m = Leader \<longrightarrow> HandlePut_begin hc2 a2 m fwd kv2 = Inl (http_Error ''invalid JSON body'' 400))"
proof -
  have r': "r' = r\<lparr>rq_Body := drop ahead unread\<rparr>"
    using assms(1,2) by (auto simp: HandlePut_begin_def Let_def split: if_splits option.splits)
  let ?fwd = "r'\<lparr>rq_URI := ''http://'' @ addr @ rq_URI r\<rparr>"
  have "handler_propose hc cmd r' kv n' = (n', Inl (proxyToLeader hc n' r' kv))"
    using assms(4) by (simp add: handler_propose_def Propose_def propose_reply_def)
  moreover have "proxyToLeader hc n' r' kv =
      (case hc_do hc ?fwd of Inl err \<Rightarrow> http_Error (''proxy to leader failed: '' @ err) 502 | Inr resp \<Rightarrow> resp)"
    using assms(5-7) by (simp add: proxyToLeader_def LeaderID_def r' Let_def)
  moreover have "json_value (drop ahead unread) = None"
    using assms(3) by (simp add: json_value_def)
  then have "HandlePut_begin hc2 a2 m ?fwd kv2 = Inl (http_Error ''invalid JSON body'' 400)" if "state m = Leader" for hc2 a2 m kv2
    using that assms(8) by (simp add: HandlePut_begin_def IsLeader_def r' Let_def)
  ultimately show ?thesis
    by (intro exI [of _ ?fwd]) (simp add: r')
qed

theorem forwarded_put_loses_body_witness:
  "\<exists>n n' cmd r' fwd. HandlePut_begin (sample_client write_ok) 0 n sample_put (NewKVStore [(''b'', '':8002'')] True) = Inr (cmd, r') \<and>
     snd (handler_propose (sample_client write_ok) cmd r' (NewKVStore [(''b'', '':8002'')] True) n') = Inl write_ok \<and>
     HandlePut_begin (sample_client write_ok) 0 n fwd (NewKVStore [] True) = Inl (http_Error ''invalid JSON body'' 400)"
proof -
  obtain n :: RaftNode where n: "node_durable n" "node_log_ok n" "state n = Leader"
    by (rule sample_leader) blast
  let ?kv = "NewKVStore [(''b'', '':8002'')] True" and ?n' = "n\<lparr>state := Follower, leaderID := ''b''\<rparr>"
  have key: "TrimPrefix (rq_Path sample_put) ''/keys/'' = ''x''"
    by (simp add: sample_put_def TrimPrefix_def)
  have start: "HandlePut_begin (sample_client write_ok) 0 n sample_put ?kv =
      Inr (marshal_command \<lparr>cmd_Op = ''put'', cmd_Key = ''x'', cmd_Value = ''1''\<rparr>, sample_put\<lparr>rq_Body := []\<rparr>)"
    unfolding HandlePut_begin_def key sample_put_body using n(3) by (simp add: IsLeader_def sample_put_body)
  have ws: "skip_ws (drop 0 []) = []" and follower: "state ?n' \<noteq> Leader" "leaderID ?n' \<noteq> ''''"
    and addr: "map_of (kv_httpPeers ?kv) (leaderID ?n') = Some '':8002''"
    and ok: "hc_new (sample_client write_ok) (''http://'' @ '':8002'' @ rq_URI sample_put) = None"
    and ne: "TrimPrefix (rq_Path sample_put) ''/keys/'' \<noteq> ''''"
    by (simp_all add: skip_ws_def NewKVStore_def sample_client_def key)
  from forwarded_put_loses_body [OF start sample_put_body(1) ws follower addr ok ne] n(3) start show ?thesis
    unfolding sample_client_def by (metis (no_types, lifting) http_client.select_convs(2) old.sum.simps(6) snd_conv)
qed

text \<open>
  C22. Duplicate delivery loses an update. Two goroutines run \<open>applyCommitted\<close>, one started when
  one entry was committed and one when the next was; if the first sends last, the older write is
  applied after the newer one and stays, although the log orders them the other way.
\<close>

theorem duplicate_delivery_loses_update:
  assumes "log_ok (RaftNode.log n)" and "unat (commitIndex (RaftNode.log n)) = Suc a" and "unat (lastApplied (RaftNode.log n)) = a"
    and "Suc (Suc a) < length (entries (RaftNode.log n))"
    and "op_of (entries (RaftNode.log n) ! Suc a) = Put k v1" and "op_of (entries (RaftNode.log n) ! Suc (Suc a)) = Put k v2"
    and "commitCh n = []"
  shows "\<exists>l e1 e2. CommitTo (commitIndex (RaftNode.log n) + 1) (RaftNode.log n) = Inr l \<and>
     apply_collect n = [e1] \<and> apply_collect (n\<lparr>RaftNode.log := l\<rparr>) = [e1, e2] \<and>
     (let late = apply_send e1 (apply_mark e2 (apply_send e2 (apply_mark e1 (apply_send e1 (n\<lparr>RaftNode.log := l\<rparr>)))))
      in commitCh late = [e1, e2, e1] \<and> kv_data (fold kv_apply (commitCh late) kv) k = Some v1 \<and>
         kv_data (fold kv_apply [e1, e2] kv) k = Some v2)"
proof -
  let ?L = "RaftNode.log n" and ?es = "entries (RaftNode.log n)"
  let ?l = "?L\<lparr>commitIndex := commitIndex ?L + 1\<rparr>"
  have len: "length ?es < 2 ^ 64"
    using assms(1) by (auto simp: log_ok_def)
  have up: "unat (commitIndex ?L + 1) = Suc (Suc a)"
    using assms(2,4) len by (subst unat_u64_Suc) (auto simp: unsigned_minus_1_eq_mask mask_eq_exp_minus_1)
  have to: "CommitTo (commitIndex ?L + 1) ?L = Inr ?l"
    using up assms(2,4) by (simp add: CommitTo_def u64_less_iff)
  have "log_ok ?l"
    using assms(1,3,4) up by (simp add: log_ok_def u64_le_iff)
  then have "apply_collect (n\<lparr>RaftNode.log := ?l\<rparr>) = drop (Suc a) (take (Suc (Suc (Suc a))) ?es)"
    using apply_collect_eq [of "n\<lparr>RaftNode.log := ?l\<rparr>"] up assms(3) by simp
  then have two: "apply_collect (n\<lparr>RaftNode.log := ?l\<rparr>) = [?es ! Suc a, ?es ! Suc (Suc a)]"
    using assms(4) by (simp add: take_Suc_conv_app_nth)
  have "apply_collect n = drop (Suc a) (take (Suc (Suc a)) ?es)"
    using apply_collect_eq [OF assms(1)] assms(2,3) by simp
  then have one: "apply_collect n = [?es ! Suc a]"
    using assms(4) by (simp add: take_Suc_conv_app_nth)
  show ?thesis
    using to one two assms(5-7)
    by (intro exI [of _ ?l] exI [of _ "?es ! Suc a"] exI [of _ "?es ! Suc (Suc a)"])
      (simp add: Let_def apply_send_def apply_mark_def kv_apply_run notifyProposal_def split: option.split)
qed

definition sample_put_entry :: "u64 \<Rightarrow> string \<Rightarrow> LogEntry" where
  "sample_put_entry i v = \<lparr>le_Index = i, le_Term = 1, le_Type = EntryNormal,
     le_Data = marshal_command \<lparr>cmd_Op = ''put'', cmd_Key = ''x'', cmd_Value = v\<rparr>\<rparr>"

theorem duplicate_delivery_loses_update_witness:
  "\<exists>n l e1 e2. RaftNode.log n = \<lparr>entries = [sentinel, sample_put_entry 1 ''1'', sample_put_entry 2 ''2''], commitIndex = 1, lastApplied = 0\<rparr> \<and>
     apply_collect n = [e1] \<and> apply_collect (n\<lparr>RaftNode.log := l\<rparr>) = [e1, e2] \<and>
     kv_data (fold kv_apply (commitCh (apply_send e1 (apply_mark e2 (apply_send e2 (apply_mark e1 (apply_send e1 (n\<lparr>RaftNode.log := l\<rparr>)))))))
        (NewKVStore [] True)) ''x'' = Some ''1'' \<and> kv_data (fold kv_apply [e1, e2] (NewKVStore [] True)) ''x'' = Some ''2''"
proof -
  obtain m :: RaftNode where m: "commitCh m = []"
    using boot_eq [of "[]" 0 "''''" "[]" "''a''" "[]"] by (auto simp: replay_all_def)
  let ?L = "\<lparr>entries = [sentinel, sample_put_entry 1 ''1'', sample_put_entry 2 ''2''], commitIndex = 1, lastApplied = 0\<rparr>"
  let ?n = "m\<lparr>RaftNode.log := ?L\<rparr>"
  have valid: "to_valid ''x'' = ''x''" "to_valid ''1'' = ''1''" "to_valid ''2'' = ''2''"
    by (simp_all add: ascii_def)
  have log: "log_ok (RaftNode.log ?n)" "unat (commitIndex (RaftNode.log ?n)) = Suc 0" "unat (lastApplied (RaftNode.log ?n)) = 0"
      "Suc (Suc 0) < length (entries (RaftNode.log ?n))"
    by (simp_all add: log_ok_def sentinel_def sample_put_entry_def)
  have ops: "op_of (entries (RaftNode.log ?n) ! Suc 0) = Put ''x'' ''1''" "op_of (entries (RaftNode.log ?n) ! Suc (Suc 0)) = Put ''x'' ''2''"
    using valid by (simp_all add: op_of_command(1) [OF _ refl] sample_put_entry_def)
  have ch: "commitCh ?n = []"
    using m by simp
  show ?thesis
    using duplicate_delivery_loses_update [OF log ops ch, of "NewKVStore [] True"]
    by (intro exI [of _ ?n]) (auto simp: Let_def)
qed

text \<open>
  The summary of a cluster snapshot: its term is the largest term among the nodes, and the
  leader it names is a node that reports to be leader, the one with the greatest id when several
  do, whatever their terms.
\<close>

theorem snapshot_summary:
  assumes "snap = fetchClusterSnapshot fetch ts n kv"
  shows "(\<forall>v \<in> set (cv_Nodes snap). nv_Term v \<le> cv_Term snap) \<and>
     (\<forall>v \<in> set (cv_Nodes snap). nv_State v = ''Leader'' \<longrightarrow> nv_ID v \<le> cv_LeaderID snap) \<and>
     (cv_LeaderID snap \<noteq> '''' \<longrightarrow> (\<exists>v \<in> set (cv_Nodes snap). nv_State v = ''Leader'' \<and> nv_ID v = cv_LeaderID snap))"
proof -
  have nodes: "cv_Nodes (fold snapshot_step vs s) = cv_Nodes s" for vs s
    by (induction vs arbitrary: s) (simp_all add: snapshot_step_def Let_def)
  have terms: "cv_Term s \<le> cv_Term (fold snapshot_step vs s) \<and> (\<forall>v \<in> set vs. nv_Term v \<le> cv_Term (fold snapshot_step vs s))" for vs s
    by (induction vs rule: rev_induct) (auto simp: snapshot_step_def Let_def)
  have leader: "(\<forall>v \<in> set vs. nv_State v = ''Leader'' \<longrightarrow> nv_ID v \<le> cv_LeaderID (fold snapshot_step vs s)) \<and>
      (cv_LeaderID (fold snapshot_step vs s) = '''' \<or>
       (\<exists>v \<in> set vs. nv_State v = ''Leader'' \<and> nv_ID v = cv_LeaderID (fold snapshot_step vs s)))"
    if "sorted (map nv_ID vs)" "cv_LeaderID s = ''''" for vs s
    using that
    by (induction vs rule: rev_induct) (auto simp: snapshot_step_def Let_def sorted_append)
  let ?vs = "cv_Nodes snap"
  obtain s where s: "snap = fold snapshot_step ?vs s" "cv_LeaderID s = ''''"
    using assms nodes by (fastforce simp: fetchClusterSnapshot_def Let_def)
  have "sorted (map nv_ID ?vs)"
    using assms nodes by (simp add: fetchClusterSnapshot_def Let_def)
  from leader [OF this s(2)] terms [of s ?vs] s(1) show ?thesis
    by metis
qed

theorem snapshot_summary_witness:
  "\<exists>n :: RaftNode. \<forall>v \<in> set (cv_Nodes (fetchClusterSnapshot (\<lambda>_. None) 7 n (NewKVStore [(''a'', '':8001''), (''b'', '':8002'')] True))).
     nv_Term v \<le> cv_Term (fetchClusterSnapshot (\<lambda>_. None) 7 n (NewKVStore [(''a'', '':8001''), (''b'', '':8002'')] True))"
  using snapshot_summary [OF refl] by blast

end
