(* ===== verification/Server_Fanout.thy ===== *)
theory Server_Fanout
  imports Go_Text
begin

text \<open>
  A request that a server passes on to every server of the cluster. The code starts one goroutine
  per server and waits for all of them; each works on its own server, so they are run one after
  the other. The locale says what one such goroutine has to do, and gives what all of them have
  done in the end.
\<close>

primrec fan_run :: "(string \<Rightarrow> 'w \<Rightarrow> 'r \<times> 'w) \<Rightarrow> string list \<Rightarrow> 'w \<Rightarrow> 'r list \<times> 'w" where
  "fan_run step [] w = ([], w)"
| "fan_run step (i # ids) w = (let (r, w1) = step i w; (rs, w2) = fan_run step ids w1 in (r # rs, w2))"

locale fan_out =
  fixes step :: "string \<Rightarrow> 'w \<Rightarrow> 'r \<times> 'w"
    and up :: "'w \<Rightarrow> bool"
    and peers :: "(string \<times> string) list"
    and host :: "'w \<Rightarrow> string \<rightharpoonup> 'h"
    and act :: "string \<Rightarrow> 'h \<Rightarrow> 'h"
    and result :: "string \<Rightarrow> 'h \<Rightarrow> 'r"
  assumes up_distinct: "up w \<Longrightarrow> (i, a) \<in> set peers \<Longrightarrow> (j, b) \<in> set peers \<Longrightarrow> i = j \<longleftrightarrow> a = b"
    and up_host: "up w \<Longrightarrow> (i, a) \<in> set peers \<Longrightarrow> \<exists>h. host w a = Some h"
    and step_up: "up w \<Longrightarrow> (i, a) \<in> set peers \<Longrightarrow> up (snd (step i w))"
    and step_host: "up w \<Longrightarrow> (i, a) \<in> set peers \<Longrightarrow> host w a = Some h \<Longrightarrow> host (snd (step i w)) = (host w)(a \<mapsto> act i h)"
    and step_result: "up w \<Longrightarrow> (i, a) \<in> set peers \<Longrightarrow> host w a = Some h \<Longrightarrow> fst (step i w) = result i h"
begin

lemma run_up: "up w \<Longrightarrow> set ids \<subseteq> fst ` set peers \<Longrightarrow> up (snd (fan_run step ids w))"
proof (induction ids arbitrary: w)
  case (Cons i ids)
  then obtain a where "(i, a) \<in> set peers" by auto
  then show ?case
    using Cons step_up by (fastforce split: prod.split)
qed simp

lemma run_host:
  assumes "up w" and "distinct ids" and "set ids \<subseteq> fst ` set peers" and "(i, a) \<in> set peers" and "host w a = Some h"
  shows "host (snd (fan_run step ids w)) a = Some (if i \<in> set ids then act i h else h)"
  using assms
proof (induction ids arbitrary: w h)
  case (Cons j ids)
  obtain b where b: "(j, b) \<in> set peers"
    using Cons.prems(3) by auto
  obtain h' where h': "host w b = Some h'"
    using up_host [OF Cons.prems(1) b] by blast
  have same: "i = j \<longleftrightarrow> a = b"
    using up_distinct [OF Cons.prems(1,4) b] .
  have "host (snd (step j w)) a = Some (if i = j then act i h else h)"
    using step_host [OF Cons.prems(1) b h'] same h' Cons.prems(5) by auto
  from Cons.IH [OF step_up [OF Cons.prems(1) b] _ _ Cons.prems(4) this] Cons.prems(2,3) show ?case
    by (cases "i = j") (auto split: prod.split)
qed simp

lemma run_results:
  assumes "up w" and "distinct ids" and "set ids \<subseteq> fst ` set peers"
  shows "list_all2 (\<lambda>i r. \<forall>a h. (i, a) \<in> set peers \<and> host w a = Some h \<longrightarrow> r = result i h) ids (fst (fan_run step ids w))"
  using assms
proof (induction ids arbitrary: w)
  case (Cons j ids)
  obtain b where b: "(j, b) \<in> set peers"
    using Cons.prems(3) by auto
  obtain h' where h': "host w b = Some h'"
    using up_host [OF Cons.prems(1) b] by blast
  have keep: "host (snd (step j w)) a = host w a" if "(i, a) \<in> set peers" "i \<noteq> j" for i a
    using step_host [OF Cons.prems(1) b h'] up_distinct [OF Cons.prems(1) that(1) b] that(2) by simp
  have first: "\<forall>a h. (j, a) \<in> set peers \<and> host w a = Some h \<longrightarrow> fst (step j w) = result j h"
    using step_result [OF Cons.prems(1)] by blast
  have ne: "i \<noteq> j" if "i \<in> set ids" for i
    using that Cons.prems(2) by auto
  have "list_all2 (\<lambda>i r. \<forall>a h. (i, a) \<in> set peers \<and> host (snd (step j w)) a = Some h \<longrightarrow> r = result i h) ids
      (fst (fan_run step ids (snd (step j w))))"
    using Cons.IH [OF step_up [OF Cons.prems(1) b]] Cons.prems(2,3) by simp
  then have "list_all2 (\<lambda>i r. \<forall>a h. (i, a) \<in> set peers \<and> host w a = Some h \<longrightarrow> r = result i h) ids
      (fst (fan_run step ids (snd (step j w))))"
    by (rule list.rel_mono_strong) (use keep ne in force)
  then show ?case
    using first by (cases "step j w", cases "fan_run step ids (snd (step j w))") simp
qed simp

text \<open>Where the result of a step depends on the id alone, the results are those of the ids.\<close>

lemma run_results_const:
  assumes "up w" and "distinct ids" and "set ids \<subseteq> fst ` set peers" and "\<And>i h. result i h = f i"
  shows "fst (fan_run step ids w) = map f ids"
proof -
  have "list_all2 (\<lambda>i r. r = f i) ids (fst (fan_run step ids w))"
  proof (rule list.rel_mono_strong [OF run_results [OF assms(1-3)]])
    fix i r
    assume "i \<in> set ids" and r: "\<forall>a h. (i, a) \<in> set peers \<and> host w a = Some h \<longrightarrow> r = result i h"
    then obtain a where "(i, a) \<in> set peers" using assms(3) by auto
    with up_host [OF assms(1)] r show "r = f i" using assms(4) by metis
  qed
  then show ?thesis
    by (induction rule: list_all2_induct) auto
qed

end

end
