(* ===== verification/Server_Chaos.thy ===== *)
theory Server_Chaos
  imports Server_KV Server_Fanout
begin

text \<open>
  The HTTP control of the proxies, \<open>src/server/chaos.go\<close>: every server installs rules on its own
  proxy, and a cluster request sends each server the rules it needs. The servers of a cluster are
  one state, \<open>world\<close>, by HTTP address; \<open>w_fail\<close> is the error with which an exchange with an
  address fails, if it does. A body of a request is what its JSON decodes to: an integer arrives
  as a float64.
\<close>

section \<open>Rules on the wire\<close>

record ruleSpec =
  rsp_ID :: string
  rsp_From :: string
  rsp_To :: string
  rsp_Action :: string
  rsp_Params :: "(string \<times> param) list"

text \<open>An integer beyond the 53 bits of a float64 is rounded to the nearest even mantissa.\<close>

fun bit_len :: "nat \<Rightarrow> nat" where
  "bit_len n = (if n = 0 then 0 else Suc (bit_len (n div 2)))"

declare bit_len.simps [simp del]

definition float_of_int :: "int \<Rightarrow> rat" where
  "float_of_int v =
     (let a = \<bar>v\<bar>; k = bit_len (nat a) - 53; q = a div 2 ^ k; r = a mod 2 ^ k;
          m = (if 2 * r > 2 ^ k \<or> 2 * r = 2 ^ k \<and> odd q then q + 1 else q)
      in of_int (sgn v * (m * 2 ^ k)))"

fun wire_param :: "param \<Rightarrow> param" where
  "wire_param (PInt v) = PFloat (float_of_int v)"
| "wire_param (PFloat x) = PFloat x"
| "wire_param POther = POther"

definition wire_rule :: "ruleSpec \<Rightarrow> ruleSpec" where
  "wire_rule s = \<lparr>rsp_ID = to_valid (rsp_ID s), rsp_From = to_valid (rsp_From s), rsp_To = to_valid (rsp_To s),
     rsp_Action = to_valid (rsp_Action s), rsp_Params = map (map_prod to_valid wire_param) (rsp_Params s)\<rparr>"

definition actionFromString :: "string \<Rightarrow> ProxyAction" where
  "actionFromString s =
     (if s = ''drop'' then ActionDrop else if s = ''delay'' then ActionDelay else if s = ''loss'' then ActionLoss else ActionPass)"

definition toRuleResponses :: "ProxyRule list \<Rightarrow> ruleSpec list" where
  "toRuleResponses rs =
     map (\<lambda>r. \<lparr>rsp_ID = r_ID r, rsp_From = FromNode r, rsp_To = ToNode r, rsp_Action = ProxyAction_String (r_Action r), rsp_Params = Params r\<rparr>) rs"

section \<open>One server\<close>

record ChaosAPI =
  ca_nodeID :: string
  ca_proxy :: NetworkProxy
  ca_httpPeers :: "(string \<times> string) list"
  ca_counter :: int

definition NewChaosAPI :: "string \<Rightarrow> NetworkProxy \<Rightarrow> (string \<times> string) list \<Rightarrow> ChaosAPI" where
  "NewChaosAPI nodeID px httpPeers = \<lparr>ca_nodeID = nodeID, ca_proxy = px, ca_httpPeers = httpPeers, ca_counter = 0\<rparr>"

definition ensureID :: "string \<Rightarrow> string \<Rightarrow> ChaosAPI \<Rightarrow> string \<times> ChaosAPI" where
  "ensureID i act c =
     (if i \<noteq> '''' then (i, c)
      else let n = wrap64 (ca_counter c + 1) in (ca_nodeID c @ ''-'' @ act @ ''-'' @ itoa n, c\<lparr>ca_counter := n\<rparr>))"

fun applyLocal :: "ruleSpec list \<Rightarrow> ChaosAPI \<Rightarrow> string list \<times> ChaosAPI" where
  "applyLocal [] c = ([], c)"
| "applyLocal (spec # specs) c =
     (let (i, c1) = ensureID (rsp_ID spec) (rsp_Action spec) c;
          rule = \<lparr>r_ID = i, FromNode = rsp_From spec, ToNode = rsp_To spec, r_Action = actionFromString (rsp_Action spec),
                  Params = rsp_Params spec\<rparr>;
          (ids, c2) = applyLocal specs (c1\<lparr>ca_proxy := AddRule rule (ca_proxy c1)\<rparr>)
      in (i # ids, c2))"

datatype chaos_reply = ReplyError http_response | ReplyInstalled "string list" string | ReplyHealed string | ReplyRules string "ruleSpec list"

definition handleRules :: "ChaosAPI \<Rightarrow> chaos_reply" where
  "handleRules c = ReplyRules (ca_nodeID c) (toRuleResponses (Rules (ca_proxy c)))"

definition handleApplyLocal :: "string \<Rightarrow> ruleSpec list option \<Rightarrow> ChaosAPI \<Rightarrow> chaos_reply \<times> ChaosAPI" where
  "handleApplyLocal meth body c =
     (if meth \<noteq> ''POST'' then (ReplyError (http_Error ''method not allowed'' 405), c)
      else (case body of
              None \<Rightarrow> (ReplyError (http_Error ''invalid JSON body'' 400), c)
            | Some specs \<Rightarrow> let (ids, c') = applyLocal specs c in (ReplyInstalled ids (ca_nodeID c), c')))"

definition handleHealLocal :: "string \<Rightarrow> ChaosAPI \<Rightarrow> chaos_reply \<times> ChaosAPI" where
  "handleHealLocal meth c =
     (if meth \<noteq> ''POST'' then (ReplyError (http_Error ''method not allowed'' 405), c)
      else (ReplyHealed (ca_nodeID c), c\<lparr>ca_proxy := ClearRules (ca_proxy c)\<rparr>))"

definition chaos_peerIDs :: "ChaosAPI \<Rightarrow> string list" where
  "chaos_peerIDs c = sorted_keys (ca_httpPeers c)"

section \<open>The cluster\<close>

record world =
  w_hosts :: "string \<rightharpoonup> ChaosAPI"
  w_fail :: "string \<Rightarrow> error option"

definition put_host :: "string \<Rightarrow> ChaosAPI \<Rightarrow> world \<Rightarrow> world" where
  "put_host a c w = w\<lparr>w_hosts := (w_hosts w)(a \<mapsto> c)\<rparr>"

text \<open>The exchange of one server with another; an address where no server listens gives an error too.\<close>

definition exchange :: "(ChaosAPI \<Rightarrow> chaos_reply \<times> ChaosAPI) \<Rightarrow> string \<Rightarrow> world \<Rightarrow> chaos_reply result \<times> world" where
  "exchange handler addr w =
     (case w_fail w addr of
        Some err \<Rightarrow> (Inl err, w)
      | None \<Rightarrow>
          (case w_hosts w addr of
             None \<Rightarrow> (Inl ''connection refused'', w)
           | Some c \<Rightarrow> let (reply, c') = handler c in (Inr reply, put_host addr c' w)))"

definition status_error :: "string \<Rightarrow> http_response \<Rightarrow> error" where
  "status_error peer resp = ''peer '' @ peer @ '' responded '' @ decimal (rs_Status resp) @ '': '' @ rs_Body resp"

definition dispatchRules :: "ChaosAPI \<Rightarrow> string \<Rightarrow> ruleSpec list \<Rightarrow> world \<Rightarrow> string list result \<times> world" where
  "dispatchRules c peer specs w =
     (case map_of (ca_httpPeers c) peer of
        None \<Rightarrow> (Inl (''unknown peer '' @ peer), w)
      | Some addr \<Rightarrow>
          (case exchange (handleApplyLocal ''POST'' (Some (map wire_rule specs))) addr w of
             (Inl err, w') \<Rightarrow> (Inl err, w')
           | (Inr (ReplyError resp), w') \<Rightarrow> (Inl (status_error peer resp), w')
           | (Inr (ReplyInstalled ids _), w') \<Rightarrow> (Inr (map to_valid ids), w')
           | (Inr _, w') \<Rightarrow> (Inr [], w')))"

definition healPeer :: "string \<Rightarrow> ChaosAPI \<Rightarrow> string \<Rightarrow> world \<Rightarrow> error option \<times> world" where
  "healPeer self c peer w =
     (if peer = ca_nodeID c then
        (None, case w_hosts w self of None \<Rightarrow> w | Some me \<Rightarrow> put_host self (me\<lparr>ca_proxy := ClearRules (ca_proxy me)\<rparr>) w)
      else (case map_of (ca_httpPeers c) peer of
              None \<Rightarrow> (Some (''unknown peer '' @ peer), w)
            | Some addr \<Rightarrow>
                (case exchange (handleHealLocal ''POST'') addr w of
                   (Inl err, w') \<Rightarrow> (Some err, w')
                 | (Inr (ReplyError resp), w') \<Rightarrow> (Some (status_error peer resp), w')
                 | (Inr _, w') \<Rightarrow> (None, w'))))"

definition fetchPeerRules :: "string \<Rightarrow> ChaosAPI \<Rightarrow> string \<Rightarrow> world \<Rightarrow> ruleSpec list result" where
  "fetchPeerRules self c peer w =
     (if peer = ca_nodeID c then
        Inr (case w_hosts w self of None \<Rightarrow> [] | Some me \<Rightarrow> toRuleResponses (Rules (ca_proxy me)))
      else (case map_of (ca_httpPeers c) peer of
              None \<Rightarrow> Inl (''unknown peer '' @ peer)
            | Some addr \<Rightarrow>
                (case fst (exchange (\<lambda>api. (handleRules api, api)) addr w) of
                   Inl err \<Rightarrow> Inl err
                 | Inr (ReplyRules _ rs) \<Rightarrow> Inr (map wire_rule rs)
                 | Inr _ \<Rightarrow> Inr [])))"

record plan_result =
  pr_Node :: string
  pr_Installed :: "string list"
  pr_Error :: string

text \<open>
  One goroutine of \<open>executePlan\<close>; \<open>self\<close> is the address of the server that runs the plan. The
  goroutines work on different servers, so they are run one after the other, in sorted order.
\<close>

definition plan_step :: "string \<Rightarrow> ChaosAPI \<Rightarrow> string \<Rightarrow> ruleSpec list \<Rightarrow> world \<Rightarrow> plan_result \<times> world" where
  "plan_step self c node specs w =
     (if node = ca_nodeID c then
        (case w_hosts w self of
           None \<Rightarrow> (\<lparr>pr_Node = node, pr_Installed = [], pr_Error = ''''\<rparr>, w)
         | Some me \<Rightarrow> let (ids, me') = applyLocal specs me
                      in (\<lparr>pr_Node = node, pr_Installed = ids, pr_Error = ''''\<rparr>, put_host self me' w))
      else (case dispatchRules c node specs w of
              (Inl err, w') \<Rightarrow> (\<lparr>pr_Node = node, pr_Installed = [], pr_Error = err\<rparr>, w')
            | (Inr ids, w') \<Rightarrow> (\<lparr>pr_Node = node, pr_Installed = ids, pr_Error = ''''\<rparr>, w')))"

definition executePlan :: "string \<Rightarrow> ChaosAPI \<Rightarrow> (string \<times> ruleSpec list) list \<Rightarrow> world \<Rightarrow> plan_result list \<times> world" where
  "executePlan self c plan w =
     fan_run (\<lambda>node. plan_step self c node (case map_of plan node of Some specs \<Rightarrow> specs | None \<Rightarrow> [])) (sorted_keys plan) w"

section \<open>Cluster requests\<close>

definition drop_spec :: "string \<Rightarrow> string \<Rightarrow> ruleSpec" where
  "drop_spec i dst = \<lparr>rsp_ID = i, rsp_From = '''', rsp_To = dst, rsp_Action = ''drop'', rsp_Params = []\<rparr>"

text \<open>The plan with one rule on the target and one rule towards the target on every other server.\<close>

definition star_plan :: "string \<Rightarrow> ruleSpec \<Rightarrow> (string \<Rightarrow> ruleSpec) \<Rightarrow> ChaosAPI \<Rightarrow> (string \<times> ruleSpec list) list" where
  "star_plan target out into c =
     (target, [out]) # map (\<lambda>i. (i, [into i])) (filter (\<lambda>i. i \<noteq> target) (chaos_peerIDs c))"

definition isolate_plan :: "string \<Rightarrow> ChaosAPI \<Rightarrow> (string \<times> ruleSpec list) list" where
  "isolate_plan target c =
     star_plan target (drop_spec (''isolate-'' @ target @ ''-out'') '''')
       (\<lambda>i. drop_spec (''isolate-'' @ target @ ''-in-from-'' @ i) target) c"

definition handleIsolate :: "string \<Rightarrow> ChaosAPI \<Rightarrow> string option \<Rightarrow> world \<Rightarrow> http_response + plan_result list \<times> world" where
  "handleIsolate self c body w =
     (case body of
        Some node \<Rightarrow> if node = '''' then Inl (http_Error ''body requires {node}'' 400)
                     else Inr (executePlan self c (isolate_plan node c) w)
      | None \<Rightarrow> Inl (http_Error ''body requires {node}'' 400))"

definition partition_plan :: "string \<Rightarrow> string \<Rightarrow> (string \<times> ruleSpec list) list" where
  "partition_plan a b =
     AList.update b [drop_spec (''part-'' @ b @ ''-'' @ a) a] [(a, [drop_spec (''part-'' @ a @ ''-'' @ b) b])]"

definition handlePartition :: "string \<Rightarrow> ChaosAPI \<Rightarrow> (string \<times> string) option \<Rightarrow> world \<Rightarrow> http_response + plan_result list \<times> world" where
  "handlePartition self c body w =
     (case body of
        Some (a, b) \<Rightarrow> if a = '''' \<or> b = '''' then Inl (http_Error ''body requires {a, b}'' 400)
                       else Inr (executePlan self c (partition_plan a b) w)
      | None \<Rightarrow> Inl (http_Error ''body requires {a, b}'' 400))"

definition delay_spec :: "string \<Rightarrow> string \<Rightarrow> int \<Rightarrow> int \<Rightarrow> ruleSpec" where
  "delay_spec i dst ms jitter =
     \<lparr>rsp_ID = i, rsp_From = '''', rsp_To = dst, rsp_Action = ''delay'', rsp_Params = [(''delay_ms'', PInt ms), (''jitter_ms'', PInt jitter)]\<rparr>"

definition delay_plan :: "string \<Rightarrow> int \<Rightarrow> int \<Rightarrow> ChaosAPI \<Rightarrow> (string \<times> ruleSpec list) list" where
  "delay_plan node ms jitter c =
     star_plan node (delay_spec (''delay-'' @ node @ ''-out'') '''' ms jitter)
       (\<lambda>i. delay_spec (''delay-'' @ node @ ''-to-from-'' @ i) node ms jitter) c"

definition handleDelay :: "string \<Rightarrow> ChaosAPI \<Rightarrow> (string \<times> int \<times> int) option \<Rightarrow> world \<Rightarrow> http_response + plan_result list \<times> world" where
  "handleDelay self c body w =
     (case body of
        Some (node, ms, jitter) \<Rightarrow>
          if node = '''' \<or> ms \<le> 0 then Inl (http_Error ''body requires {node, delay_ms > 0}'' 400)
          else Inr (executePlan self c (delay_plan node ms jitter c) w)
      | None \<Rightarrow> Inl (http_Error ''body requires {node, delay_ms > 0}'' 400))"

definition loss_spec :: "string \<Rightarrow> string \<Rightarrow> rat \<Rightarrow> ruleSpec" where
  "loss_spec i dst rate = \<lparr>rsp_ID = i, rsp_From = '''', rsp_To = dst, rsp_Action = ''loss'', rsp_Params = [(''loss_rate'', PFloat rate)]\<rparr>"

definition loss_plan :: "string \<Rightarrow> rat \<Rightarrow> ChaosAPI \<Rightarrow> (string \<times> ruleSpec list) list" where
  "loss_plan node rate c =
     star_plan node (loss_spec (''loss-'' @ node @ ''-out'') '''' rate)
       (\<lambda>i. loss_spec (''loss-'' @ node @ ''-to-from-'' @ i) node rate) c"

definition handleLoss :: "string \<Rightarrow> ChaosAPI \<Rightarrow> (string \<times> rat) option \<Rightarrow> world \<Rightarrow> http_response + plan_result list \<times> world" where
  "handleLoss self c body w =
     (case body of
        Some (node, rate) \<Rightarrow>
          if node = '''' \<or> rate \<le> 0 \<or> rate > 1 then Inl (http_Error ''body requires {node, loss_rate in (0, 1]}'' 400)
          else Inr (executePlan self c (loss_plan node rate c) w)
      | None \<Rightarrow> Inl (http_Error ''body requires {node, loss_rate in (0, 1]}'' 400))"

definition handleClusterHeal :: "string \<Rightarrow> ChaosAPI \<Rightarrow> world \<Rightarrow> (string \<times> string) list \<times> world" where
  "handleClusterHeal self c w =
     (let (errs, w') = fan_run (healPeer self c) (chaos_peerIDs c) w
      in (zip (chaos_peerIDs c) (map (\<lambda>err. case err of Some e \<Rightarrow> e | None \<Rightarrow> ''ok'') errs), w'))"

definition handleClusterState :: "string \<Rightarrow> ChaosAPI \<Rightarrow> world \<Rightarrow> (string \<times> ruleSpec list result) list" where
  "handleClusterState self c w = map (\<lambda>i. (i, fetchPeerRules self c i w)) (chaos_peerIDs c)"

section \<open>Plans reach every server\<close>

text \<open>A cluster in which every configured server answers, seen from the server \<open>c\<close> at \<open>self\<close>.\<close>

definition all_up :: "string \<Rightarrow> ChaosAPI \<Rightarrow> world \<Rightarrow> bool" where
  "all_up self c w \<longleftrightarrow> distinct (map fst (ca_httpPeers c)) \<and> distinct (map snd (ca_httpPeers c)) \<and>
     map_of (ca_httpPeers c) (ca_nodeID c) = Some self \<and>
     (\<forall>(i, a) \<in> set (ca_httpPeers c). to_valid i = i \<and> w_fail w a = None \<and> w_hosts w a \<noteq> None)"

definition no_rules :: "ChaosAPI \<Rightarrow> world \<Rightarrow> bool" where
  "no_rules c w \<longleftrightarrow> (\<forall>(i, a) \<in> set (ca_httpPeers c). \<forall>api. w_hosts w a = Some api \<longrightarrow> rules (ca_proxy api) = [])"

text \<open>What a server receives: its own rules as they are, the others by the wire.\<close>

definition sent :: "ChaosAPI \<Rightarrow> string \<Rightarrow> ruleSpec list \<Rightarrow> ruleSpec list" where
  "sent c node specs = (if node = ca_nodeID c then specs else map wire_rule specs)"

lemma all_up_addr:
  assumes "all_up self c w" and "(i, a) \<in> set (ca_httpPeers c)"
  shows "map_of (ca_httpPeers c) i = Some a" and "i = ca_nodeID c \<longleftrightarrow> a = self"
    and "(j, a) \<in> set (ca_httpPeers c) \<Longrightarrow> j = i"
proof -
  show addr: "map_of (ca_httpPeers c) i = Some a"
    using assms by (simp add: all_up_def)
  have inj: "j = i" if "(j, a) \<in> set (ca_httpPeers c)" for j
    using that assms inj_onD [of snd "set (ca_httpPeers c)" "(j, a)" "(i, a)"] by (simp add: all_up_def distinct_map)
  have self: "(ca_nodeID c, self) \<in> set (ca_httpPeers c)"
    using assms(1) by (auto simp: all_up_def dest: map_of_SomeD)
  show "i = ca_nodeID c \<longleftrightarrow> a = self"
  proof
    show "i = ca_nodeID c \<Longrightarrow> a = self"
      using addr assms(1) by (simp add: all_up_def)
    show "a = self \<Longrightarrow> i = ca_nodeID c"
      using inj [of "ca_nodeID c"] self by simp
  qed
  show "(j, a) \<in> set (ca_httpPeers c) \<Longrightarrow> j = i"
    by (rule inj)
qed

lemma all_up_host:
  assumes "all_up self c w" and "(i, a) \<in> set (ca_httpPeers c)"
  shows "w_fail w a = None" and "\<exists>api. w_hosts w a = Some api"
  using assms by (auto simp: all_up_def)

lemma all_up_put: "all_up self c w \<Longrightarrow> all_up self c (put_host a api w)"
  by (auto simp: all_up_def put_host_def)

lemma all_up_same:
  assumes "all_up self c w" and "(i, a) \<in> set (ca_httpPeers c)" and "(j, b) \<in> set (ca_httpPeers c)"
  shows "i = j \<longleftrightarrow> a = b"
proof
  show "i = j \<Longrightarrow> a = b"
    using all_up_addr(1) [OF assms(1,2)] all_up_addr(1) [OF assms(1,3)] by simp
  show "a = b \<Longrightarrow> i = j"
    using all_up_addr(3) [OF assms(1,2), of j] assms(3) by simp
qed

definition plan_result_of :: "ChaosAPI \<Rightarrow> (string \<Rightarrow> ruleSpec list) \<Rightarrow> string \<Rightarrow> ChaosAPI \<Rightarrow> plan_result" where
  "plan_result_of c specs i api =
     (let ids = fst (applyLocal (sent c i (specs i)) api)
      in \<lparr>pr_Node = i, pr_Installed = (if i = ca_nodeID c then ids else map to_valid ids), pr_Error = ''''\<rparr>)"

lemma plan_step_up:
  assumes "all_up self c w" and "(i, a) \<in> set (ca_httpPeers c)" and "w_hosts w a = Some api"
  shows "plan_step self c i (specs i) w = (plan_result_of c specs i api, put_host a (snd (applyLocal (sent c i (specs i)) api)) w)"
  using all_up_addr(1,2) [OF assms(1,2)] all_up_host(1) [OF assms(1,2)] assms(3)
  by (auto simp: plan_step_def dispatchRules_def exchange_def handleApplyLocal_def sent_def plan_result_of_def split: prod.split)

lemma healPeer_up:
  assumes "all_up self c w" and "(i, a) \<in> set (ca_httpPeers c)" and "w_hosts w a = Some api"
  shows "healPeer self c i w = (None, put_host a (api\<lparr>ca_proxy := ClearRules (ca_proxy api)\<rparr>) w)"
  using all_up_addr(1,2) [OF assms(1,2)] all_up_host(1) [OF assms(1,2)] assms(3)
  by (auto simp: healPeer_def exchange_def handleHealLocal_def)

text \<open>Both requests to all servers, a plan and a heal, are instances of the fan-out.\<close>

interpretation plan: fan_out "\<lambda>i. plan_step self c i (specs i)" "all_up self c" "ca_httpPeers c" w_hosts
  "\<lambda>i api. snd (applyLocal (sent c i (specs i)) api)" "plan_result_of c specs"
  for self c specs
proof unfold_locales
  fix w i a assume up: "all_up self c w" "(i, a) \<in> set (ca_httpPeers c)"
  then show "\<exists>h. w_hosts w a = Some h"
    by (rule all_up_host(2))
  then obtain api where "w_hosts w a = Some api" by blast
  from plan_step_up [OF up this] show "all_up self c (snd (plan_step self c i (specs i) w))"
    using up(1) by (simp add: all_up_put)
qed (auto simp: plan_step_up put_host_def all_up_same)

interpretation heal: fan_out "healPeer self c" "all_up self c" "ca_httpPeers c" w_hosts
  "\<lambda>i api. api\<lparr>ca_proxy := ClearRules (ca_proxy api)\<rparr>" "\<lambda>i api. None"
  for self c
proof unfold_locales
  fix w i a assume up: "all_up self c w" "(i, a) \<in> set (ca_httpPeers c)"
  then show "\<exists>h. w_hosts w a = Some h"
    by (rule all_up_host(2))
  then obtain api where "w_hosts w a = Some api" by blast
  from healPeer_up [OF up this] show "all_up self c (snd (healPeer self c i w))"
    using up(1) by (simp add: all_up_put)
qed (auto simp: healPeer_up put_host_def all_up_same)

lemma executePlan_up:
  assumes "all_up self c w" and "distinct (map fst plan)" and "fst ` set plan \<subseteq> fst ` set (ca_httpPeers c)"
    and "(i, a) \<in> set (ca_httpPeers c)" and "w_hosts w a = Some api" and "map_of plan i = Some specs"
  shows "w_hosts (snd (executePlan self c plan w)) a = Some (snd (applyLocal (sent c i specs) api))"
proof -
  have "i \<in> fst ` set plan"
    using map_of_SomeD [OF assms(6)] by (rule rev_image_eqI) simp
  then show ?thesis
    using plan.run_host [OF assms(1) _ _ assms(4,5), of "sorted_keys plan" "\<lambda>node. case map_of plan node of Some specs \<Rightarrow> specs | None \<Rightarrow> []"]
      assms(2,3,6)
    by (simp add: executePlan_def)
qed

lemma star_plan_facts:
  assumes "(target, t) \<in> set (ca_httpPeers c)" and "distinct (map fst (ca_httpPeers c))"
  shows "distinct (map fst (star_plan target out into c))"
    and "fst ` set (star_plan target out into c) \<subseteq> fst ` set (ca_httpPeers c)"
    and "(i, a) \<in> set (ca_httpPeers c) \<Longrightarrow>
       map_of (star_plan target out into c) i = Some [if i = target then out else into i]"
proof -
  show "distinct (map fst (star_plan target out into c))"
    using assms(2) by (simp add: star_plan_def chaos_peerIDs_def comp_def)
  show "fst ` set (star_plan target out into c) \<subseteq> fst ` set (ca_httpPeers c)"
    using assms(1) by (auto simp: star_plan_def chaos_peerIDs_def rev_image_eqI)
  have "map_of (map (\<lambda>i. (i, [into i])) xs) i = (if i \<in> set xs then Some [into i] else None)" for xs
    by (induction xs) auto
  then show "(i, a) \<in> set (ca_httpPeers c) \<Longrightarrow>
       map_of (star_plan target out into c) i = Some [if i = target then out else into i]"
    by (auto simp: star_plan_def chaos_peerIDs_def rev_image_eqI)
qed

text \<open>A single rule installed on an empty proxy decides alone.\<close>

lemma applyLocal_single:
  assumes "rules (ca_proxy api) = []"
  shows "ShouldDeliver d src dst (ca_proxy (snd (applyLocal [spec] api))) =
    eval_rules d [\<lparr>r_ID = fst (ensureID (rsp_ID spec) (rsp_Action spec) api), FromNode = rsp_From spec, ToNode = rsp_To spec,
       r_Action = actionFromString (rsp_Action spec), Params = rsp_Params spec\<rparr>] src dst"
  using assms by (simp add: ShouldDeliver_def AddRule_def ensureID_def Let_def split: prod.split)

lemma star_plan_deliver:
  assumes "all_up self c w" and "no_rules c w" and "(target, t) \<in> set (ca_httpPeers c)" and "(src, a) \<in> set (ca_httpPeers c)"
  shows "\<exists>api x. w_hosts (snd (executePlan self c (star_plan target out into c) w)) a = Some api \<and>
    ShouldDeliver d src dst (ca_proxy api) =
      eval_rules d (map (\<lambda>spec. \<lparr>r_ID = x, FromNode = rsp_From spec, ToNode = rsp_To spec,
         r_Action = actionFromString (rsp_Action spec), Params = rsp_Params spec\<rparr>)
         (sent c src [if src = target then out else into src])) src dst"
proof -
  have dist: "distinct (map fst (ca_httpPeers c))"
    using assms(1) by (simp add: all_up_def)
  obtain api where api: "w_hosts w a = Some api" "rules (ca_proxy api) = []"
    using assms(1,2,4) by (fastforce simp: all_up_def no_rules_def)
  note facts = star_plan_facts [OF assms(3) dist, where out = out and into = into]
  let ?spec = "if src = target then out else into src"
  obtain spec where spec: "sent c src [?spec] = [spec]"
    by (cases "src = ca_nodeID c") (simp_all add: sent_def)
  have "w_hosts (snd (executePlan self c (star_plan target out into c) w)) a = Some (snd (applyLocal [spec] api))"
    using executePlan_up [OF assms(1) facts(1,2) assms(4) api(1)] facts(3) [OF assms(4)] spec by simp
  then show ?thesis
    using applyLocal_single [OF api(2), of d src dst spec] spec by auto
qed

section \<open>Properties of the cluster control\<close>

text \<open>
  C32. Isolation over HTTP. When every server answers and no rule is installed, the isolate request
  makes each server drop exactly the messages from or to the target: nothing the target sends and
  nothing sent to it is delivered, every other message is.
\<close>

theorem isolate_cuts_off_target:
  assumes "all_up self c w" and "no_rules c w" and "(target, t) \<in> set (ca_httpPeers c)" and "(src, a) \<in> set (ca_httpPeers c)"
    and "target \<noteq> ''''" and "handleIsolate self c (Some target) w = Inr (rs, w')" and "src \<noteq> dst"
  shows "\<exists>api. w_hosts w' a = Some api \<and>
    ShouldDeliver d src dst (ca_proxy api) = (if src = target \<or> dst = target then (False, 0) else (True, 0))"
proof -
  let ?out = "drop_spec (''isolate-'' @ target @ ''-out'') ''''" and ?into = "\<lambda>i. drop_spec (''isolate-'' @ target @ ''-in-from-'' @ i) target"
  have w': "w' = snd (executePlan self c (star_plan target ?out ?into c) w)"
    using assms(5,6) by (auto simp: handleIsolate_def isolate_plan_def)
  have valid: "to_valid target = target" "to_valid '''' = ''''" "to_valid ''drop'' = ''drop''"
    using assms(1,3) by (auto simp: all_up_def ascii_def to_valid.simps(1))
  obtain api x where "w_hosts w' a = Some api" "ShouldDeliver d src dst (ca_proxy api) =
      eval_rules d (map (\<lambda>spec. \<lparr>r_ID = x, FromNode = rsp_From spec, ToNode = rsp_To spec,
         r_Action = actionFromString (rsp_Action spec), Params = rsp_Params spec\<rparr>)
         (sent c src [if src = target then ?out else ?into src])) src dst"
    unfolding w' using star_plan_deliver [OF assms(1-4), of ?out ?into d dst] by blast
  then show ?thesis
    using assms(5,7) valid
    by (auto simp: sent_def drop_spec_def wire_rule_def actionFromString_def matches_def rule_verdict_def)
qed

text \<open>
  Delays do not survive the wire. The delay request delays only the messages of the server
  that received it: the other servers get the numbers as float64, the proxy looks for an int, and
  their messages from or to the target are delivered at once.
\<close>

theorem remote_delay_is_zero:
  assumes "all_up self c w" and "no_rules c w" and "(target, t) \<in> set (ca_httpPeers c)" and "(src, a) \<in> set (ca_httpPeers c)"
    and "target \<noteq> ''''" and "handleDelay self c (Some (target, ms, jitter)) w = Inr (rs, w')" and "src = target \<or> dst = target"
    and "0 < ms" and "ms + \<bar>jitter\<bar> < 2 ^ 40"
  shows "\<exists>api. w_hosts w' a = Some api \<and>
    (if src = ca_nodeID c then ms * 1000000 \<le> snd (ShouldDeliver d src dst (ca_proxy api))
     else ShouldDeliver d src dst (ca_proxy api) = (True, 0))"
proof -
  let ?out = "delay_spec (''delay-'' @ target @ ''-out'') '''' ms jitter"
  let ?into = "\<lambda>i. delay_spec (''delay-'' @ target @ ''-to-from-'' @ i) target ms jitter"
  have w': "w' = snd (executePlan self c (star_plan target ?out ?into c) w)"
    using assms(5,6,8) by (auto simp: handleDelay_def delay_plan_def)
  have valid: "to_valid target = target" "to_valid '''' = ''''" "to_valid ''delay'' = ''delay''"
      "to_valid ''delay_ms'' = ''delay_ms''" "to_valid ''jitter_ms'' = ''jitter_ms''"
    using assms(1,3) by (auto simp: all_up_def ascii_def to_valid.simps(1))
  obtain api x where api: "w_hosts w' a = Some api" "ShouldDeliver d src dst (ca_proxy api) =
      eval_rules d (map (\<lambda>spec. \<lparr>r_ID = x, FromNode = rsp_From spec, ToNode = rsp_To spec,
         r_Action = actionFromString (rsp_Action spec), Params = rsp_Params spec\<rparr>)
         (sent c src [if src = target then ?out else ?into src])) src dst"
    unfolding w' using star_plan_deliver [OF assms(1-4), of ?out ?into d dst] by blast
  have local: "ms * 1000000 \<le> wrap64 (wrap64 (ms + y) * 1000000)" if "0 \<le> y" "y \<le> \<bar>jitter\<bar>" for y
    using that assms(8,9) by (simp add: wrap64_id)
  have "0 \<le> d_int d mod jitter" "d_int d mod jitter \<le> \<bar>jitter\<bar>" if "0 < jitter"
    using that less_imp_le [OF pos_mod_bound [OF that, of "d_int d"]] by simp_all
  with local [of "d_int d mod jitter"] local [of 0] show ?thesis
    using api assms(7) valid
    by (auto simp: sent_def delay_spec_def wire_rule_def actionFromString_def matches_def rule_verdict_def int_param_def wrap64_id Let_def)
qed

text \<open>
  Healing the cluster removes every rule of every server that answers, and says so.
\<close>

theorem cluster_heal_clears_all:
  assumes "all_up self c w" and "handleClusterHeal self c w = (rs, w')" and "(i, a) \<in> set (ca_httpPeers c)"
  shows "(\<exists>api. w_hosts w' a = Some api \<and> rules (ca_proxy api) = []) \<and> rs = map (\<lambda>i. (i, ''ok'')) (sorted_keys (ca_httpPeers c))"
proof -
  let ?ids = "sorted_keys (ca_httpPeers c)"
  have dist: "distinct (map fst (ca_httpPeers c))"
    using assms(1) by (simp add: all_up_def)
  obtain errs where run: "fan_run (healPeer self c) ?ids w = (errs, w')" "rs = zip ?ids (map (\<lambda>err. case err of Some e \<Rightarrow> e | None \<Rightarrow> ''ok'') errs)"
    using assms(2) by (auto simp: handleClusterHeal_def chaos_peerIDs_def split: prod.splits)
  have "errs = map (\<lambda>i. None) ?ids"
    using heal.run_results_const [OF assms(1), of ?ids "\<lambda>i. None"] dist run(1) by simp
  then have "rs = map (\<lambda>i. (i, ''ok'')) ?ids"
    unfolding run(2) by (simp add: zip_map2 zip_same_conv_map comp_def)
  moreover obtain api where "w_hosts w a = Some api"
    using all_up_host(2) [OF assms(1,3)] by blast
  moreover have "i \<in> set ?ids"
    using assms(3) dist by (auto simp: rev_image_eqI)
  ultimately show ?thesis
    using heal.run_host [OF assms(1) _ _ assms(3), of ?ids api] dist run(1) by (simp add: ClearRules_def)
qed

text \<open>A cluster of three servers for the witnesses.\<close>

definition sample_peers :: "(string \<times> string) list" where
  "sample_peers = [(''a'', '':8001''), (''b'', '':8002''), (''c'', '':8003'')]"

definition sample_api :: "string \<Rightarrow> ChaosAPI" where
  "sample_api i = NewChaosAPI i NewNetworkProxy sample_peers"

definition sample_world :: world where
  "sample_world = \<lparr>w_hosts = ['':8001'' \<mapsto> sample_api ''a'', '':8002'' \<mapsto> sample_api ''b'', '':8003'' \<mapsto> sample_api ''c''],
     w_fail = (\<lambda>_. None)\<rparr>"

lemma sample_world_up:
  "all_up '':8001'' (sample_api ''a'') sample_world" "no_rules (sample_api ''a'') sample_world"
  "(''b'', '':8002'') \<in> set (ca_httpPeers (sample_api ''a''))" "(''c'', '':8003'') \<in> set (ca_httpPeers (sample_api ''a''))"
  by (simp_all add: all_up_def no_rules_def sample_world_def sample_api_def NewChaosAPI_def sample_peers_def NewNetworkProxy_def ascii_def)

theorem isolate_cuts_off_target_witness:
  "\<exists>rs w' api. handleIsolate '':8001'' (sample_api ''a'') (Some ''b'') sample_world = Inr (rs, w') \<and> w_hosts w' '':8003'' = Some api \<and>
     ShouldDeliver \<lparr>d_int = 0, d_float = 0\<rparr> ''c'' ''b'' (ca_proxy api) = (False, 0)"
proof -
  obtain rs w' where run: "handleIsolate '':8001'' (sample_api ''a'') (Some ''b'') sample_world = Inr (rs, w')"
    by (cases "executePlan '':8001'' (sample_api ''a'') (isolate_plan ''b'' (sample_api ''a'')) sample_world")
      (simp add: handleIsolate_def)
  have ne: "''b'' \<noteq> ''''" "''c'' \<noteq> ''b''" by simp_all
  from isolate_cuts_off_target [OF sample_world_up ne(1) run ne(2), of "\<lparr>d_int = 0, d_float = 0\<rparr>"] run show ?thesis
    by auto
qed

theorem remote_delay_is_zero_witness:
  "\<exists>rs w' api. handleDelay '':8001'' (sample_api ''a'') (Some (''b'', 200, 50)) sample_world = Inr (rs, w') \<and> w_hosts w' '':8003'' = Some api \<and>
     ShouldDeliver \<lparr>d_int = 0, d_float = 0\<rparr> ''c'' ''b'' (ca_proxy api) = (True, 0)"
proof -
  obtain rs w' where run: "handleDelay '':8001'' (sample_api ''a'') (Some (''b'', 200, 50)) sample_world = Inr (rs, w')"
    by (cases "executePlan '':8001'' (sample_api ''a'') (delay_plan ''b'' 200 50 (sample_api ''a'')) sample_world")
      (simp add: handleDelay_def)
  have ne: "''b'' \<noteq> ''''" "''c'' = ''b'' \<or> ''b'' = ''b''" "0 < (200 :: int)" "200 + \<bar>50\<bar> < (2 :: int) ^ 40" by simp_all
  from remote_delay_is_zero [OF sample_world_up ne(1) run ne(2-4), of "\<lparr>d_int = 0, d_float = 0\<rparr>"] run show ?thesis
    by (auto simp: sample_api_def NewChaosAPI_def)
qed

theorem cluster_heal_clears_all_witness:
  "\<exists>rs w' api. handleClusterHeal '':8001'' (sample_api ''a'') sample_world = (rs, w') \<and> w_hosts w' '':8003'' = Some api \<and>
     rules (ca_proxy api) = []"
proof -
  obtain rs w' where run: "handleClusterHeal '':8001'' (sample_api ''a'') sample_world = (rs, w')"
    by (cases "handleClusterHeal '':8001'' (sample_api ''a'') sample_world")
  from cluster_heal_clears_all [OF sample_world_up(1) run sample_world_up(4)] run show ?thesis
    by blast
qed

end
