(* ===== verification/Server_Admin.thy ===== *)
theory Server_Admin
  imports Server_Chaos
begin

text \<open>
  The two administrative APIs: timings of the nodes (\<open>src/server/config.go\<close>) and the view of the
  log for the dashboard (\<open>src/server/log.go\<close>). The servers of the cluster are one state, by HTTP
  address. The body of a request is what its JSON decodes to, and one exchange with another
  server happens at one moment.
\<close>

section \<open>Timings\<close>

text \<open>\<open>time.Duration(ms) * time.Millisecond\<close> and \<open>Duration.Milliseconds\<close>, which truncates towards zero.\<close>

definition of_ms :: "int \<Rightarrow> duration" where
  "of_ms ms = wrap64 (ms * Millisecond)"

definition Milliseconds :: "duration \<Rightarrow> int" where
  "Milliseconds d = sgn d * (\<bar>d\<bar> div Millisecond)"

record nodeConfigView =
  ncv_Node :: string
  ncv_ElectionTimeoutMs :: int
  ncv_HeartbeatMs :: int
  ncv_Error :: string

definition timings_view :: "string \<Rightarrow> RaftNode \<Rightarrow> nodeConfigView" where
  "timings_view i n =
     (let (et, hb) = GetTimings n
      in \<lparr>ncv_Node = i, ncv_ElectionTimeoutMs = Milliseconds et, ncv_HeartbeatMs = Milliseconds hb, ncv_Error = ''''\<rparr>)"

definition error_view :: "string \<Rightarrow> error \<Rightarrow> nodeConfigView" where
  "error_view i err = \<lparr>ncv_Node = i, ncv_ElectionTimeoutMs = 0, ncv_HeartbeatMs = 0, ncv_Error = err\<rparr>"

definition handleNodeConfig :: "string \<Rightarrow> string \<Rightarrow> (int \<times> int) option \<Rightarrow> RaftNode \<Rightarrow> (http_response + nodeConfigView) \<times> RaftNode" where
  "handleNodeConfig nodeID meth body n =
     (if meth = ''GET'' then (Inr (timings_view nodeID n), n)
      else if meth = ''POST'' then
        (case body of
           None \<Rightarrow> (Inl (http_Error ''invalid JSON body'' 400), n)
         | Some (et, hb) \<Rightarrow> let n' = UpdateTimings (of_ms et) (of_ms hb) n in (Inr (timings_view nodeID n'), n'))
      else (Inl (http_Error ''method not allowed'' 405), n))"

text \<open>The servers by address, each with the id it was started with, and the failing addresses.\<close>

record servers =
  sv_host :: "string \<rightharpoonup> string \<times> RaftNode"
  sv_fail :: "string \<Rightarrow> error option"

text \<open>One exchange with \<open>/api/config\<close> of an address: method and body as sent.\<close>

definition config_exchange :: "string \<Rightarrow> (int \<times> int) option \<Rightarrow> string \<Rightarrow> servers \<Rightarrow> (http_response + nodeConfigView) result \<times> servers" where
  "config_exchange meth body addr s =
     (case sv_fail s addr of
        Some err \<Rightarrow> (Inl err, s)
      | None \<Rightarrow>
          (case sv_host s addr of
             None \<Rightarrow> (Inl ''connection refused'', s)
           | Some (i, n) \<Rightarrow>
               let (reply, n') = handleNodeConfig i meth body n in (Inr reply, s\<lparr>sv_host := (sv_host s)(addr \<mapsto> (i, n'))\<rparr>)))"

record ConfigAPI =
  cf_nodeID :: string
  cf_httpPeers :: "(string \<times> string) list"

definition NewConfigAPI :: "string \<Rightarrow> (string \<times> string) list \<Rightarrow> ConfigAPI" where
  "NewConfigAPI nodeID httpPeers = \<lparr>cf_nodeID = nodeID, cf_httpPeers = httpPeers\<rparr>"

definition config_peerIDs :: "ConfigAPI \<Rightarrow> string list" where
  "config_peerIDs c = sorted_keys (cf_httpPeers c)"

definition peer_addr :: "ConfigAPI \<Rightarrow> string \<Rightarrow> string" where
  "peer_addr c i = (case map_of (cf_httpPeers c) i of Some a \<Rightarrow> a | None \<Rightarrow> '''')"

text \<open>The decoder refuses the plain text of \<open>http.Error\<close> at its first character.\<close>

definition decode_error :: "string \<Rightarrow> error" where
  "decode_error body = (if body = '''' then ''EOF'' else ''invalid character '' @ [CHR 0x27, hd body, CHR 0x27] @ '' looking for beginning of value'')"

definition get_step :: "string \<Rightarrow> ConfigAPI \<Rightarrow> servers \<Rightarrow> string \<Rightarrow> nodeConfigView" where
  "get_step self c s i =
     (if i = cf_nodeID c then (case sv_host s self of Some (_, n) \<Rightarrow> timings_view i n | None \<Rightarrow> error_view i '''')
      else (case fst (config_exchange ''GET'' None (peer_addr c i) s) of
              Inl err \<Rightarrow> error_view i err
            | Inr (Inl resp) \<Rightarrow> error_view i (decode_error (rs_Body resp))
            | Inr (Inr v) \<Rightarrow> v\<lparr>ncv_Node := i\<rparr>))"

definition fanOutGet :: "string \<Rightarrow> ConfigAPI \<Rightarrow> servers \<Rightarrow> nodeConfigView list" where
  "fanOutGet self c s = map (get_step self c s) (config_peerIDs c)"

definition post_step :: "string \<Rightarrow> ConfigAPI \<Rightarrow> int \<Rightarrow> int \<Rightarrow> string \<Rightarrow> servers \<Rightarrow> nodeConfigView \<times> servers" where
  "post_step self c et hb i s =
     (if i = cf_nodeID c then
        (case sv_host s self of
           None \<Rightarrow> (error_view i '''', s)
         | Some (j, n) \<Rightarrow>
             let n' = UpdateTimings (of_ms et) (of_ms hb) n in (timings_view i n', s\<lparr>sv_host := (sv_host s)(self \<mapsto> (j, n'))\<rparr>))
      else (case config_exchange ''POST'' (Some (et, hb)) (peer_addr c i) s of
              (Inl err, s') \<Rightarrow> (error_view i err, s')
            | (Inr (Inl resp), s') \<Rightarrow> (error_view i (decimal (rs_Status resp) @ '': '' @ rs_Body resp), s')
            | (Inr (Inr v), s') \<Rightarrow> (v\<lparr>ncv_Node := i\<rparr>, s')))"

definition fanOutPost :: "string \<Rightarrow> ConfigAPI \<Rightarrow> int \<Rightarrow> int \<Rightarrow> servers \<Rightarrow> nodeConfigView list \<times> servers" where
  "fanOutPost self c et hb s = fan_run (post_step self c et hb) (config_peerIDs c) s"

definition handleClusterConfig ::
    "string \<Rightarrow> ConfigAPI \<Rightarrow> string \<Rightarrow> (int \<times> int) option \<Rightarrow> servers \<Rightarrow> (http_response + nodeConfigView list) \<times> servers" where
  "handleClusterConfig self c meth body s =
     (if meth = ''GET'' then (Inr (fanOutGet self c s), s)
      else if meth = ''POST'' then
        (case body of
           None \<Rightarrow> (Inl (http_Error ''invalid JSON body'' 400), s)
         | Some (et, hb) \<Rightarrow> let (vs, s') = fanOutPost self c et hb s in (Inr vs, s'))
      else (Inl (http_Error ''method not allowed'' 405), s))"

section \<open>The log view\<close>

record logEntryView =
  lv_Index :: u64
  lv_Term :: u64
  lv_Type :: string
  lv_Committed :: bool
  lv_Applied :: bool
  lv_Data :: string

record nodeLogView =
  nl_Node :: string
  nl_LastIndex :: u64
  nl_CommitIndex :: u64
  nl_LastApplied :: u64
  nl_Entries :: "logEntryView list"
  nl_Error :: string

definition parseLimit :: "string \<Rightarrow> int \<Rightarrow> int" where
  "parseLimit query fallback =
     (if query \<noteq> '''' then (case Atoi query of Some n \<Rightarrow> if n > 0 \<and> n \<le> 200 then n else fallback | None \<Rightarrow> fallback)
      else fallback)"

definition entryTypeString :: "EntryType \<Rightarrow> string" where
  "entryTypeString t = (if t = EntryNormal then ''normal'' else if t = EntryConfig then ''config'' else ''unknown'')"

definition decodeEntry :: "byte list \<Rightarrow> string" where
  "decodeEntry data =
     (if data = [] then ''''
      else (case unmarshal_command data of
              Some cmd \<Rightarrow>
                if cmd_Op cmd = '''' then string_of_bytes data
                else if cmd_Op cmd = ''put'' then ''put '' @ cmd_Key cmd @ ''='' @ cmd_Value cmd
                else if cmd_Op cmd = ''delete'' then ''del '' @ cmd_Key cmd
                else cmd_Op cmd @ '' '' @ cmd_Key cmd
            | None \<Rightarrow> string_of_bytes data))"

definition entry_view :: "NodeStatus \<Rightarrow> LogEntry \<Rightarrow> logEntryView" where
  "entry_view status e =
     \<lparr>lv_Index = le_Index e, lv_Term = le_Term e, lv_Type = entryTypeString (le_Type e),
      lv_Committed = (le_Index e \<le> ns_CommitIndex status), lv_Applied = (le_Index e \<le> ns_LastApplied status),
      lv_Data = decodeEntry (le_Data e)\<rparr>"

text \<open>Status and snapshot are two locked reads; the node at either is an argument.\<close>

definition localView :: "int \<Rightarrow> RaftNode \<Rightarrow> RaftNode \<Rightarrow> nodeLogView" where
  "localView limit n n2 =
     (let status = Status n in
      \<lparr>nl_Node = ns_ID status, nl_LastIndex = ns_LogIndex status, nl_CommitIndex = ns_CommitIndex status,
       nl_LastApplied = ns_LastApplied status, nl_Entries = map (entry_view status) (LogSnapshot limit n2), nl_Error = ''''\<rparr>)"

definition handleLog :: "string \<Rightarrow> RaftNode \<Rightarrow> RaftNode \<Rightarrow> nodeLogView" where
  "handleLog query n n2 = localView (parseLimit query 20) n n2"

text \<open>Encoding and decoding a view replaces invalid UTF-8 in its strings.\<close>

definition wire_view :: "nodeLogView \<Rightarrow> nodeLogView" where
  "wire_view v = v\<lparr>nl_Node := to_valid (nl_Node v), nl_Error := to_valid (nl_Error v),
     nl_Entries := map (\<lambda>e. e\<lparr>lv_Type := to_valid (lv_Type e), lv_Data := to_valid (lv_Data e)\<rparr>) (nl_Entries v)\<rparr>"

definition fetchPeerLog :: "(string \<times> string) list \<Rightarrow> string \<Rightarrow> int \<Rightarrow> servers \<Rightarrow> nodeLogView result" where
  "fetchPeerLog httpPeers peer limit s =
     (let addr = (case map_of httpPeers peer of Some a \<Rightarrow> a | None \<Rightarrow> '''') in
      case sv_fail s addr of
        Some err \<Rightarrow> Inl err
      | None \<Rightarrow> (case sv_host s addr of
                   None \<Rightarrow> Inl ''connection refused''
                 | Some (_, n) \<Rightarrow> Inr (wire_view (handleLog (itoa limit) n n))))"

definition failed_view :: "string \<Rightarrow> error \<Rightarrow> nodeLogView" where
  "failed_view i err = \<lparr>nl_Node = i, nl_LastIndex = 0, nl_CommitIndex = 0, nl_LastApplied = 0, nl_Entries = [], nl_Error = err\<rparr>"

definition handleClusterLog :: "string \<Rightarrow> (string \<times> string) list \<Rightarrow> RaftNode \<Rightarrow> servers \<Rightarrow> nodeLogView list" where
  "handleClusterLog query httpPeers n s =
     (let limit = parseLimit query 20 in
      map (\<lambda>i. if i = ns_ID (Status n) then localView limit n n
               else (case fetchPeerLog httpPeers i limit s of Inl err \<Rightarrow> failed_view i err | Inr v \<Rightarrow> v))
        (sorted_keys httpPeers))"

section \<open>Reaching every server\<close>

lemma of_ms_small: "0 < ms \<Longrightarrow> ms < 2 ^ 40 \<Longrightarrow> of_ms ms = ms * Millisecond"
  by (simp add: of_ms_def wrap64_id Millisecond_def)

lemma Milliseconds_of_ms: "Milliseconds (ms * Millisecond) = ms"
  by (cases "ms" "0 :: int" rule: linorder_cases) (simp_all add: Milliseconds_def Millisecond_def abs_mult sgn_mult)

lemma GetTimings_UpdateTimings:
  "GetTimings (UpdateTimings et hb n) =
     (if et > 0 then et else fst (GetTimings n), if hb > 0 then hb else snd (GetTimings n))"
  by (auto simp: GetTimings_def UpdateTimings_def Let_def)

text \<open>A cluster in which every configured server answers, seen from the server \<open>c\<close> at \<open>self\<close>.\<close>

definition sv_up :: "string \<Rightarrow> ConfigAPI \<Rightarrow> servers \<Rightarrow> bool" where
  "sv_up self c s \<longleftrightarrow> distinct (map fst (cf_httpPeers c)) \<and> distinct (map snd (cf_httpPeers c)) \<and>
     map_of (cf_httpPeers c) (cf_nodeID c) = Some self \<and>
     (\<forall>(i, a) \<in> set (cf_httpPeers c). sv_fail s a = None \<and> sv_host s a \<noteq> None)"

lemma sv_up_addr:
  assumes "sv_up self c s" and "(i, a) \<in> set (cf_httpPeers c)"
  shows "peer_addr c i = a" and "sv_fail s a = None" and "\<exists>h. sv_host s a = Some h" and "i = cf_nodeID c \<Longrightarrow> a = self"
  using assms by (auto simp: sv_up_def peer_addr_def split: option.split)

lemma sv_up_same:
  assumes "sv_up self c s" and "(i, a) \<in> set (cf_httpPeers c)" and "(j, b) \<in> set (cf_httpPeers c)"
  shows "i = j \<longleftrightarrow> a = b"
proof
  show "i = j \<Longrightarrow> a = b"
    using sv_up_addr(1) [OF assms(1,2)] sv_up_addr(1) [OF assms(1,3)] by simp
  show "a = b \<Longrightarrow> i = j"
    using assms inj_onD [of snd "set (cf_httpPeers c)" "(i, a)" "(j, b)"] by (simp add: sv_up_def distinct_map)
qed

lemma sv_up_put: "sv_up self c s \<Longrightarrow> sv_up self c (s\<lparr>sv_host := (sv_host s)(a \<mapsto> h)\<rparr>)"
  by (auto simp: sv_up_def)

lemma post_step_up:
  assumes "sv_up self c s" and "(i, a) \<in> set (cf_httpPeers c)" and "sv_host s a = Some h"
  shows "post_step self c et hb i s =
    (let n' = UpdateTimings (of_ms et) (of_ms hb) (snd h) in (timings_view i n', s\<lparr>sv_host := (sv_host s)(a \<mapsto> (fst h, n'))\<rparr>))"
  using sv_up_addr [OF assms(1,2)] assms(3)
  by (cases h) (auto simp: post_step_def config_exchange_def handleNodeConfig_def timings_view_def Let_def split: prod.split)

interpretation timings: fan_out "post_step self c et hb" "sv_up self c" "cf_httpPeers c" sv_host
  "\<lambda>i h. (fst h, UpdateTimings (of_ms et) (of_ms hb) (snd h))" "\<lambda>i h. timings_view i (UpdateTimings (of_ms et) (of_ms hb) (snd h))"
  for self c et hb
proof unfold_locales
  fix s i a assume up: "sv_up self c s" "(i, a) \<in> set (cf_httpPeers c)"
  then show "\<exists>h. sv_host s a = Some h"
    by (rule sv_up_addr(3))
  then obtain h where "sv_host s a = Some h" by blast
  from post_step_up [OF up this] show "sv_up self c (snd (post_step self c et hb i s))"
    using up(1) by (simp add: sv_up_put Let_def)
qed (auto simp: post_step_up Let_def sv_up_same)

lemma get_step_up:
  assumes "sv_up self c s" and "(i, a) \<in> set (cf_httpPeers c)" and "sv_host s a = Some h"
  shows "get_step self c s i = timings_view i (snd h)"
  using sv_up_addr [OF assms(1,2)] assms(3)
  by (cases h) (auto simp: get_step_def config_exchange_def handleNodeConfig_def timings_view_def split: prod.split)

lemma LogSnapshot_tail:
  assumes "log_ok (RaftNode.log n)" and "0 < limit" and "limit < 2 ^ 63"
  shows "LogSnapshot limit n = drop (length (tl (entries (RaftNode.log n))) - nat limit) (tl (entries (RaftNode.log n)))"
proof -
  let ?l = "RaftNode.log n" and ?w = "word_of_int limit :: u64"
  define L where "L = length (entries ?l) - 1"
  have len: "length (entries ?l) = Suc L"
    using log_ok_length [OF assms(1)] by (simp add: L_def)
  have lim: "unat ?w = nat limit"
    using assms(2,3) by (simp add: unat_eq_nat_uint uint_word_of_int_eq take_bit_int_eq_self)
  note ends = unat_LastIndex [OF assms(1), folded L_def] unat_LastIndex_Suc [OF assms(1), unfolded len]
  show ?thesis
  proof (cases "LastIndex ?l = 0")
    case True
    then have "L = 0" using ends(1) by simp
    then show ?thesis
      using True len by (cases "entries ?l") (simp_all add: LogSnapshot_def)
  next
    case False
    then have "0 < L" using ends(1) unat_eq_zero by (cases L) auto
    define lo where "lo = (if ?w < LastIndex ?l then LastIndex ?l - ?w + 1 else 1)"
    have "unat (LastIndex ?l - ?w) = L - nat limit" "unat (LastIndex ?l - ?w) < 2 ^ 64 - 1" if "?w < LastIndex ?l"
    proof -
      show d: "unat (LastIndex ?l - ?w) = L - nat limit"
        using that ends(1) lim unat_sub [of ?w "LastIndex ?l"] by (simp add: less_imp_le)
      show "unat (LastIndex ?l - ?w) < 2 ^ 64 - 1"
        unfolding d using log_ok_length [OF assms(1)] len by simp
    qed
    then have lo_nat: "unat lo = Suc (L - nat limit)"
      using ends(1) lim by (auto simp: lo_def word_less_nat_alt unat_word_ariths unsigned_1)
    have "GetEntries lo (LastIndex ?l + 1) ?l = Inr (drop (unat lo) (entries ?l))"
      using ends(2) len lo_nat assms(2) \<open>0 < L\<close> by (auto simp: GetEntries_Inr word_le_nat_alt)
    then show ?thesis
      using False assms(2) len lo_nat by (simp add: LogSnapshot_def Let_def lo_def drop_Suc)
  qed
qed

lemma parseLimit_range: "1 \<le> parseLimit query 20 \<and> parseLimit query 20 \<le> 200"
  by (auto simp: parseLimit_def split: option.split)

lemma parseLimit_itoa: "1 \<le> limit \<Longrightarrow> limit \<le> 200 \<Longrightarrow> parseLimit (itoa limit) 20 = limit"
  using Atoi_itoa [of limit] by (cases "itoa limit = ''''") (simp_all add: parseLimit_def Atoi_def)

lemma localView_entries:
  assumes "log_ok (RaftNode.log n)"
  shows "nl_Entries (localView (parseLimit query 20) n n) =
    map (entry_view (Status n))
      (drop (length (tl (entries (RaftNode.log n))) - nat (parseLimit query 20)) (tl (entries (RaftNode.log n))))"
  using parseLimit_range [of query] by (simp add: localView_def Let_def LogSnapshot_tail [OF assms])

section \<open>Properties of the administrative APIs\<close>

text \<open>
  Timings for the whole cluster. When every server answers, a POST of positive timings sets
  them on each node and reports them for each server in the order of the ids; a GET afterwards
  reports the same and changes nothing.
\<close>

theorem cluster_config_reaches_all:
  assumes "sv_up self c s" and "handleClusterConfig self c ''POST'' (Some (et, hb)) s = (Inr vs, s')"
    and "0 < et" and "et < 2 ^ 40" and "0 < hb" and "hb < 2 ^ 40"
  shows "vs = map (\<lambda>i. \<lparr>ncv_Node = i, ncv_ElectionTimeoutMs = et, ncv_HeartbeatMs = hb, ncv_Error = ''''\<rparr>) (sorted_keys (cf_httpPeers c)) \<and>
    (\<forall>(i, a) \<in> set (cf_httpPeers c). \<exists>j n. sv_host s' a = Some (j, n) \<and> GetTimings n = (et * Millisecond, hb * Millisecond)) \<and>
    handleClusterConfig self c ''GET'' None s' = (Inr vs, s')"
proof -
  let ?ids = "sorted_keys (cf_httpPeers c)" and ?view = "\<lambda>i. \<lparr>ncv_Node = i, ncv_ElectionTimeoutMs = et, ncv_HeartbeatMs = hb, ncv_Error = ''''\<rparr>"
  have run: "fan_run (post_step self c et hb) ?ids s = (vs, s')" and dist: "distinct (map fst (cf_httpPeers c))"
    using assms(1,2) by (auto simp: handleClusterConfig_def fanOutPost_def config_peerIDs_def sv_up_def split: prod.splits)
  have timings: "GetTimings (UpdateTimings (of_ms et) (of_ms hb) n) = (et * Millisecond, hb * Millisecond)" for n
    using assms(3-6) by (simp add: GetTimings_UpdateTimings of_ms_small Millisecond_def)
  then have view: "timings_view i (UpdateTimings (of_ms et) (of_ms hb) n) = ?view i" for i n
    by (simp add: timings_view_def Milliseconds_of_ms)
  have up: "sv_up self c s'"
    using timings.run_up [OF assms(1), of ?ids et hb] run by simp
  have host: "\<exists>j n. sv_host s' a = Some (j, UpdateTimings (of_ms et) (of_ms hb) n)" if mem: "(i, a) \<in> set (cf_httpPeers c)" for i a
  proof -
    obtain j n where "sv_host s a = Some (j, n)"
      using sv_up_addr(3) [OF assms(1) mem] by auto
    then show ?thesis
      using timings.run_host [OF assms(1) _ _ mem, of ?ids "(j, n)" et hb] dist run mem by (auto simp: rev_image_eqI)
  qed
  have vs: "vs = map ?view ?ids"
    using timings.run_results_const [OF assms(1), of ?ids et hb ?view] view dist run by simp
  have "get_step self c s' i = ?view i" if mem: "i \<in> set ?ids" for i
  proof -
    obtain a where "(i, a) \<in> set (cf_httpPeers c)" using mem by auto
    with host get_step_up [OF up] view show ?thesis by fastforce
  qed
  then have "fanOutGet self c s' = map ?view ?ids"
    by (simp add: fanOutGet_def config_peerIDs_def)
  then have get: "handleClusterConfig self c ''GET'' None s' = (Inr vs, s')"
    unfolding vs by (simp add: handleClusterConfig_def)
  have set_all: "\<exists>j n. sv_host s' a = Some (j, n) \<and> GetTimings n = (et * Millisecond, hb * Millisecond)"
    if "(i, a) \<in> set (cf_httpPeers c)" for i a
    using host [OF that] timings by blast
  show ?thesis
    by (intro conjI vs get) (use set_all in blast)
qed


text \<open>
  The log of the cluster as the dashboard shows it: the entry for a server that answers is what that
  server's own log view shows for the same limit, up to the replacement of invalid UTF-8; a server
  that does not answer is shown with its error and no entries.
\<close>

theorem cluster_log_shows_each_log:
  assumes "(i, a) \<in> set httpPeers" and "distinct (map fst httpPeers)" and "i \<noteq> node_id n"
  shows "(if sv_fail s a = None \<and> sv_host s a \<noteq> None
     then wire_view (handleLog query (snd (the (sv_host s a))) (snd (the (sv_host s a))))
     else failed_view i (case sv_fail s a of Some err \<Rightarrow> err | None \<Rightarrow> ''connection refused'')) \<in> set (handleClusterLog query httpPeers n s)"
proof -
  have limit: "parseLimit (itoa (parseLimit query 20)) 20 = parseLimit query 20"
    using parseLimit_range [of query] by (simp add: parseLimit_itoa)
  have "i \<in> set (sorted_keys httpPeers)"
    using assms(1) by (auto simp: rev_image_eqI)
  then show ?thesis
    unfolding handleClusterLog_def Let_def set_map
    by (rule rev_image_eqI)
      (use assms limit in \<open>auto simp: Status_def fetchPeerLog_def handleLog_def split: option.split\<close>)
qed

definition sample_servers :: "RaftNode \<Rightarrow> servers" where
  "sample_servers n = \<lparr>sv_host = ['':8001'' \<mapsto> (''a'', n), '':8002'' \<mapsto> (''b'', n), '':8003'' \<mapsto> (''c'', n)], sv_fail = (\<lambda>_. None)\<rparr>"

lemma sample_servers_up: "sv_up '':8001'' (NewConfigAPI ''a'' sample_peers) (sample_servers n)"
  by (simp add: sv_up_def NewConfigAPI_def sample_peers_def sample_servers_def)

theorem cluster_config_reaches_all_witness:
  "\<exists>n vs s'. boot ''c'' [''a'', ''b''] [] = Some n \<and>
     handleClusterConfig '':8001'' (NewConfigAPI ''a'' sample_peers) ''POST'' (Some (300, 100)) (sample_servers n) = (Inr vs, s') \<and>
     (\<exists>j n'. sv_host s' '':8003'' = Some (j, n') \<and> GetTimings n' = (300 * Millisecond, 100 * Millisecond))"
proof -
  obtain n where n: "boot ''c'' [''a'', ''b''] [] = Some n"
    by (rule sample_voter)
  obtain vs s' where run: "handleClusterConfig '':8001'' (NewConfigAPI ''a'' sample_peers) ''POST'' (Some (300, 100)) (sample_servers n) = (Inr vs, s')"
    by (cases "fanOutPost '':8001'' (NewConfigAPI ''a'' sample_peers) 300 100 (sample_servers n)") (simp add: handleClusterConfig_def)
  have "(''c'', '':8003'') \<in> set (cf_httpPeers (NewConfigAPI ''a'' sample_peers))"
    by (simp add: NewConfigAPI_def sample_peers_def)
  with cluster_config_reaches_all [OF sample_servers_up run] n run show ?thesis
    by fastforce
qed


theorem cluster_log_shows_each_log_witness:
  "\<exists>n. boot ''c'' [''a'', ''b''] [] = Some n \<and> node_id n = ''c'' \<and>
     wire_view (handleLog ''5'' n n) \<in> set (handleClusterLog ''5'' sample_peers n (sample_servers n))"
proof -
  obtain n where n: "boot ''c'' [''a'', ''b''] [] = Some n" "node_id n = ''c''"
    by (rule sample_voter)
  have "(''b'', '':8002'') \<in> set sample_peers" "distinct (map fst sample_peers)" "''b'' \<noteq> node_id n"
    using n(2) by (simp_all add: sample_peers_def)
  from cluster_log_shows_each_log [OF this, of "sample_servers n" "''5''"] n show ?thesis
    by (auto simp: sample_servers_def)
qed

end
