(* ===== verification/Server_Main.thy ===== *)
theory Server_Main
  imports Server_Chaos
begin

text \<open>
  One server process: the command line (\<open>src/cmd/server/main.go\<close>), the wiring of the parts and
  their life cycle (\<open>src/server/server.go\<close>) and the gauges fed by the poller
  (\<open>src/server/metrics.go\<close>). Listening on the gRPC address is an input. The transport and the
  chaos API share one proxy, and the transport, the store and the APIs share one node: the proxy
  lives in \<open>srv_chaos\<close> and the node in \<open>srv_node\<close>.
\<close>

section \<open>The command line\<close>

definition parse_parts :: "string \<Rightarrow> (string \<times> string) list" where
  "parse_parts s = concat (map (\<lambda>part. case SplitN2 CHR ''='' part of [k, v] \<Rightarrow> [(k, v)] | _ \<Rightarrow> []) (Split CHR '','' s))"

definition parseGRPCPeers :: "string \<Rightarrow> PeerConfig list" where
  "parseGRPCPeers s = (if s = '''' then [] else map (\<lambda>(k, v). \<lparr>pc_ID = k, pc_Address = v\<rparr>) (parse_parts s))"

text \<open>Assignments to a Go map in the order of the parts; a later one replaces an earlier one.\<close>

definition parseHTTPPeers :: "string \<Rightarrow> (string \<times> string) list" where
  "parseHTTPPeers s = (if s = '''' then [] else fold (\<lambda>(k, v) m. AList.update k v m) (parse_parts s) [])"

record ServerConfig =
  sc_Raft :: Config
  GRPCAddr :: string
  HttpAddr :: string
  HTTPPeers :: "(string \<times> string) list"

record flags =
  fl_id :: string
  fl_grpc_addr :: string
  fl_http_addr :: string
  fl_data_dir :: string
  fl_peers :: string
  fl_http_peers :: string

text \<open>The configuration of \<open>main\<close>; \<open>None\<close> is the exit with the usage message.\<close>

definition main_config :: "flags \<Rightarrow> ServerConfig option" where
  "main_config fl =
     (if fl_id fl = '''' \<or> fl_grpc_addr fl = '''' \<or> fl_http_addr fl = '''' then None
      else let dir = (if fl_data_dir fl = '''' then ''data/'' @ fl_id fl else fl_data_dir fl) in
        Some \<lparr>sc_Raft = \<lparr>NodeID = fl_id fl, Peers = parseGRPCPeers (fl_peers fl), ElectionTimeout = 150 * Millisecond,
                HeartbeatInterval = 50 * Millisecond, MaxLogEntries = 1000, SnapshotThreshold = 10000, DataDir = dir,
                EnablePreVote = True\<rparr>,
              GRPCAddr = fl_grpc_addr fl, HttpAddr = fl_http_addr fl, HTTPPeers = parseHTTPPeers (fl_http_peers fl)\<rparr>)"

section \<open>Metrics\<close>

text \<open>
  The gauges and the counter that the poller writes. \<open>LogEntriesTotal\<close> is the counter of the
  store; the other instruments are registered and never written.
\<close>

record Metrics =
  m_CurrentTerm :: rat
  m_State :: rat
  m_CommittedIndex :: rat
  m_AppliedIndex :: rat
  m_LeaderChanges :: nat

definition NewMetrics :: Metrics where
  "NewMetrics = \<lparr>m_CurrentTerm = 0, m_State = 0, m_CommittedIndex = 0, m_AppliedIndex = 0, m_LeaderChanges = 0\<rparr>"

definition stateValue :: "NodeState \<Rightarrow> rat" where
  "stateValue s = (case s of Candidate \<Rightarrow> 1 | PreCandidate \<Rightarrow> 1 | Leader \<Rightarrow> 2 | Follower \<Rightarrow> 0)"

definition float_of_u64 :: "u64 \<Rightarrow> rat" where
  "float_of_u64 x = float_of_int (uint x)"

definition Metrics_Update :: "NodeStatus \<Rightarrow> string \<Rightarrow> Metrics \<Rightarrow> Metrics" where
  "Metrics_Update status prevLeader m =
     (let m1 = m\<lparr>m_CurrentTerm := float_of_u64 (ns_Term status), m_State := stateValue (ns_State status),
                 m_CommittedIndex := float_of_u64 (ns_CommitIndex status), m_AppliedIndex := float_of_u64 (ns_LastApplied status)\<rparr>
      in if prevLeader \<noteq> ns_LeaderID status \<and> ns_LeaderID status \<noteq> '''' then m1\<lparr>m_LeaderChanges := Suc (m_LeaderChanges m1)\<rparr> else m1)"

text \<open>The poller on the statuses it reads, one per second.\<close>

fun collectMetrics :: "string \<Rightarrow> NodeStatus list \<Rightarrow> Metrics \<Rightarrow> Metrics" where
  "collectMetrics prevLeader [] m = m"
| "collectMetrics prevLeader (status # ss) m = collectMetrics (ns_LeaderID status) ss (Metrics_Update status prevLeader m)"

section \<open>Life cycle\<close>

record Server =
  srv_config :: ServerConfig
  srv_node :: RaftNode
  srv_grpc :: GRPCTransport
  srv_kv :: KVStore
  srv_chaos :: ChaosAPI
  srv_metrics :: Metrics
  srv_running :: bool
  srv_stopped :: bool

text \<open>\<open>ok\<close> and \<open>contents\<close> say whether the file of the node can be opened, and what it holds.\<close>

definition server_New :: "ServerConfig \<Rightarrow> bool \<Rightarrow> byte list \<Rightarrow> Server result option" where
  "server_New cfg ok contents =
     (let grpcPeers = map_of (rev (map (\<lambda>p. (pc_ID p, pc_Address p)) (Peers (sc_Raft cfg)))); proxy = NewNetworkProxy in
      case NewRaftNode (sc_Raft cfg) ok contents of
        None \<Rightarrow> None
      | Some (Inl err) \<Rightarrow> Some (Inl (''create raft node: '' @ err))
      | Some (Inr node) \<Rightarrow>
          Some (Inr \<lparr>srv_config = cfg, srv_node = node, srv_grpc = NewGRPCTransport (NodeID (sc_Raft cfg)) (GRPCAddr cfg) grpcPeers proxy,
            srv_kv = NewKVStore (HTTPPeers cfg) True, srv_chaos = NewChaosAPI (NodeID (sc_Raft cfg)) proxy (HTTPPeers cfg),
            srv_metrics = NewMetrics, srv_running = False, srv_stopped = False\<rparr>))"

text \<open>\<open>srv_running\<close>: the apply loop, the poller and the HTTP listener have been started.\<close>

definition server_Start :: "error option \<Rightarrow> env \<Rightarrow> Server \<Rightarrow> (error option \<times> Server) option" where
  "server_Start listen e s =
     (case grpc_Start listen (srv_grpc s) of
        (Some err, g) \<Rightarrow> Some (Some (''start gRPC transport: '' @ err), s\<lparr>srv_grpc := g\<rparr>)
      | (None, g) \<Rightarrow>
          (case Start e (srv_node s) of
             None \<Rightarrow> None
           | Some n \<Rightarrow> Some (None, s\<lparr>srv_node := n, srv_grpc := grpc_Register n g, srv_running := True\<rparr>)))"

text \<open>Closing the channels a second time panics.\<close>

definition server_Stop :: "Server \<Rightarrow> Server option" where
  "server_Stop s =
     (if srv_stopped s then None
      else Some (s\<lparr>srv_stopped := True, srv_running := False, srv_node := Stop (srv_node s), srv_grpc := grpc_Close (srv_grpc s)\<rparr>))"

section \<open>Properties of a server\<close>

text \<open>The text of a peer flag.\<close>

fun flag_text :: "(string \<times> string) list \<Rightarrow> string" where
  "flag_text [] = ''''"
| "flag_text [(k, v)] = k @ ''='' @ v"
| "flag_text ((k, v) # p # ps) = k @ ''='' @ v @ '','' @ flag_text (p # ps)"

definition flag_ok :: "string \<times> string \<Rightarrow> bool" where
  "flag_ok = (\<lambda>(k, v). CHR ''='' \<notin> set k \<and> CHR '','' \<notin> set k \<and> CHR '','' \<notin> set v)"

lemma parse_parts_flag: "ps \<noteq> [] \<Longrightarrow> list_all flag_ok ps \<Longrightarrow> parse_parts (flag_text ps) = ps"
proof (induction ps rule: flag_text.induct)
  case (2 k v)
  then have "CHR '','' \<notin> set (k @ ''='' @ v)" by (simp add: flag_ok_def)
  from Split_single [OF this] SplitN2_append [of "CHR ''=''" k v] 2 show ?case
    by (simp add: parse_parts_def flag_ok_def)
next
  case (3 k v p ps)
  then have "CHR '','' \<notin> set (k @ ''='' @ v)" by (simp add: flag_ok_def)
  from Split_append [OF this, of "flag_text (p # ps)"] SplitN2_append [of "CHR ''=''" k v] 3 show ?case
    by (simp add: parse_parts_def flag_ok_def)
qed simp

lemma flag_text_empty: "flag_text ps = '''' \<longleftrightarrow> ps = []"
  by (cases ps rule: flag_text.cases) auto

lemma fold_update_map:
  "map_of (fold (\<lambda>(k, v) m. AList.update k v m) ps m) = map_of m ++ map_of (rev ps)"
  by (induction ps arbitrary: m) (auto simp: AList.update_conv' map_add_upd_left map_add_def fun_eq_iff split: option.splits)

lemma peer_flags_text: "list_all flag_ok ps \<Longrightarrow> parseGRPCPeers (flag_text ps) = map (\<lambda>(k, v). \<lparr>pc_ID = k, pc_Address = v\<rparr>) ps"
  by (cases "ps = []") (simp_all add: parseGRPCPeers_def flag_text_empty parse_parts_flag)

text \<open>
  The peer flags are read back as written: ids without an equals sign or a comma, addresses
  without a comma. An address may contain an equals sign.
\<close>

theorem peer_flags_roundtrip:
  assumes "list_all flag_ok ps"
  shows "parseGRPCPeers (flag_text ps) = map (\<lambda>(k, v). \<lparr>pc_ID = k, pc_Address = v\<rparr>) ps \<and>
    (distinct (map fst ps) \<longrightarrow> map_of (parseHTTPPeers (flag_text ps)) = map_of ps)"
proof (cases "ps = []")
  case False
  have "map_of (rev ps) = map_of ps" if "distinct (map fst ps)"
    using that by (simp add: map_of_inject_set rev_map [symmetric])
  then show ?thesis
    using False assms peer_flags_text by (simp add: parseHTTPPeers_def flag_text_empty parse_parts_flag fold_update_map)
qed (simp add: parseGRPCPeers_def parseHTTPPeers_def)

theorem peer_flags_roundtrip_witness:
  "parseGRPCPeers ''n2=:7002,n3=h=3'' = [\<lparr>pc_ID = ''n2'', pc_Address = '':7002''\<rparr>, \<lparr>pc_ID = ''n3'', pc_Address = ''h=3''\<rparr>]"
proof -
  have "list_all flag_ok [(''n2'', '':7002''), (''n3'', ''h=3'')]"
    by (simp add: flag_ok_def)
  from peer_flags_roundtrip [OF this] show ?thesis
    by simp
qed

text \<open>The polls at which a new known leader differs from the leader of the poll before.\<close>

fun leader_switches :: "string \<Rightarrow> string list \<Rightarrow> nat" where
  "leader_switches old [] = 0"
| "leader_switches old (l # ls) = (if l \<noteq> old \<and> l \<noteq> '''' then 1 else 0) + leader_switches l ls"

lemma collectMetrics_changes:
  "m_LeaderChanges (collectMetrics old ss m) = m_LeaderChanges m + leader_switches old (map ns_LeaderID ss)"
  by (induction ss arbitrary: old m) (auto simp: Metrics_Update_def Let_def)

lemma collectMetrics_last:
  "ss \<noteq> [] \<Longrightarrow> m_State (collectMetrics old ss m) = stateValue (ns_State (last ss)) \<and>
     m_CommittedIndex (collectMetrics old ss m) = float_of_u64 (ns_CommitIndex (last ss))"
proof (induction ss arbitrary: old m)
  case (Cons s ss)
  then show ?case by (cases ss) (simp_all add: Metrics_Update_def Let_def)
qed simp

text \<open>
  What the gauges show. After any polls the gauges hold the values of the newest status, and
  the counter of leader changes has grown by the number of polls that saw a known leader other
  than the one of the poll before.
\<close>

theorem metrics_follow_status:
  assumes "ss \<noteq> []"
  shows "m_State (collectMetrics old ss m) = stateValue (ns_State (last ss)) \<and>
    m_CommittedIndex (collectMetrics old ss m) = float_of_u64 (ns_CommitIndex (last ss)) \<and>
    m_LeaderChanges (collectMetrics old ss m) = m_LeaderChanges m + leader_switches old (map ns_LeaderID ss)"
  using collectMetrics_changes collectMetrics_last [OF assms] by simp

definition sample_status :: "string \<Rightarrow> NodeStatus" where
  "sample_status l = \<lparr>ns_ID = ''a'', ns_State = Follower, ns_Term = 3, ns_LeaderID = l, ns_CommitIndex = 2, ns_LastApplied = 2, ns_LogIndex = 4\<rparr>"

theorem metrics_follow_status_witness:
  "m_LeaderChanges (collectMetrics '''' (map sample_status [''b'', ''b'', '''', ''b'', ''c'']) NewMetrics) = 3"
proof -
  have "map sample_status [''b'', ''b'', '''', ''b'', ''c''] \<noteq> []" by simp
  from metrics_follow_status [OF this, of "''''" NewMetrics] show ?thesis
    by (simp add: sample_status_def NewMetrics_def)
qed


definition sample_flags :: flags where
  "sample_flags = \<lparr>fl_id = ''c'', fl_grpc_addr = '':7003'', fl_http_addr = '':8003'', fl_data_dir = '''', fl_peers = ''a=,b='',
     fl_http_peers = ''a=:8001,b=:8002,c=:8003''\<rparr>"




end
