(* ===== verification/Server_Stream.thy ===== *)
theory Server_Stream
  imports Server_KV
begin

text \<open>
  The event stream of \<open>HandleEvents\<close> in \<open>src/server/api.go\<close> as it goes over the wire: the header of the
  answer, the JSON text of each event and its frame, and a reader of such streams.
\<close>

section \<open>Frames\<close>

text \<open>The type, the payload and the node of an event.\<close>

fun event_parts :: "kv_event \<Rightarrow> string \<times> json \<times> string" where
  "event_parts (EvStatus snap) = (''status'', cluster_json snap, '''')"
| "event_parts (EvLeaderChange a b) = (''leader_change'', JObj [(''from'', JStr a), (''to'', JStr b)], b)"
| "event_parts (EvTermChange a b) = (''term_change'', JObj [(''from'', num a), (''to'', num b)], '''')"
| "event_parts (EvNodeDown i) = (''node_down'', JObj [(''id'', JStr i)], i)"
| "event_parts (EvNodeUp i) = (''node_up'', JObj [(''id'', JStr i)], i)"

text \<open>The closure \<open>send\<close>; a map is encoded in the order of its keys, \<open>ts\<close> is the clock at the call.\<close>

definition event_json :: "int \<Rightarrow> kv_event \<Rightarrow> json" where
  "event_json ts ev =
     (case event_parts ev of
        (typ, payload, nodeID) \<Rightarrow>
          JObj ([(''data'', payload)] @ (if nodeID \<noteq> '''' then [(''node_id'', JStr nodeID)] else []) @
            [(''timestamp'', JNum (itoa ts)), (''type'', JStr typ)]))"

definition event_frame :: "int \<Rightarrow> kv_event \<Rightarrow> string" where
  "event_frame ts ev = ''data: '' @ json_text (event_json ts ev) @ newline @ newline"

text \<open>
  The answer for the snapshots of successive ticks, up to the moment the client goes away. \<open>clock\<close> has the
  time of each call of \<open>send\<close>, \<open>flusher\<close> says whether the writer can stream.
\<close>

definition HandleEvents_response :: "bool \<Rightarrow> (nat \<Rightarrow> int) \<Rightarrow> clusterView \<Rightarrow> clusterView list \<Rightarrow> http_response" where
  "HandleEvents_response flusher clock first_snap snaps =
     (if \<not> flusher then http_Error ''streaming unsupported'' 500
      else \<lparr>rs_Status = 200,
        rs_Header = [(''Content-Type'', ''text/event-stream''), (''Cache-Control'', ''no-cache''), (''Connection'', ''keep-alive''),
          (''X-Accel-Buffering'', ''no'')],
        rs_Body = concat (map (\<lambda>(i, ev). event_frame (clock i) ev) (enumerate 0 (HandleEvents first_snap snaps)))\<rparr>)"

text \<open>The reader of an event stream that has only data fields: an empty line ends an event.\<close>

fun sse_lines :: "string list \<Rightarrow> string list \<Rightarrow> string list" where
  "sse_lines buf [] = []"
| "sse_lines buf (l # ls) =
     (if l = '''' then (if buf = [] then sse_lines [] ls else join newline buf # sse_lines [] ls)
      else sse_lines (buf @ [TrimPrefix l ''data: '']) ls)"

definition sse_read :: "string \<Rightarrow> string list" where
  "sse_read s = sse_lines [] (Split (CHR 0x0A) s)"

section \<open>Lemmas\<close>

text \<open>JSON texts stay on one line: control characters in strings are escaped.\<close>

lemma rune_bytes_big: "rune_len s = k \<Longrightarrow> 1 < k \<Longrightarrow> c \<in> set (take k s) \<Longrightarrow> 128 \<le> (of_char c :: nat)"
  by (cases s; cases "tl s"; cases "tl (tl s)"; cases "tl (tl (tl s))") (auto simp: rune_len.simps cont_def split: if_split_asm)

lemma hex_digit_not_newline: "d < 16 \<Longrightarrow> hex_digit d \<noteq> CHR 0x0A"
proof -
  assume "d < 16"
  then have "(of_char (hex_digit d) :: nat) = (if d < 10 then 48 + d else 87 + d)"
    by (simp add: hex_digit_def)
  then show ?thesis
    by (auto split: if_splits)
qed

lemma quote_ascii_one_line: "CHR 0x0A \<notin> set (quote_ascii c)"
  using hex_digit_not_newline [of "of_char c mod 16"] hex_digit_not_newline [OF less_mult_imp_div_less, of "of_char c" 16]
  by (auto simp: quote_ascii_def)

lemma quote_body_one_line: "CHR 0x0A \<notin> set (quote_body s)"
proof (induction s rule: quote_body.induct)
  case (2 a s)
  define k where "k = rune_len (a # s)"
  have "CHR 0x0A \<notin> set (take k (a # s))" if "1 < k"
    using rune_bytes_big [of "a # s" k "CHR 0x0A"] that by (auto simp: k_def)
  with 2 quote_ascii_one_line show ?case
    by (auto simp: quote_body.simps(2) k_def [symmetric] Let_def)
qed (simp add: quote_body.simps)

lemma set_join: "c \<in> set (join sep xs) \<Longrightarrow> c \<in> set sep \<or> (\<exists>x \<in> set xs. c \<in> set x)"
  by (induction sep xs rule: join.induct) auto

text \<open>Values whose numbers are digits with a sign.\<close>

fun plain_numbers :: "json \<Rightarrow> bool" where
  "plain_numbers (JNum s) \<longleftrightarrow> CHR 0x0A \<notin> set s"
| "plain_numbers (JArr vs) \<longleftrightarrow> list_all plain_numbers vs"
| "plain_numbers (JObj ms) \<longleftrightarrow> list_all (\<lambda>(k, v). plain_numbers v) ms"
| "plain_numbers _ \<longleftrightarrow> True"

lemma json_text_one_line: "plain_numbers v \<Longrightarrow> CHR 0x0A \<notin> set (json_text v)"
proof (induction v rule: json_text.induct)
  case (6 ms)
  then have "\<And>k v. (k, v) \<in> set ms \<Longrightarrow> CHR 0x0A \<notin> set (json_text v)"
    by (fastforce simp: list_all_iff)
  then show ?case
    by (auto simp: json_quote_def quote_body_one_line dest!: set_join)
qed (auto simp: json_quote_def quote_body_one_line list_all_iff dest!: set_join)

lemma decimal_one_line: "CHR 0x0A \<notin> set (decimal n)"
  using decimal_digits [of n] by (auto simp: list_all_iff decimal_digit_def)

lemma itoa_one_line: "CHR 0x0A \<notin> set (itoa i)"
  by (simp add: itoa_def decimal_one_line)

lemma event_one_line: "plain_numbers (event_json ts ev)"
  by (cases ev) (simp_all add: event_json_def cluster_json_def view_json_def num_def itoa_one_line decimal_one_line list_all_iff)

lemma sse_frame: "sse_read (event_frame ts ev @ s) = json_text (event_json ts ev) # sse_read s"
proof -
  have one: "CHR 0x0A \<notin> set (''data: '' @ json_text (event_json ts ev))"
    using json_text_one_line [OF event_one_line] by simp
  have "Split (CHR 0x0A) (event_frame ts ev @ s) =
      (''data: '' @ json_text (event_json ts ev)) # Split (CHR 0x0A) (CHR 0x0A # s)"
    using Split_append [OF one, of "CHR 0x0A # s"] by (simp add: event_frame_def newline_def)
  also have "Split (CHR 0x0A) (CHR 0x0A # s) = [] # Split (CHR 0x0A) s"
    using Split_append [of "CHR 0x0A" "[]" s] by simp
  finally show ?thesis
    using TrimPrefix_append [of "''data: ''"] by (simp add: sse_read_def del: TrimPrefix_append)
qed

lemma sse_read_Nil: "sse_read [] = []"
  by (simp add: sse_read_def)

section \<open>Properties of the stream\<close>

text \<open>
  C36. The event stream can be read back. Whatever the snapshots and the clock, a reader of the body of the answer
  gets exactly one text per event, in order, and that text is the JSON of the event: no frame is
  split or merged, because the encoder leaves no line break inside a value.
\<close>

theorem event_stream_roundtrip:
  "sse_read (rs_Body (HandleEvents_response True clock first_snap snaps)) =
     map (\<lambda>(i, ev). json_text (event_json (clock i) ev)) (enumerate 0 (HandleEvents first_snap snaps))"
proof -
  have "sse_read (concat (map (\<lambda>(i, ev). event_frame (clock i) ev) evs)) = map (\<lambda>(i, ev). json_text (event_json (clock i) ev)) evs" for evs
    by (induction evs) (auto simp: sse_frame sse_read_Nil)
  then show ?thesis
    by (simp add: HandleEvents_response_def)
qed

end
