(* ===== verification/Server_Routes.thy ===== *)
theory Server_Routes
  imports Server_KV
begin

text \<open>
  The routes of the HTTP server: the tables of the four \<open>RegisterRoutes\<close>, the multiplexer built in
  \<open>src/server/server.go\<close>, and the dashboard handler of \<open>src/web/embed.go\<close> that takes what no other
  route takes. The multiplexer of \<open>net/http\<close> is modelled for patterns without method, host
  and wildcards: registering a pattern twice panics, a path that is not clean is redirected, and of
  the patterns that match the longest counts.
\<close>

section \<open>Clean paths\<close>

fun clean_step :: "string list \<Rightarrow> string list \<Rightarrow> string list" where
  "clean_step st [] = rev st"
| "clean_step st (s # ss) =
     (if s = '''' \<or> s = ''.'' then clean_step st ss
      else if s = ''..'' then clean_step (tl st) ss
      else clean_step (s # st) ss)"

text \<open>Cleaning of a rooted path; \<open>cleanPath\<close> of \<open>net/http\<close> roots the path and keeps a final slash.\<close>

definition rooted_clean :: "string \<Rightarrow> string" where
  "rooted_clean p = ''/'' @ join ''/'' (clean_step [] (Split (CHR ''/'') p))"

definition cleanPath :: "string \<Rightarrow> string" where
  "cleanPath p =
     (if p = '''' then ''/''
      else let np = rooted_clean p in if last p = CHR ''/'' \<and> np \<noteq> ''/'' then np @ ''/'' else np)"

section \<open>The multiplexer\<close>

datatype handler =
    KeysHandler | StatusHandler | ClusterHandler | EventsHandler
  | RulesHandler | ApplyLocalHandler | HealLocalHandler
  | ClusterStateHandler | IsolateHandler | PartitionHandler | DelayHandler | LossHandler | ClusterHealHandler
  | LogHandler | ClusterLogHandler | NodeConfigHandler | ClusterConfigHandler
  | MetricsHandler | DashboardHandler

type_synonym mux = "(string \<times> handler) list"

definition HandleFunc :: "string \<times> handler \<Rightarrow> mux \<Rightarrow> mux option" where
  "HandleFunc p m = (if fst p \<in> fst ` set m then None else Some (m @ [p]))"

fun register :: "(string \<times> handler) list \<Rightarrow> mux \<Rightarrow> mux option" where
  "register [] m = Some m"
| "register (p # ps) m = (case HandleFunc p m of None \<Rightarrow> None | Some m' \<Rightarrow> register ps m')"

definition KV_RegisterRoutes :: "mux \<Rightarrow> mux option" where
  "KV_RegisterRoutes = register
     [(''/keys/'', KeysHandler), (''/status'', StatusHandler), (''/api/cluster'', ClusterHandler), (''/api/events'', EventsHandler)]"

definition Chaos_RegisterRoutes :: "mux \<Rightarrow> mux option" where
  "Chaos_RegisterRoutes = register
     [(''/api/chaos/rules'', RulesHandler), (''/api/chaos/apply'', ApplyLocalHandler), (''/api/chaos/heal'', HealLocalHandler),
      (''/api/cluster/chaos/state'', ClusterStateHandler), (''/api/cluster/chaos/isolate'', IsolateHandler),
      (''/api/cluster/chaos/partition'', PartitionHandler), (''/api/cluster/chaos/delay'', DelayHandler),
      (''/api/cluster/chaos/loss'', LossHandler), (''/api/cluster/chaos/heal'', ClusterHealHandler)]"

definition Log_RegisterRoutes :: "mux \<Rightarrow> mux option" where
  "Log_RegisterRoutes = register [(''/api/log'', LogHandler), (''/api/cluster/log'', ClusterLogHandler)]"

definition Config_RegisterRoutes :: "mux \<Rightarrow> mux option" where
  "Config_RegisterRoutes = register [(''/api/config'', NodeConfigHandler), (''/api/cluster/config'', ClusterConfigHandler)]"

definition server_mux :: "mux option" where
  "server_mux =
     (case KV_RegisterRoutes [] of None \<Rightarrow> None | Some m1 \<Rightarrow>
      case Chaos_RegisterRoutes m1 of None \<Rightarrow> None | Some m2 \<Rightarrow>
      case Log_RegisterRoutes m2 of None \<Rightarrow> None | Some m3 \<Rightarrow>
      case Config_RegisterRoutes m3 of None \<Rightarrow> None | Some m4 \<Rightarrow>
        register [(''/metrics'', MetricsHandler), (''/'', DashboardHandler)] m4)"

definition pattern_matches :: "string \<Rightarrow> string \<Rightarrow> bool" where
  "pattern_matches pat p \<longleftrightarrow> pat = p \<or> (pat \<noteq> '''' \<and> last pat = CHR ''/'' \<and> take (length pat) p = pat)"

fun best_match :: "string \<Rightarrow> mux \<Rightarrow> (string \<times> handler) option" where
  "best_match p [] = None"
| "best_match p (r # m) =
     (case best_match p m of
        None \<Rightarrow> if pattern_matches (fst r) p then Some r else None
      | Some q \<Rightarrow> if pattern_matches (fst r) p \<and> length (fst r) > length (fst q) then Some r else Some q)"

text \<open>\<open>p\<close> is the path of the request line. The status of a redirect is a matter of the library's version.\<close>

datatype dispatch = Redirect string | Serve handler | NotFound

definition mux_dispatch :: "mux \<Rightarrow> string \<Rightarrow> dispatch" where
  "mux_dispatch m p =
     (let path = cleanPath p in
      if path \<notin> fst ` set m \<and> last path \<noteq> CHR ''/'' \<and> path @ ''/'' \<in> fst ` set m then Redirect (path @ ''/'')
      else if path \<noteq> p then Redirect path
      else (case best_match path m of None \<Rightarrow> NotFound | Some r \<Rightarrow> Serve (snd r)))"

text \<open>The request line of a request and where the server sends it.\<close>

definition line_path :: "http_request \<Rightarrow> string" where
  "line_path r = takeWhile ((\<noteq>) (CHR ''?'')) (rq_URI r)"

definition server_dispatch :: "http_request \<Rightarrow> dispatch option" where
  "server_dispatch r = map_option (\<lambda>m. mux_dispatch m (line_path r)) server_mux"

section \<open>The dashboard\<close>

text \<open>
  \<open>files\<close> are the names in the embedded directory, \<open>None\<close> when it cannot be opened, and \<open>serve\<close> is the file
  server of \<open>net/http\<close> on a path. The path starts with a slash, as the multiplexer passes it on.
\<close>

definition web_Handler :: "string list option \<Rightarrow> (string \<Rightarrow> http_response) \<Rightarrow> string \<Rightarrow> http_response" where
  "web_Handler files serve p =
     (case files of
        None \<Rightarrow> http_Error ''UI assets missing'' 500
      | Some names \<Rightarrow>
          let clean = TrimPrefix (rooted_clean p) ''/'' in
          if clean = '''' \<or> clean = ''.'' then serve p
          else if clean \<notin> set names then serve ''/''
          else serve p)"

section \<open>Lemmas\<close>

text \<open>The table the server ends up with.\<close>

definition routes :: mux where
  "routes =
    [(''/keys/'', KeysHandler), (''/status'', StatusHandler), (''/api/cluster'', ClusterHandler), (''/api/events'', EventsHandler),
     (''/api/chaos/rules'', RulesHandler), (''/api/chaos/apply'', ApplyLocalHandler), (''/api/chaos/heal'', HealLocalHandler),
     (''/api/cluster/chaos/state'', ClusterStateHandler), (''/api/cluster/chaos/isolate'', IsolateHandler),
     (''/api/cluster/chaos/partition'', PartitionHandler), (''/api/cluster/chaos/delay'', DelayHandler),
     (''/api/cluster/chaos/loss'', LossHandler), (''/api/cluster/chaos/heal'', ClusterHealHandler),
     (''/api/log'', LogHandler), (''/api/cluster/log'', ClusterLogHandler),
     (''/api/config'', NodeConfigHandler), (''/api/cluster/config'', ClusterConfigHandler),
     (''/metrics'', MetricsHandler), (''/'', DashboardHandler)]"

lemma server_mux_routes: "server_mux = Some routes"
  unfolding server_mux_def KV_RegisterRoutes_def Chaos_RegisterRoutes_def Log_RegisterRoutes_def Config_RegisterRoutes_def
  by (simp add: HandleFunc_def routes_def)

lemma distinct_routes: "distinct (map fst routes)"
  by (simp add: routes_def)

lemma best_match_longest:
  "r \<in> set m \<Longrightarrow> pattern_matches (fst r) p \<Longrightarrow>
   \<forall>q \<in> set m. pattern_matches (fst q) p \<longrightarrow> q = r \<or> length (fst q) < length (fst r) \<Longrightarrow> best_match p m = Some r"
proof (induction m)
  case (Cons a m)
  have none: "best_match p m = Some q \<Longrightarrow> q \<in> set m \<and> pattern_matches (fst q) p" for q m
    by (induction m arbitrary: q) (auto split: option.splits if_splits)
  show ?case
  proof (cases "r \<in> set m")
    case True
    with Cons show ?thesis by auto
  next
    case False
    with Cons.prems have "a = r" by auto
    with False Cons.prems show ?thesis
      by (auto split: option.split dest!: none)
  qed
qed simp

lemma pattern_matches_length: "pattern_matches pat p \<Longrightarrow> length pat < length p \<or> pat = p"
  by (auto simp: pattern_matches_def) (metis le_neq_implies_less length_take min.cobounded1 take_all_iff le_refl)

text \<open>A registered path that is clean is served by its own handler.\<close>

lemma exact_route:
  assumes "distinct (map fst m)" and "(pat, h) \<in> set m" and "cleanPath pat = pat"
  shows "mux_dispatch m pat = Serve h"
proof -
  have longest: "\<forall>q \<in> set m. pattern_matches (fst q) pat \<longrightarrow> q = (pat, h) \<or> length (fst q) < length (fst (pat, h))"
  proof (intro ballI impI)
    fix q
    assume q: "q \<in> set m" "pattern_matches (fst q) pat"
    show "q = (pat, h) \<or> length (fst q) < length (fst (pat, h))"
    proof (cases "fst q = pat")
      case True
      then have "snd q = h"
        using q(1) assms(2) by (intro eq_key_imp_eq_value [OF assms(1)]) (auto simp: prod_eq_iff)
      with True show ?thesis by (simp add: prod_eq_iff)
    qed (use pattern_matches_length [OF q(2)] in simp)
  qed
  have "pattern_matches (fst (pat, h)) pat"
    by (simp add: pattern_matches_def)
  from best_match_longest [OF assms(2) this longest] have "best_match pat m = Some (pat, h)" .
  moreover have "pat \<in> fst ` set m"
    using assms(2) by (rule image_eqI [rotated]) simp
  ultimately show ?thesis
    by (simp add: mux_dispatch_def assms(3))
qed

text \<open>Paths of one segment below \<open>/keys/\<close>.\<close>

definition segment :: "string \<Rightarrow> bool" where
  "segment k \<longleftrightarrow> k \<notin> {'''', ''.'', ''..''} \<and> CHR ''/'' \<notin> set k"

lemma Split_keys: "segment k \<Longrightarrow> Split (CHR ''/'') (''/keys/'' @ k) = [[], ''keys'', k]"
  using Split_append [of "CHR ''/''" "[]" "''keys/'' @ k"] Split_append [of "CHR ''/''" "''keys''" k] Split_single [of "CHR ''/''" k]
  by (simp add: segment_def)

lemma cleanPath_keys: 
  assumes "segment k"
  shows "cleanPath (''/keys/'' @ k) = ''/keys/'' @ k"
proof -
  have "k \<noteq> []" and "CHR ''/'' \<notin> set k"
    using assms by (simp_all add: segment_def)
  then have "last (''/keys/'' @ k) \<noteq> CHR ''/''"
    using last_in_set [of k] by (metis last_appendR)
  then show ?thesis
    using assms unfolding cleanPath_def rooted_clean_def Split_keys [OF assms] by (simp add: segment_def)
qed

lemma keys_dispatch:
  assumes "segment k"
  shows "mux_dispatch routes (''/keys/'' @ k) = Serve KeysHandler"
proof -
  have "best_match (''/keys/'' @ k) routes = Some (''/keys/'', KeysHandler)"
    using assms by (intro best_match_longest) (auto simp: routes_def pattern_matches_def segment_def)
  moreover have "(''/keys/'' @ k) @ ''/'' \<notin> fst ` set routes"
    by (simp add: routes_def)
  ultimately show ?thesis
    by (simp add: mux_dispatch_def cleanPath_keys [OF assms] del: append_Cons append_Nil)
qed

lemma clean_rooted: "cleanPath p = p \<Longrightarrow> take 1 p = ''/''"
  by (cases p) (auto simp: cleanPath_def rooted_clean_def Let_def split: if_splits)

lemma fallback_dispatch:
  assumes "cleanPath p = p" and "p \<notin> fst ` set routes" and "p \<noteq> ''/keys''" and "take 6 p \<noteq> ''/keys/''"
  shows "mux_dispatch routes p = Serve DashboardHandler"
proof -
  have "best_match p routes = Some (''/'', DashboardHandler)"
    using assms(2,4) clean_rooted [OF assms(1)]
    by (intro best_match_longest) (auto simp: routes_def pattern_matches_def numeral_eq_Suc simp del: take_Suc_Cons)
  moreover have "p @ ''/'' \<notin> fst ` set routes"
    using assms(3) clean_rooted [OF assms(1)] by (auto simp: routes_def append_eq_Cons_conv)
  ultimately show ?thesis
    by (simp add: mux_dispatch_def assms(1))
qed

lemma routes_clean: "list_all (\<lambda>r. cleanPath (fst r) = fst r) routes"
  by (simp add: routes_def cleanPath_def rooted_clean_def)

lemma routes_served: "\<forall>(pat, h) \<in> set routes. mux_dispatch routes pat = Serve h"
  using exact_route [OF distinct_routes] routes_clean by (auto simp: list_all_iff)

lemma unclean_redirect: "cleanPath p \<noteq> p \<Longrightarrow> mux_dispatch m p \<noteq> Serve h"
  by (simp add: mux_dispatch_def Let_def)

section \<open>Properties of the routes\<close>



end
