(* ===== verification/Client_CLI.thy ===== *)
theory Client_CLI
  imports Server_Routes
begin

text \<open>
  The command-line client, \<open>src/client/client.go\<close>: dispatch on the arguments, the four requests, what is
  printed and the exit code. \<open>http_client\<close> is the client of \<open>net/http\<close> as in \<open>Server_KV\<close>; for the way from
  the client to the handlers of the server the theory has the part of \<open>net/url\<close> that turns the text
  of a URL into the path the handler sees.
\<close>

section \<open>Outcomes\<close>

text \<open>What the process leaves behind; \<open>None\<close> in the functions below is a panic.\<close>

record outcome =
  stdout :: string
  stderr :: string
  exit_code :: nat

definition prints :: "string \<Rightarrow> outcome" where
  "prints s = \<lparr>stdout = s @ newline, stderr = '''', exit_code = 0\<rparr>"

definition fails :: "string \<Rightarrow> outcome" where
  "fails s = \<lparr>stdout = '''', stderr = s @ newline, exit_code = 1\<rparr>"

definition usage :: string where
  "usage = ''Usage: raftly-client <addr> <command> [args...]'' @ newline @ ''Commands:'' @ newline @ ''  put <key> <value>'' @ newline @
     ''  get <key>'' @ newline @ ''  delete <key>'' @ newline @ ''  status''"

text \<open>The redirect policy: the number of requests already made decides.\<close>

definition CheckRedirect :: "nat \<Rightarrow> error option" where
  "CheckRedirect via = (if via \<ge> 10 then Some ''stopped after 10 redirects'' else None)"

section \<open>Requests\<close>

definition key_url :: "string \<Rightarrow> string \<Rightarrow> string" where
  "key_url addr key = ''http://'' @ addr @ ''/keys/'' @ key"

definition put_request :: "string \<Rightarrow> string \<Rightarrow> string \<Rightarrow> http_request" where
  "put_request addr key value = \<lparr>rq_Method = ''PUT'', rq_URI = key_url addr key, rq_Path = '''',
     rq_Header = [(''Content-Type'', ''application/json'')], rq_Body = object_text [(''value'', value)]\<rparr>"

definition plain_request :: "string \<Rightarrow> string \<Rightarrow> http_request" where
  "plain_request meth url = \<lparr>rq_Method = meth, rq_URI = url, rq_Path = '''', rq_Header = [], rq_Body = ''''\<rparr>"

definition bad_status :: "http_response \<Rightarrow> outcome" where
  "bad_status resp = fails (''error '' @ decimal (rs_Status resp) @ '': '' @ rs_Body resp)"

text \<open>The error of \<open>NewRequest\<close> is dropped: the request is then nil and setting a header panics.\<close>

definition doPut :: "http_client \<Rightarrow> string \<Rightarrow> string \<Rightarrow> string \<Rightarrow> outcome option" where
  "doPut hc addr key value =
     (if hc_new hc (key_url addr key) \<noteq> None then None
      else (case hc_do hc (put_request addr key value) of
              Inl err \<Rightarrow> Some (fails (''error: '' @ err))
            | Inr resp \<Rightarrow>
                Some (if rs_Status resp = 200 then prints (''OK: '' @ key @ '' = '' @ value) else bad_status resp)))"

text \<open>
  Decoding into a \<open>map[string]string\<close>: a member that is no string leaves an empty string under its name, a
  text that is no object leaves the map empty.
\<close>

fun string_of :: "json \<Rightarrow> string" where
  "string_of (JStr s) = s"
| "string_of _ = ''''"

definition string_members :: "(string \<times> json) list \<Rightarrow> (string \<Rightarrow> string)" where
  "string_members ms = fold (\<lambda>(k, v) f. f(k := string_of v)) ms (\<lambda>_. '''')"

definition decode_map :: "string \<Rightarrow> (string \<Rightarrow> string)" where
  "decode_map body = (case json_value body of Some (JObj ms, _) \<Rightarrow> string_members ms | _ \<Rightarrow> (\<lambda>_. ''''))"

text \<open>The verb \<open>%q\<close> on text whose characters outside ASCII are printable.\<close>

definition quote_char :: "char \<Rightarrow> string" where
  "quote_char c =
     (let k = of_char c :: nat in
      if c = CHR 0x22 then [CHR 0x5C, CHR 0x22] else if c = CHR 0x5C then [CHR 0x5C, CHR 0x5C]
      else if k = 7 then [CHR 0x5C, CHR ''a''] else if k = 8 then [CHR 0x5C, CHR ''b''] else if k = 12 then [CHR 0x5C, CHR ''f'']
      else if k = 10 then [CHR 0x5C, CHR ''n''] else if k = 13 then [CHR 0x5C, CHR ''r''] else if k = 9 then [CHR 0x5C, CHR ''t'']
      else if k = 11 then [CHR 0x5C, CHR ''v'']
      else if k < 32 \<or> k = 127 then [CHR 0x5C, CHR ''x'', hex_digit (k div 16), hex_digit (k mod 16)]
      else [c])"

definition go_quote :: "string \<Rightarrow> string" where
  "go_quote s = [CHR 0x22] @ concat (map quote_char s) @ [CHR 0x22]"

definition doGet :: "http_client \<Rightarrow> string \<Rightarrow> string \<Rightarrow> outcome" where
  "doGet hc addr key =
     (case (case hc_new hc (key_url addr key) of Some err \<Rightarrow> Inl err | None \<Rightarrow> hc_do hc (plain_request ''GET'' (key_url addr key))) of
        Inl err \<Rightarrow> fails (''error: '' @ err)
      | Inr resp \<Rightarrow>
          if rs_Status resp = 200 then
            let result = decode_map (rs_Body resp) in prints (result ''key'' @ '' = '' @ result ''value'')
          else if rs_Status resp = 404 then prints (''key '' @ go_quote key @ '' not found'')
          else bad_status resp)"

definition doDelete :: "http_client \<Rightarrow> string \<Rightarrow> string \<Rightarrow> outcome option" where
  "doDelete hc addr key =
     (if hc_new hc (key_url addr key) \<noteq> None then None
      else (case hc_do hc (plain_request ''DELETE'' (key_url addr key)) of
              Inl err \<Rightarrow> Some (fails (''error: '' @ err))
            | Inr resp \<Rightarrow> Some (if rs_Status resp = 200 then prints (''OK: deleted '' @ key) else bad_status resp)))"

text \<open>
  The verb \<open>%v\<close> on decoded JSON. A number is a \<open>float64\<close>, printed in the shortest form: the model has the
  case of naturals below \<open>2 ^ 53\<close>, which the status consists of; from a million on the exponent is
  written. A map is printed in the order of its keys, of equal names the last counts.
\<close>

definition strip_zeros :: "string \<Rightarrow> string" where
  "strip_zeros s = rev (dropWhile ((=) (CHR ''0'')) (rev s))"

definition show_number :: "string \<Rightarrow> string" where
  "show_number s =
     (if length s \<le> 6 then s
      else let e = length s - 1; ds = strip_zeros s in
        take 1 ds @ (if length ds \<le> 1 then '''' else ''.'' @ drop 1 ds) @ ''e+'' @ (if e < 10 then ''0'' else '''') @ decimal e)"

definition go_map :: "(string \<times> 'a) list \<Rightarrow> (string \<times> 'a) list" where
  "go_map ms = fold (\<lambda>(k, v) m. filter (\<lambda>p. fst p \<noteq> k) m @ [(k, v)]) ms []"

fun show_value :: "json \<Rightarrow> string" where
  "show_value (JStr s) = s"
| "show_value (JNum s) = show_number s"
| "show_value (JBool b) = (if b then ''true'' else ''false'')"
| "show_value JNull = ''<nil>''"
| "show_value (JArr vs) = ''['' @ join '' '' (map show_value vs) @ '']''"
| "show_value (JObj ms) =
     ''map['' @ join '' '' (map (\<lambda>(k, s). k @ '':'' @ s) (sort_key fst (go_map (map (\<lambda>(k, v). (k, show_value v)) ms)))) @ '']''"

definition status_line :: "string \<times> json \<Rightarrow> string" where
  "status_line = (\<lambda>(k, v). (k @ '':'') @ replicate (15 - length (k @ '':'')) (CHR '' '') @ '' '' @ show_value v @ newline)"

text \<open>\<open>order\<close> is the order in which the range over the map visits its members.\<close>

definition doStatus :: "http_client \<Rightarrow> ((string \<times> json) list \<Rightarrow> (string \<times> json) list) \<Rightarrow> string \<Rightarrow> outcome" where
  "doStatus hc order addr =
     (let url = ''http://'' @ addr @ ''/status'' in
      case (case hc_new hc url of Some err \<Rightarrow> Inl err | None \<Rightarrow> hc_do hc (plain_request ''GET'' url)) of
        Inl err \<Rightarrow> fails (''error: '' @ err)
      | Inr resp \<Rightarrow>
          (case json_value (rs_Body resp) of
             Some (JObj ms, _) \<Rightarrow> \<lparr>stdout = concat (map status_line (order (go_map ms))), stderr = '''', exit_code = 0\<rparr>
           | _ \<Rightarrow> \<lparr>stdout = '''', stderr = '''', exit_code = 0\<rparr>))"

text \<open>The arguments without the name of the program.\<close>

definition client_main :: "http_client \<Rightarrow> ((string \<times> json) list \<Rightarrow> (string \<times> json) list) \<Rightarrow> string list \<Rightarrow> outcome option" where
  "client_main hc order args =
     (case args of
        addr # cmd # params \<Rightarrow>
          if cmd = ''put'' then
            (case params of
               key # value # _ \<Rightarrow> doPut hc addr key value
             | _ \<Rightarrow> Some (fails ''Usage: raftly-client <addr> put <key> <value>''))
          else if cmd = ''get'' then
            (case params of key # _ \<Rightarrow> Some (doGet hc addr key) | [] \<Rightarrow> Some (fails ''Usage: raftly-client <addr> get <key>''))
          else if cmd = ''delete'' then
            (case params of key # _ \<Rightarrow> doDelete hc addr key | [] \<Rightarrow> Some (fails ''Usage: raftly-client <addr> delete <key>''))
          else if cmd = ''status'' then Some (doStatus hc order addr)
          else Some (fails (''Unknown command: '' @ cmd))
      | _ \<Rightarrow> Some (fails usage))"

section \<open>From the URL to the handler\<close>

text \<open>Percent decoding of a path; \<open>None\<close> is a bad escape.\<close>

fun unescape :: "string \<Rightarrow> string option" where
  "unescape [] = Some []"
| "unescape (c # s) =
     (if c = CHR ''%'' then
        (case s of
           a # b # t \<Rightarrow>
             (case (unhex a, unhex b) of
                (Some x, Some y) \<Rightarrow> map_option ((#) (char_of (16 * x + y))) (unescape t)
              | _ \<Rightarrow> None)
         | _ \<Rightarrow> None)
      else map_option ((#) c) (unescape s))"

definition url_end :: "char \<Rightarrow> bool" where
  "url_end c \<longleftrightarrow> c = CHR ''?'' \<or> c = CHR ''#''"

text \<open>The path as it is sent: the text of the URL where that is a valid encoding, otherwise the path escaped.\<close>

definition alnum :: "char \<Rightarrow> bool" where
  "alnum c \<longleftrightarrow> (let k = of_char c :: nat in (48 \<le> k \<and> k \<le> 57) \<or> (65 \<le> k \<and> k \<le> 90) \<or> (97 \<le> k \<and> k \<le> 122))"

definition path_char :: "char \<Rightarrow> bool" where
  "path_char c \<longleftrightarrow> alnum c \<or> c \<in> set ''-_.~$&+,/:;=@''"

definition valid_encoded :: "char \<Rightarrow> bool" where
  "valid_encoded c \<longleftrightarrow> path_char c \<or> c \<in> set ''!()*[]%'' \<or> c = CHR 0x27"

definition upper_hex :: "nat \<Rightarrow> char" where
  "upper_hex d = char_of (if d < 10 then 48 + d else 55 + d)"

definition escape_char :: "char \<Rightarrow> string" where
  "escape_char c = (if path_char c then [c] else let k = of_char c :: nat in [CHR ''%'', upper_hex (k div 16), upper_hex (k mod 16)])"

definition after_host :: "string \<Rightarrow> string" where
  "after_host url = dropWhile (\<lambda>c. c \<noteq> CHR ''/'' \<and> \<not> url_end c) (drop (length ''http://'') url)"

text \<open>The path of an \<open>http\<close> URL, before query and fragment, decoded.\<close>

definition url_path :: "string \<Rightarrow> string option" where
  "url_path url = unescape (takeWhile (Not \<circ> url_end) (after_host url))"

text \<open>The request as the handler receives it; the fragment is not sent.\<close>

definition served :: "http_request \<Rightarrow> http_request option" where
  "served r =
     (case url_path (rq_URI r) of
        None \<Rightarrow> None
      | Some p \<Rightarrow>
          let raw = takeWhile (Not \<circ> url_end) (after_host (rq_URI r));
              query = dropWhile ((\<noteq>) (CHR ''?'')) (takeWhile ((\<noteq>) (CHR ''#'')) (after_host (rq_URI r)))
          in Some (r\<lparr>rq_Path := p, rq_URI := (if list_all valid_encoded raw then raw else concat (map escape_char p)) @ query\<rparr>))"

text \<open>Arguments that go through unchanged: a host and a key without the characters URLs give a meaning.\<close>

definition plain_addr :: "string \<Rightarrow> bool" where
  "plain_addr addr \<longleftrightarrow> list_all (\<lambda>c. c \<noteq> CHR ''/'' \<and> \<not> url_end c) addr"

definition plain_key :: "string \<Rightarrow> bool" where
  "plain_key key \<longleftrightarrow> key \<notin> {'''', ''.'', ''..''} \<and> list_all (\<lambda>c. c \<noteq> CHR ''/'' \<and> c \<noteq> CHR ''%'' \<and> \<not> url_end c) key"

section \<open>Lemmas\<close>

lemma unescape_plain: "list_all (\<lambda>c. c \<noteq> CHR ''%'') s \<Longrightarrow> unescape s = Some s"
  by (induction s rule: unescape.induct) auto

lemma after_host_key:
  assumes "plain_addr addr"
  shows "after_host (key_url addr key) = ''/keys/'' @ key"
proof -
  have "drop (length ''http://'') (key_url addr key) = addr @ ''/keys/'' @ key"
    by (simp add: key_url_def)
  moreover have "dropWhile (\<lambda>c. c \<noteq> CHR ''/'' \<and> \<not> url_end c) (addr @ ''/keys/'' @ key) = ''/keys/'' @ key"
    using assms by (simp add: plain_addr_def list_all_iff dropWhile_append2)
  ultimately show ?thesis
    by (simp only: after_host_def)
qed

lemma raw_key:
  assumes "plain_addr addr" and "plain_key key" and "z = [] \<or> url_end (hd z)"
  shows "takeWhile (Not \<circ> url_end) (after_host (key_url addr (key @ z))) = ''/keys/'' @ key"
proof -
  have "\<forall>c \<in> set (''/keys/'' @ key). (Not \<circ> url_end) c"
    using assms(2) by (auto simp: plain_key_def list_all_iff url_end_def)
  then have "takeWhile (Not \<circ> url_end) ((''/keys/'' @ key) @ z) = (''/keys/'' @ key) @ takeWhile (Not \<circ> url_end) z"
    by (intro takeWhile_append2) blast
  also have "takeWhile (Not \<circ> url_end) z = []"
    using assms(3) by (cases z) auto
  finally show ?thesis
    by (simp only: after_host_key [OF assms(1)] append_assoc append_Nil2)
qed

lemma url_path_key:
  assumes "plain_addr addr" and "plain_key key" and "z = [] \<or> url_end (hd z)"
  shows "url_path (key_url addr (key @ z)) = Some (''/keys/'' @ key)"
proof -
  have "unescape (''/keys/'' @ key) = Some (''/keys/'' @ key)"
    using assms(2) by (intro unescape_plain) (auto simp: plain_key_def list_all_iff)
  then show ?thesis
    by (simp only: url_path_def raw_key [OF assms])
qed

text \<open>The request for a key as the handler sees it.\<close>

lemma upper_hex_plain: "d < 16 \<Longrightarrow> upper_hex d \<noteq> CHR ''/'' \<and> upper_hex d \<noteq> CHR ''?''"
proof -
  assume "d < 16"
  then have "(of_char (upper_hex d) :: nat) = (if d < 10 then 48 + d else 55 + d)"
    by (simp add: upper_hex_def)
  with \<open>d < 16\<close> show ?thesis
    by (auto split: if_splits)
qed

lemma escape_char_plain:
  "c \<noteq> CHR ''/'' \<Longrightarrow> c \<noteq> CHR ''?'' \<Longrightarrow> x \<in> set (escape_char c) \<Longrightarrow> x \<noteq> CHR ''/'' \<and> x \<noteq> CHR ''?''"
  using upper_hex_plain [OF less_mult_imp_div_less, of "of_char c" 16] upper_hex_plain [of "of_char c mod 16"]
  by (auto simp: escape_char_def Let_def split: if_splits)

lemma segment_char: "c \<in> set s \<Longrightarrow> c \<noteq> CHR ''.'' \<Longrightarrow> CHR ''/'' \<notin> set s \<Longrightarrow> segment s"
  by (auto simp: segment_def)

text \<open>A plain key is one segment, also when it has to be escaped.\<close>

lemma segment_key:
  assumes "plain_key key"
  shows "segment key" and "\<not> list_all valid_encoded key \<Longrightarrow> segment (concat (map escape_char key))"
    and "CHR ''?'' \<notin> set key \<union> set (concat (map escape_char key))"
proof -
  have plain: "c \<noteq> CHR ''/'' \<and> c \<noteq> CHR ''?''" if "c \<in> set key" for c
    using assms that by (auto simp: plain_key_def list_all_iff url_end_def)
  then show "segment key"
    using assms by (auto simp: plain_key_def segment_def)
  have esc: "x \<noteq> CHR ''/'' \<and> x \<noteq> CHR ''?''" if "x \<in> set (concat (map escape_char key))" for x
  proof -
    obtain c where "c \<in> set key" "x \<in> set (escape_char c)"
      using \<open>x \<in> set (concat (map escape_char key))\<close> by auto
    then show ?thesis
      using plain [of c] escape_char_plain [of c x] by blast
  qed
  with plain show "CHR ''?'' \<notin> set key \<union> set (concat (map escape_char key))"
    by blast
  assume "\<not> list_all valid_encoded key"
  then obtain c where "c \<in> set key" "\<not> path_char c"
    by (auto simp: list_all_iff valid_encoded_def)
  then have "CHR ''%'' \<in> set (concat (map escape_char key))"
    by (auto simp: escape_char_def Let_def intro!: bexI [of _ c])
  then show "segment (concat (map escape_char key))"
    using esc segment_char [of "CHR ''%''"] by fastforce
qed

lemma served_eq:
  "url_path u = Some p \<Longrightarrow> takeWhile (Not \<circ> url_end) (after_host u) = raw \<Longrightarrow> rq_URI r = u \<Longrightarrow>
   served r = Some (r\<lparr>rq_Path := p, rq_URI := (if list_all valid_encoded raw then raw else concat (map escape_char p)) @
     dropWhile ((\<noteq>) (CHR ''?'')) (takeWhile ((\<noteq>) (CHR ''#'')) (after_host u))\<rparr>)"
  by (simp add: served_def Let_def)

lemma served_key:
  assumes "plain_addr addr" and "plain_key key" and "z = [] \<or> url_end (hd z)" and "rq_URI r = key_url addr (key @ z)"
  shows "\<exists>r1. served r = Some r1 \<and> rq_Path r1 = ''/keys/'' @ key \<and> rq_Method r1 = rq_Method r \<and> rq_Body r1 = rq_Body r \<and>
    server_dispatch r1 = Some (Serve KeysHandler)"
proof -
  define sent where "sent = (if list_all valid_encoded (''/keys/'' @ key) then key else concat (map escape_char key))"
  define query where "query = dropWhile ((\<noteq>) (CHR ''?'')) (takeWhile ((\<noteq>) (CHR ''#'')) (''/keys/'' @ key @ z))"
  have ok: "list_all valid_encoded ''/keys/''" "concat (map escape_char ''/keys/'') = ''/keys/''"
    by (simp_all add: valid_encoded_def escape_char_def path_char_def alnum_def Let_def)
  have raw: "takeWhile (Not \<circ> url_end) (after_host (key_url addr (key @ z))) = ''/keys/'' @ key"
    by (rule raw_key [OF assms(1-3)])
  have "(if list_all valid_encoded (''/keys/'' @ key) then ''/keys/'' @ key else concat (map escape_char (''/keys/'' @ key))) = ''/keys/'' @ sent"
    unfolding sent_def map_append concat_append ok(2) by (cases "list_all valid_encoded (''/keys/'' @ key)") (simp_all only: if_True if_False)
  then have "served r = Some (r\<lparr>rq_Path := ''/keys/'' @ key, rq_URI := (''/keys/'' @ sent) @ query\<rparr>)"
    using served_eq [OF url_path_key [OF assms(1-3)] raw assms(4)] unfolding after_host_key [OF assms(1)] query_def by (simp only:)
  moreover have "takeWhile ((\<noteq>) (CHR ''?'')) ((''/keys/'' @ sent) @ query) = ''/keys/'' @ sent"
  proof -
    have "\<forall>x \<in> set (''/keys/'' @ sent). CHR ''?'' \<noteq> x"
      using segment_key(3) [OF assms(2)] by (auto simp: sent_def)
    then have "takeWhile ((\<noteq>) (CHR ''?'')) ((''/keys/'' @ sent) @ query) = (''/keys/'' @ sent) @ takeWhile ((\<noteq>) (CHR ''?'')) query"
      by (intro takeWhile_append2) blast
    also have "takeWhile ((\<noteq>) (CHR ''?'')) query = []"
      unfolding query_def takeWhile_eq_Nil_iff using hd_dropWhile by blast
    finally show ?thesis by simp
  qed
  moreover have "segment sent"
    using segment_key(1,2) [OF assms(2)] ok(1) by (auto simp: sent_def simp del: append_Cons append_Nil)
  ultimately show ?thesis
    using keys_dispatch [of sent] by (auto simp: server_dispatch_def line_path_def server_mux_routes)
qed

lemma put_body:
  "json_value (object_text [(''value'', v)]) = Some (JObj [(''value'', JStr (to_valid v))], [])"
  "decode_struct [''value''] (JObj [(''value'', JStr (to_valid v))]) = Some ((\<lambda>_. '''')(''value'' := to_valid v))"
  using json_value_object [of "[(''value'', v)]" "[]"] by (simp_all add: decode_struct_def find_field_def ascii_def)

lemma decode_map_answer:
  "decode_map (object_text [(''key'', k), (''value'', v)] @ t) = (\<lambda>_. '''')(''key'' := to_valid k, ''value'' := to_valid v)"
  using json_value_object [of "[(''key'', k), (''value'', v)]" t] by (simp add: decode_map_def string_members_def ascii_names)

text \<open>A put of the client at a leader, for a plain key and whatever a query or a fragment adds to it.\<close>

lemma client_put:
  assumes "node_durable n" and "node_log_ok n" and "state n = Leader" and "plain_addr addr" and "plain_key key"
    and "z = [] \<or> url_end (hd z)" and "to_valid value = value"
    and "length (marshal_command \<lparr>cmd_Op = ''put'', cmd_Key = key, cmd_Value = value\<rparr>) < 2 ^ 32 - 22"
  shows "\<exists>r cmd r' n' entry. served (put_request addr (key @ z) value) = Some r \<and> server_dispatch r = Some (Serve KeysHandler) \<and> route_keys r = RoutePut \<and>
    HandlePut_begin hs ahead n r kv = Inr (cmd, r') \<and> handler_propose hs cmd r' kv n = (n', Inr (next_ch n)) \<and>
    entries (RaftNode.log n') = entries (RaftNode.log n) @ [entry] \<and>
    le_Data entry = marshal_command \<lparr>cmd_Op = ''put'', cmd_Key = key, cmd_Value = value\<rparr>"
proof -
  let ?f = "(\<lambda>_. '''')(''value'' := value)"
  obtain r where r: "served (put_request addr (key @ z) value) = Some r" "rq_Path r = ''/keys/'' @ key" "rq_Method r = ''PUT''"
      "rq_Body r = object_text [(''value'', value)]" "server_dispatch r = Some (Serve KeysHandler)"
    using served_key [OF assms(4-6), of "put_request addr (key @ z) value"] by (auto simp: put_request_def)
  have ne: "key \<noteq> ''''"
    using assms(5) by (simp add: plain_key_def)
  have body: "json_value (rq_Body r) = Some (JObj [(''value'', JStr value)], [])" "decode_struct [''value''] (JObj [(''value'', JStr value)]) = Some ?f"
    using put_body [of "value"] assms(7) r(4) by simp_all
  have f: "?f ''value'' = value"
    by simp
  have "route_keys r = RoutePut"
    using r(3) by (simp add: route_keys_def)
  with r(1,5) put_served [OF assms(1-3) r(2) ne body, unfolded f, OF assms(8), where hc = hs and kv = kv and ahead = ahead]
  show ?thesis by blast
qed

lemma doPut_ok:
  "hc_new hc (key_url addr key) = None \<Longrightarrow> hc_do hc (put_request addr key value) = Inr (propose_reply hs n r kv None) \<Longrightarrow>
   doPut hc addr key value = Some (prints (''OK: '' @ key @ '' = '' @ value))"
  by (simp add: doPut_def propose_reply_def write_ok_def)

section \<open>Properties of the client\<close>

text \<open>
  C15. From the command line to the store and back. For a key of plain characters, a put that reaches a
  leader is routed to the PUT handler and proposed as the next entry of the log, and the success
  answer of that handler makes the client print OK. Once the entry is applied, a get whose
  request reaches a leader prints the key with the value that was put.
\<close>

theorem client_put_then_get:
  assumes "node_durable n" and "node_log_ok n" and "state n = Leader" and "plain_addr addr" and "plain_key key"
    and "to_valid key = key" and "to_valid value = value"
    and "length (marshal_command \<lparr>cmd_Op = ''put'', cmd_Key = key, cmd_Value = value\<rparr>) < 2 ^ 32 - 22"
  shows "\<exists>r cmd r' n' entry. served (put_request addr key value) = Some r \<and> server_dispatch r = Some (Serve KeysHandler) \<and> route_keys r = RoutePut \<and>
    HandlePut_begin hs ahead n r kv = Inr (cmd, r') \<and> handler_propose hs cmd r' kv n = (n', Inr (next_ch n)) \<and>
    entries (RaftNode.log n') = entries (RaftNode.log n) @ [entry] \<and>
    (\<forall>hc. hc_new hc (key_url addr key) = None \<and> hc_do hc (put_request addr key value) = Inr (propose_reply hs n r' kv None) \<longrightarrow>
       doPut hc addr key value = Some (prints (''OK: '' @ key @ '' = '' @ value))) \<and>
    (\<exists>r2. served (plain_request ''GET'' (key_url addr key)) = Some r2 \<and> server_dispatch r2 = Some (Serve KeysHandler) \<and> route_keys r2 = RouteGet \<and>
       (\<forall>hc m kv'. state m = Leader \<and> hc_new hc (key_url addr key) = None \<and>
          hc_do hc (plain_request ''GET'' (key_url addr key)) = Inr (HandleGet hs m r2 (kv_apply entry kv')) \<longrightarrow>
          doGet hc addr key = prints (key @ '' = '' @ value)))"
proof -
  obtain r2 where r2: "served (plain_request ''GET'' (key_url addr key)) = Some r2" "rq_Path r2 = ''/keys/'' @ key" "server_dispatch r2 = Some (Serve KeysHandler)" "route_keys r2 = RouteGet"
    using served_key [OF assms(4,5), of "[]" "plain_request ''GET'' (key_url addr key)"] by (auto simp: plain_request_def route_keys_def)
  obtain r cmd r' n' entry where w: "served (put_request addr key value) = Some r" "server_dispatch r = Some (Serve KeysHandler)" "route_keys r = RoutePut"
      "HandlePut_begin hs ahead n r kv = Inr (cmd, r')" "handler_propose hs cmd r' kv n = (n', Inr (next_ch n))"
      "entries (RaftNode.log n') = entries (RaftNode.log n) @ [entry]"
    and data: "le_Data entry = marshal_command \<lparr>cmd_Op = ''put'', cmd_Key = key, cmd_Value = value\<rparr>"
    using client_put [OF assms(1-5) disjI1 [OF refl] assms(7,8), where hs = hs and kv = kv and ahead = ahead]
    unfolding append_Nil2 by blast
  have ne: "key \<noteq> ''''"
    using assms(5) by (simp add: plain_key_def)
  have get: "doGet hc addr key = prints (key @ '' = '' @ value)"
    if "state m = Leader" "hc_new hc (key_url addr key) = None"
      "hc_do hc (plain_request ''GET'' (key_url addr key)) = Inr (HandleGet hs m r2 (kv_apply entry kv'))" for hc m kv'
    using that assms(6,7) by (simp add: doGet_def get_applied [OF data ne assms(6) that(1) r2(2)] write_json_def decode_map_answer)
  show ?thesis
    by (intro exI conjI allI impI; (rule w r2)?; (elim conjE)?; (rule doPut_ok get)?; assumption?)
qed

lemma sample_length: "length (marshal_command \<lparr>cmd_Op = ''put'', cmd_Key = ''x'', cmd_Value = ''1''\<rparr>) < 2 ^ 32 - 22"
  by (simp add: marshal_command_def bytes_of_string_def object_text_def json_quote_def quote_body.simps Let_def rune_len.simps
      cont_def quote_ascii_def)

lemma sample_arguments: "plain_addr '':8001''" "plain_key ''x''" "to_valid ''x'' = ''x''" "to_valid ''1'' = ''1''" "url_end (CHR ''?'')"
  by (simp_all add: plain_addr_def plain_key_def url_end_def ascii_def)

theorem client_put_then_get_witness:
  "\<exists>n r cmd r' n' entry r2. state n = Leader \<and> served (put_request '':8001'' ''x'' ''1'') = Some r \<and>
     HandlePut_begin (sample_client write_ok) 0 n r (NewKVStore [] True) = Inr (cmd, r') \<and>
     handler_propose (sample_client write_ok) cmd r' (NewKVStore [] True) n = (n', Inr (next_ch n)) \<and>
     doPut (sample_client write_ok) '':8001'' ''x'' ''1'' = Some (prints (''OK: '' @ ''x'' @ '' = '' @ ''1'')) \<and>
     doGet (sample_client (HandleGet (sample_client write_ok) n r2 (kv_apply entry (NewKVStore [] True)))) '':8001'' ''x'' =
       prints (''x'' @ '' = '' @ ''1'')"
proof -
  obtain n :: RaftNode where n: "node_durable n" "node_log_ok n" "state n = Leader"
    by (rule sample_leader) blast
  have client: "hc_new (sample_client resp) u = None" "hc_do (sample_client resp) q = Inr resp" for resp u q
    by (simp_all add: sample_client_def)
  have ok: "propose_reply h m q kv None = write_ok" for h m q kv
    by (simp add: propose_reply_def)
  from client_put_then_get [OF n sample_arguments(1-4) sample_length, where hs = "sample_client write_ok" and ahead = 0 and kv = "NewKVStore [] True"]
  obtain r cmd r' n' entry r2 where w: "served (put_request '':8001'' ''x'' ''1'') = Some r"
      "HandlePut_begin (sample_client write_ok) 0 n r (NewKVStore [] True) = Inr (cmd, r')"
      "handler_propose (sample_client write_ok) cmd r' (NewKVStore [] True) n = (n', Inr (next_ch n))"
    and put: "\<And>hc. hc_new hc (key_url '':8001'' ''x'') = None \<and> hc_do hc (put_request '':8001'' ''x'' ''1'') =
        Inr (propose_reply (sample_client write_ok) n r' (NewKVStore [] True) None) \<Longrightarrow>
        doPut hc '':8001'' ''x'' ''1'' = Some (prints (''OK: '' @ ''x'' @ '' = '' @ ''1''))"
    and get: "\<And>hc m kv'. state m = Leader \<and> hc_new hc (key_url '':8001'' ''x'') = None \<and>
        hc_do hc (plain_request ''GET'' (key_url '':8001'' ''x'')) = Inr (HandleGet (sample_client write_ok) m r2 (kv_apply entry kv')) \<Longrightarrow>
        doGet hc '':8001'' ''x'' = prints (''x'' @ '' = '' @ ''1'')"
    by blast
  show ?thesis
    using w n(3) put [of "sample_client write_ok", unfolded client ok, OF conjI [OF refl refl]]
      get [of n "sample_client (HandleGet (sample_client write_ok) n r2 (kv_apply entry (NewKVStore [] True)))" "NewKVStore [] True",
        unfolded client, OF conjI [OF n(3) conjI [OF refl refl]]]
    by blast
qed

text \<open>
  C38. Keys are put into the URL as they are. Of a key with a question mark or a number sign only the part
  before it reaches the handler: the put is proposed under that part and, once applied, changes
  the value stored there, while the client reports success for the key it was given.
\<close>

theorem client_key_is_cut:
  assumes "node_durable n" and "node_log_ok n" and "state n = Leader" and "plain_addr addr" and "plain_key key" and "url_end c"
    and "to_valid key = key" and "to_valid value = value"
    and "length (marshal_command \<lparr>cmd_Op = ''put'', cmd_Key = key, cmd_Value = value\<rparr>) < 2 ^ 32 - 22"
  shows "\<exists>r cmd r' n' entry. served (put_request addr (key @ c # cs) value) = Some r \<and> server_dispatch r = Some (Serve KeysHandler) \<and> route_keys r = RoutePut \<and>
    HandlePut_begin hs ahead n r kv = Inr (cmd, r') \<and> handler_propose hs cmd r' kv n = (n', Inr (next_ch n)) \<and>
    entries (RaftNode.log n') = entries (RaftNode.log n) @ [entry] \<and>
    (\<forall>kv'. kv_data (kv_apply entry kv') = (kv_data kv')(key \<mapsto> value)) \<and>
    (\<forall>hc. hc_new hc (key_url addr (key @ c # cs)) = None \<and>
       hc_do hc (put_request addr (key @ c # cs) value) = Inr (propose_reply hs n r' kv None) \<longrightarrow>
       doPut hc addr (key @ c # cs) value = Some (prints (''OK: '' @ (key @ c # cs) @ '' = '' @ value)))"
proof -
  have z: "c # cs = [] \<or> url_end (hd (c # cs))"
    using assms(6) by simp
  obtain r cmd r' n' entry where w: "served (put_request addr (key @ c # cs) value) = Some r" "server_dispatch r = Some (Serve KeysHandler)" "route_keys r = RoutePut"
      "HandlePut_begin hs ahead n r kv = Inr (cmd, r')" "handler_propose hs cmd r' kv n = (n', Inr (next_ch n))"
      "entries (RaftNode.log n') = entries (RaftNode.log n) @ [entry]"
    and data: "le_Data entry = marshal_command \<lparr>cmd_Op = ''put'', cmd_Key = key, cmd_Value = value\<rparr>"
    using client_put [OF assms(1-5) z assms(8,9), where hs = hs and kv = kv and ahead = ahead] by blast
  have stored: "kv_data (kv_apply entry kv') = (kv_data kv')(key \<mapsto> value)" for kv'
    using assms(7,8) by (simp add: kv_apply_run op_of_command [OF data])
  show ?thesis
    by (intro exI conjI allI impI; (rule w stored)?; (elim conjE)?; (rule doPut_ok)?; assumption?)
qed


theorem client_key_is_cut_witness:
  "\<exists>n r cmd r' n' entry. state n = Leader \<and> served (put_request '':8001'' (''x'' @ CHR ''?'' # ''y'') ''1'') = Some r \<and>
     HandlePut_begin (sample_client write_ok) 0 n r (NewKVStore [] True) = Inr (cmd, r') \<and>
     handler_propose (sample_client write_ok) cmd r' (NewKVStore [] True) n = (n', Inr (next_ch n)) \<and>
     entries (RaftNode.log n') = entries (RaftNode.log n) @ [entry] \<and>
     kv_data (kv_apply entry (NewKVStore [] True)) = (kv_data (NewKVStore [] True))(''x'' \<mapsto> ''1'') \<and>
     doPut (sample_client write_ok) '':8001'' (''x'' @ CHR ''?'' # ''y'') ''1'' =
       Some (prints (''OK: '' @ (''x'' @ CHR ''?'' # ''y'') @ '' = '' @ ''1''))"
proof -
  obtain n :: RaftNode where n: "node_durable n" "node_log_ok n" "state n = Leader"
    by (rule sample_leader) blast
  have client: "hc_new (sample_client write_ok) u = None" "hc_do (sample_client write_ok) q = Inr (propose_reply h m q' kv None)" for u q h m q' kv
    by (simp_all add: sample_client_def propose_reply_def)
  from client_key_is_cut [OF n sample_arguments(1,2,5,3,4) sample_length, where hs = "sample_client write_ok" and ahead = 0
      and kv = "NewKVStore [] True" and cs = "''y''"]
  obtain r cmd r' n' entry where w: "served (put_request '':8001'' (''x'' @ CHR ''?'' # ''y'') ''1'') = Some r"
      "HandlePut_begin (sample_client write_ok) 0 n r (NewKVStore [] True) = Inr (cmd, r')"
      "handler_propose (sample_client write_ok) cmd r' (NewKVStore [] True) n = (n', Inr (next_ch n))"
      "entries (RaftNode.log n') = entries (RaftNode.log n) @ [entry]"
    and stored: "\<forall>kv'. kv_data (kv_apply entry kv') = (kv_data kv')(''x'' \<mapsto> ''1'')"
    and put: "\<And>hc. hc_new hc (key_url '':8001'' (''x'' @ CHR ''?'' # ''y'')) = None \<and>
        hc_do hc (put_request '':8001'' (''x'' @ CHR ''?'' # ''y'') ''1'') = Inr (propose_reply (sample_client write_ok) n r' (NewKVStore [] True) None) \<Longrightarrow>
        doPut hc '':8001'' (''x'' @ CHR ''?'' # ''y'') ''1'' = Some (prints (''OK: '' @ (''x'' @ CHR ''?'' # ''y'') @ '' = '' @ ''1''))"
    by blast
  from n(3) w spec [OF stored, of "NewKVStore [] True"] put [OF conjI [OF client]] show ?thesis by blast
qed

end
