(* ===== verification/Spec2Isabelle.thy ===== *)
theory Spec2Isabelle
  imports Raft_Divergence Scenario_Torn Scenario_Scripts Server_Admin Server_Main Server_Stream Client_CLI
begin

text \<open>
  \<^bold>\<open>Raftly: a verification development.\<close>

  Raftly is a Raft consensus implementation in Go with a replicated key-value server on top
  and a fault-injection layer below. This library translates the program into HOL functions,
  one definition per function, handler or locked region, and proves what makes the parts
  correct. Where the code does not do what Raft, a comment or the README says, the deviation
  is a theorem too.

  \<^bold>\<open>Theories and sources.\<close>
  \<^item> \<open>Raft_Prelude\<close>, \<open>Go_Encoding\<close>, \<open>Go_Text\<close>, \<open>Go_JSON\<close>: what the code uses of the language and its
    library. Go slices (an index out of range is \<open>None\<close>), 64-bit integers, little-endian numbers,
    CRC-32, decimal numerals and substrings, JSON text with its UTF-8 handling.
  \<^item> \<open>Raft_Log\<close>: \<open>src/raft/log.go\<close>, the log in memory with its sentinel entry at index 0.
  \<^item> \<open>Raft_WAL\<close>: \<open>src/raft/persistence.go\<close>, the write-ahead file byte by byte: buffered writer,
    fsync, framing with checksums, recovery, truncation by rewriting, crashes.
  \<^item> \<open>Raft_Node\<close>: \<open>src/raft/node.go\<close> and \<open>src/raft/config.go\<close>, the state of a node, its
    construction from the file, role changes, timers, proposals and the cases of the main loop.
  \<^item> \<open>Raft_Election\<close>: \<open>src/raft/election.go\<close>, vote and pre-vote handlers and the campaign.
  \<^item> \<open>Raft_Replication\<close>: \<open>src/raft/replication.go\<close>, the append handler, the leader's side of
    replication, the commit rule, and the delivery of committed entries.
  \<^item> \<open>Raft_Steps\<close>: the node as a machine whose events are the locked regions above, in any
    order, with crashes and restarts.
  \<^item> \<open>Raft_Cluster\<close>: several nodes at once, campaigns between a candidate and a voter and
    replication between a leader and a follower.
  \<^item> \<open>Raft_Matching\<close>: a cluster whose network loses, repeats, delays and reorders messages, as a step
    relation, and the invariant behind log matching.
  \<^item> \<open>Raft_Divergence\<close>: a run of three nodes that ends with two committed writes at one index.
  \<^item> \<open>Raft_Isolation\<close>: what a node can still do while no message reaches it or leaves it.
  \<^item> \<open>Net_Proxy\<close>: \<open>src/transport/proxy.go\<close>, the rules in front of every message.
  \<^item> \<open>Net_Transport\<close>: \<open>src/transport/inmem.go\<close>, \<open>src/transport/grpc.go\<close> and the interface of
    \<open>src/raft/transport.go\<close>.
  \<^item> \<open>Net_Chaos\<close>: \<open>src/chaos\<close>, injections, healing, crash and restart.
  \<^item> \<open>Scenario_Cluster\<close>: \<open>src/scenarios/scenario.go\<close>, the in-process cluster of the scenarios.
  \<^item> \<open>Scenario_World\<close>: a script and the nodes side by side: \<open>ProposeWithTimeout\<close> and the loops of the
    scripts, with a schedule that says what the nodes do while the script waits.
  \<^item> \<open>Scenario_Scripts\<close>: \<open>src/scenarios/leader_isolation.go\<close>, \<open>split_brain.go\<close> and \<open>stale_election.go\<close>.
  \<^item> \<open>Scenario_Torn\<close>: \<open>src/scenarios/torn_write.go\<close>, a node that recovers from a torn record.
  \<^item> \<open>Server_KV\<close>: \<open>src/server/api.go\<close>, the replicated store, its HTTP handlers, the snapshot of the
    cluster and its events.
  \<^item> \<open>Server_Routes\<close>: the routes of all HTTP handlers, the multiplexer and \<open>src/web/embed.go\<close>.
  \<^item> \<open>Server_Stream\<close>: the event stream of \<open>src/server/api.go\<close> as text.
  \<^item> \<open>Server_Fanout\<close>: requests that a server passes on to all servers of the cluster.
  \<^item> \<open>Server_Chaos\<close>: \<open>src/server/chaos.go\<close>, proxy rules by HTTP, on one server and on all.
  \<^item> \<open>Server_Admin\<close>: \<open>src/server/config.go\<close> and \<open>src/server/log.go\<close>, timings and log views.
  \<^item> \<open>Server_Main\<close>: \<open>src/server/server.go\<close>, \<open>src/server/metrics.go\<close> and \<open>src/cmd/server/main.go\<close>, one
    process from its flags to its shutdown.
  \<^item> \<open>Client_CLI\<close>: \<open>src/client/client.go\<close>, from the arguments to what is printed, with the part of
    \<open>net/url\<close> that lies between the client and the handlers.

  \<^bold>\<open>State and effects.\<close> A Go struct is a record, a method a function from the record to the
  record. A panic is \<open>None\<close>, an error value the left side of a sum. The mutex of a node makes
  each locked region atomic, so a goroutine is a sequence of such regions and an execution is
  any interleaving of them; goroutines that are started are recorded in the node. Time,
  randomness, the network and the disk's behaviour are arguments. Terms and indexes are
  \<open>64 word\<close>, durations are \<open>int\<close> with the wrap-around of \<open>int64\<close> written out. A handler of the
  servers is a function of the request; requests between servers are steps on one state that
  holds all servers by address. Objects that the code shares by pointer are kept once.

  \<^bold>\<open>Interfaces.\<close> \<open>durable_store\<close> (what the node needs of its file), \<open>commit_log\<close> (committed
  prefixes stay), \<open>quorum_system\<close>, \<open>vote_keeper\<close>, \<open>rpc\<close> (what a sender needs of a
  transport), \<open>replicated_machine\<close> (what the store is to the log) and \<open>fan_out\<close> (what one step of a
  request to all servers does) are locales; each is interpreted on the definitions of the model,
  \<open>rpc\<close> and \<open>fan_out\<close> three times each.

  \<^bold>\<open>What is shown.\<close>
  \<^item> Storage: round trip of records, recovery after any crash, detection of damage, truncation,
    termination of recovery on every file; and the torn tail, the empty record and the truncation window that recovery mishandles.
  \<^item> Node: every locked region terminates without a panic and keeps the invariant that the log
    is well formed and equal to what the file holds; restarts recover term, vote and log.
  \<^item> Election: all branches of the handlers, one vote per term of the voter across crashes,
    quorums intersect, the tally wins exactly with a quorum; and the two places where the code
    leaves Raft (a voter does not adopt the candidate's term, a winner is not checked again).
  \<^item> Replication: the append handler refines the merge of two logs in memory and on disk, is
    idempotent, the leader commits only what a quorum has in its own term and does commit it,
    committed entries stay, delivery is in order; and the wrong backtracking, the file cut
    before a refused truncation, the duplicate delivery, and proposals notified by index.
  \<^item> Network: first-match evaluation, drops without effect, invariance of a whole cluster under
    messages, transparency of the gRPC conversions, exact healing, isolation by a partition and
    its failure behind an earlier rule, recovery through crash and restart.
  \<^item> Several nodes: a follower that is only behind catches up in two rounds of replication; two
    nodes can lead one term, and replication can repeat one rejection for ever. Logs match in every
    run in which no term is won twice; without that hypothesis, which the code does not guarantee, two
    leaders of one term commit different writes at the same index.
  \<^item> Servers: the store is the map of last writes, commands survive their JSON encoding, a written
    value is read back; isolation, healing and timings reach every server that answers; log views
    show the newest entries with the right flags; flags are read back; a process that is stopped
    and started again has its term, vote and log. Duplicate delivery can bring back an older write,
    a forwarded PUT loses its body, delays do not survive the way to another server, and an RPC that
    arrives before the node is registered ends the process.
  \<^item> Routes, stream and client: registering the routes does not panic and every path has the handler
    it is meant for; a reader of the event stream gets exactly the events; a put of the client arrives,
    is proposed, and is printed by a later get; keys with a question mark or number sign are cut.
  \<^item> Scenarios: a cluster on empty directories starts with every node in its invariant; the
    torn-write script passes under every schedule that lets it finish, and reports wrongly that
    nothing was truncated. For every schedule, no write to an isolated leader is acknowledged and the leader-isolation script
    counts none; the split-brain script can crash, and a crashed leader still votes after healing.

  \<^bold>\<open>Bounds.\<close> Loops over slices are structural recursion. The two index loops of replication are
  \<open>function\<close>s with termination proofs, as is the reader of records. The JSON parser recurses on
  fuel; \<open>parse_fuel\<close> and \<open>parse_value_fuel\<close> show that twice the length of the text plus two is enough:
  more fuel gives the same result. Hypotheses
  bound log length and terms below \<open>2 ^ 63\<close> and record sizes below \<open>2 ^ 32\<close>, the ranges in which
  the code's conversions do not wrap.

  \<^bold>\<open>Schedules.\<close> The scripts wait by the clock. Their model takes the acts of the nodes during each wait
  as an argument, so a theorem for all schedules covers all timings; votes appear in a schedule as
  answers a node may receive, which includes every answer the code can give. Log matching ranges
  over runs of a relation in which any message that was ever sent may be handled at any time.

  \<^bold>\<open>Not modelled.\<close> Logging, the registration of metrics, signal handling, the removal of directories, the
  generated protocol code, the files of the dashboard and the text of the chaos report. The gRPC
  library and the exchange of \<open>net/http\<close> are parameters; its multiplexer is modelled for patterns
  without methods and wildcards, the status of its redirects is left open.
\<close>

end
